(* ===== verification/Prelude.thy ===== *)
theory Prelude
  imports Main "HOL-Library.Word"
begin

text \<open>
  Shared vocabulary of the development: machine integer types, results with an error
  value, the overwriting of a stretch of memory (\<open>overwrite\<close>, the effect of
  \<^verbatim>\<open>memcpy\<close>), the bytes of an integer in memory, \<^verbatim>\<open>size_t\<close> subtraction, C strings and
  decimal printing.  The lemmas here know nothing of the program; the collections
  \<open>mem_simps\<close> and \<open>res_simps\<close> carry them into the component proofs.
\<close>

unbundle bit_operations_syntax

named_theorems mem_simps \<open>rewriting of overwritten and concatenated memory\<close>
named_theorems res_simps \<open>rewriting of sequenced results\<close>

section \<open>Machine types\<close>

type_synonym byte = "8 word"
type_synonym u16 = "16 word"
type_synonym u32 = "32 word"
type_synonym u64 = "64 word"

text \<open>Subtraction of \<^verbatim>\<open>size_t\<close> values wraps around at 64 bits.\<close>

definition szsub :: "nat \<Rightarrow> nat \<Rightarrow> nat" where
  "szsub a b = (if b \<le> a then a - b else 2 ^ 64 + a - b)"

lemma szsub_le [simp]: "b \<le> a \<Longrightarrow> szsub a b = a - b"
  by (simp add: szsub_def)

section \<open>Results\<close>

text \<open>An operation that may fail returns \<open>Inl\<close> of the error or \<open>Inr\<close> of its value;
  the first failure of a sequence is the failure of the whole.\<close>

definition rbind :: "'e + 'a \<Rightarrow> ('a \<Rightarrow> 'e + 'b) \<Rightarrow> 'e + 'b" where
  "rbind m f = (case m of Inl e \<Rightarrow> Inl e | Inr x \<Rightarrow> f x)"

lemma rbind_simps [simp, res_simps]:
  "rbind (Inl e) f = Inl e" "rbind (Inr x) f = f x"
  by (simp_all add: rbind_def)

lemma rbind_cong [fundef_cong]:
  assumes "m = m'" and "\<And>x. m' = Inr x \<Longrightarrow> f x = f' x"
  shows "rbind m f = rbind m' f'"
  using assms by (cases m') (auto simp: rbind_def)

lemma rbind_eq_Inr:
  "rbind m f = Inr y \<longleftrightarrow> (\<exists>x. m = Inr x \<and> f x = Inr y)"
  by (cases m) (auto simp: rbind_def)

section \<open>Overwriting memory\<close>

definition overwrite :: "'a list \<Rightarrow> nat \<Rightarrow> 'a list \<Rightarrow> 'a list" where
  "overwrite xs i ys = take i xs @ ys @ drop (i + length ys) xs"

lemma length_overwrite [simp, mem_simps]:
  "i + length ys \<le> length xs \<Longrightarrow> length (overwrite xs i ys) = length xs"
  by (simp add: overwrite_def)

lemma overwrite_Nil [simp]: "overwrite xs i [] = xs"
  by (simp add: overwrite_def)

lemma overwrite_overwrite_append [mem_simps]:
  assumes "i + length ys + length zs \<le> length xs"
  shows "overwrite (overwrite xs i ys) (i + length ys) zs = overwrite xs i (ys @ zs)"
  using assms by (simp add: overwrite_def ac_simps)

lemma take_drop_overwrite [mem_simps]:
  assumes "i + length ys \<le> length xs"
  shows "take (length ys) (drop i (overwrite xs i ys)) = ys"
  using assms by (simp add: overwrite_def)

lemma take_overwrite_before [mem_simps]:
  "j \<le> i \<Longrightarrow> i \<le> length xs \<Longrightarrow> take j (overwrite xs i ys) = take j xs"
  by (simp add: overwrite_def min_def)

text \<open>Overwriting a prefix that is long enough, or grows by it.\<close>

lemma take_max_overwrite:
  assumes "i \<le> m" and "m \<le> length xs" and "i + length ys \<le> length xs"
  shows "take (max m (i + length ys)) (overwrite xs i ys) = overwrite (take m xs) i ys"
proof (cases "i + length ys \<le> m")
  case True
  then show ?thesis using assms by (simp add: overwrite_def drop_take)
next
  case False
  then show ?thesis using assms by (simp add: overwrite_def max_def)
qed

text \<open>Overwriting at the end may also lengthen the sequence.\<close>

lemma overwrite_grow:
  assumes "i \<le> length xs"
  shows "overwrite (overwrite xs i ys) (i + length ys) zs = overwrite xs i (ys @ zs)"
  using assms by (simp add: overwrite_def ac_simps)

lemma overwrite_append1:
  "i + length ys \<le> length xs \<Longrightarrow> overwrite (xs @ zs) i ys = overwrite xs i ys @ zs"
  by (simp add: overwrite_def)

lemma overwrite_append2:
  "overwrite (zs @ xs) (length zs + i) ys = zs @ overwrite xs i ys"
  by (simp add: overwrite_def add.assoc)

text \<open>A row of blocks that all have the same length: the cell \<open>k * b + j\<close> of the whole is
  the cell \<open>j\<close> of block \<open>k\<close>.\<close>

lemma length_concat_uniform [mem_simps]:
  "\<forall>x \<in> set xss. length x = b \<Longrightarrow> length (concat xss) = length xss * b"
  by (induction xss) auto

lemma uniform_update:
  "\<forall>x \<in> set xss. length x = b \<Longrightarrow> length y = b \<Longrightarrow> \<forall>x \<in> set (xss[k := y]). length x = b"
  using set_update_subset_insert [of xss k y] by auto

lemma concat_take_drop_uniform:
  assumes "\<forall>x \<in> set xss. length x = b" and "k < length xss"
  shows "concat xss = concat (take k xss) @ xss ! k @ concat (drop (Suc k) xss)"
    and "length (concat (take k xss)) = k * b"
proof -
  have "xss = take k xss @ xss ! k # drop (Suc k) xss"
    using assms(2) by (simp add: id_take_nth_drop)
  then show "concat xss = concat (take k xss) @ xss ! k @ concat (drop (Suc k) xss)"
    by (metis concat.simps(2) concat_append)
  have "\<forall>x \<in> set (take k xss). length x = b"
    using assms(1) by (auto dest: in_set_takeD)
  then show "length (concat (take k xss)) = k * b"
    using assms(2) length_concat_uniform [of "take k xss" b] by simp
qed

lemma concat_overwrite_block [mem_simps]:
  assumes "\<forall>x \<in> set xss. length x = b" and "k < length xss" and "j + length ys \<le> b"
  shows "concat (xss[k := overwrite (xss ! k) j ys]) = overwrite (concat xss) (k * b + j) ys"
proof -
  note split = concat_take_drop_uniform [OF assms(1,2)]
  have len: "length (xss ! k) = b" using assms(1,2) by simp
  have "concat (xss[k := overwrite (xss ! k) j ys]) =
      concat (take k xss) @ overwrite (xss ! k) j ys @ concat (drop (Suc k) xss)"
    using assms(2) by (simp add: upd_conv_take_nth_drop)
  also have "\<dots> = overwrite (concat xss) (k * b + j) ys"
    using len assms(3)
    by (simp add: split(1) split(2) [symmetric] overwrite_append2 overwrite_append1)
  finally show ?thesis .
qed

lemma take_drop_concat_block [mem_simps]:
  assumes "\<forall>x \<in> set xss. length x = b" and "k < length xss" and "j + n \<le> b"
  shows "take n (drop (k * b + j) (concat xss)) = take n (drop j (xss ! k))"
proof -
  note split = concat_take_drop_uniform [OF assms(1,2)]
  have len: "length (xss ! k) = b" using assms(1,2) by simp
  then show ?thesis using assms(3) by (simp add: split)
qed

section \<open>The bytes of an integer\<close>

text \<open>The \<open>n\<close> low bytes of a word, least significant first, and the word that a row of
  bytes stands for.\<close>

fun le_bytes :: "nat \<Rightarrow> 'a::len word \<Rightarrow> byte list" where
  "le_bytes 0 w = []"
| "le_bytes (Suc n) w = ucast w # le_bytes n (drop_bit 8 w)"

fun le_word :: "byte list \<Rightarrow> 'a::len word" where
  "le_word [] = 0"
| "le_word (b # bs) = ucast b OR push_bit 8 (le_word bs)"

lemma length_le_bytes [simp]: "length (le_bytes n w) = n"
  by (induction n arbitrary: w) auto

lemma le_word_le_bytes_take: "le_word (le_bytes n w) = (take_bit (8 * n) w :: 'a::len word)"
proof (induction n arbitrary: w)
  case (Suc n)
  show ?case
  proof (rule bit_word_eqI)
    fix i assume "i < LENGTH('a)"
    then show "bit (le_word (le_bytes (Suc n) w) :: 'a word) i = bit (take_bit (8 * Suc n) w) i"
      by (auto simp: Suc bit_simps)
  qed
qed simp

lemma le_word_le_bytes [simp]:
  "LENGTH('a::len) \<le> 8 * n \<Longrightarrow> le_word (le_bytes n w) = (w :: 'a word)"
  by (simp add: le_word_le_bytes_take take_bit_word_eq_self)

lemma le_bytes_le_word:
  "8 * length bs \<le> LENGTH('a::len) \<Longrightarrow> le_bytes (length bs) (le_word bs :: 'a word) = bs"
proof (induction bs)
  case (Cons b bs)
  have low: "ucast (ucast b OR push_bit 8 (le_word bs) :: 'a word) = b"
    using Cons.prems by (intro bit_word_eqI) (auto simp: bit_simps)
  have "drop_bit 8 (ucast b OR push_bit 8 (le_word bs) :: 'a word)
      = take_bit (LENGTH('a) - 8) (le_word bs)"
    by (intro bit_word_eqI) (auto simp: bit_simps dest: bit_imp_le_length)
  moreover have "le_bytes (length bs) (take_bit m w) = le_bytes (length bs) w"
    if "8 * length bs \<le> m" for m and w :: "'a word"
    using that
  proof (induction bs arbitrary: w m)
    case (Cons c cs)
    have "ucast (take_bit m w) = (ucast w :: byte)"
      using Cons.prems by (intro bit_word_eqI) (auto simp: bit_simps)
    moreover have "drop_bit 8 (take_bit m w) = take_bit (m - 8) (drop_bit 8 w)"
      by (intro bit_word_eqI) (auto simp: bit_simps)
    ultimately show ?case using Cons.IH [of "m - 8"] Cons.prems by simp
  qed simp
  ultimately show ?case using low Cons by simp
qed simp

lemma unat_bound: "unat (w :: 'a::len word) < 2 ^ LENGTH('a)"
  by (rule unsigned_less)

section \<open>C strings and decimal printing\<close>

text \<open>\<^verbatim>\<open>std::string::c_str\<close> read as a C string ends at the first NUL character.\<close>

definition c_str :: "string \<Rightarrow> string" where
  "c_str s = takeWhile (\<lambda>c. c \<noteq> CHR 0x00) s"

fun dec :: "nat \<Rightarrow> string" where
  "dec n = (if n < 10 then [char_of (48 + n)] else dec (n div 10) @ [char_of (48 + n mod 10)])"

declare dec.simps [simp del]

text \<open>The bytes of a string and back.\<close>

definition str_bytes :: "string \<Rightarrow> byte list" where
  "str_bytes s = map of_char s"

definition bytes_str :: "byte list \<Rightarrow> string" where
  "bytes_str bs = map (\<lambda>b. char_of (unat b)) bs"

lemma length_str_bytes [simp]: "length (str_bytes s) = length s" "length (bytes_str bs) = length bs"
  by (simp_all add: str_bytes_def bytes_str_def)

end
