(* ===== verification/Endian.thy ===== *)
theory Endian
  imports Prelude
begin

text \<open>
  Byte order (\<^verbatim>\<open>util.h\<close>): byte swapping and the two conversions the byte array and the
  WebSocket layer use.  The order of the machine the program runs on,
  \<^verbatim>\<open>std::endian::native\<close>, is an argument \<open>native\<close> of every definition that depends on it,
  and so is the image of an integer in memory.
\<close>

section \<open>Definitions\<close>

datatype EndianType = XZMJX_Little_Endian | XZMJX_Big_Endian

text \<open>\<^verbatim>\<open>bswap_16\<close>, \<^verbatim>\<open>bswap_32\<close> and \<^verbatim>\<open>bswap_64\<close> of \<^verbatim>\<open>byteswap.h\<close> reverse the bytes of
  their argument.\<close>

definition bswap :: "nat \<Rightarrow> 'a::len word \<Rightarrow> 'a word" where
  "bswap n v = le_word (rev (le_bytes n v))"

definition ByteSwap :: "'a::len word \<Rightarrow> 'a word" where
  "ByteSwap value =
     (if LENGTH('a) div 8 = 1 then value
      else if LENGTH('a) div 8 = 2 then bswap 2 value
      else if LENGTH('a) div 8 = 4 then bswap 4 value
      else if LENGTH('a) div 8 = 8 then bswap 8 value
      else - 1)"

definition EndianCastOnLittle :: "EndianType \<Rightarrow> 'a::len word \<Rightarrow> 'a word" where
  "EndianCastOnLittle native value =
     (if native = XZMJX_Little_Endian then ByteSwap value else value)"

definition EndianCastByType :: "EndianType \<Rightarrow> 'a::len word \<Rightarrow> EndianType \<Rightarrow> 'a word" where
  "EndianCastByType native value type =
     (if type = XZMJX_Little_Endian \<and> native = XZMJX_Big_Endian then ByteSwap value
      else if type = XZMJX_Big_Endian \<and> native = XZMJX_Little_Endian then ByteSwap value
      else value)"

text \<open>The object representation of an integer: what \<^verbatim>\<open>memcpy\<close> from its address copies, and
  the integer \<^verbatim>\<open>memcpy\<close> to its address leaves there.\<close>

definition mem_bytes :: "EndianType \<Rightarrow> 'a::len word \<Rightarrow> byte list" where
  "mem_bytes native v =
     (if native = XZMJX_Little_Endian then le_bytes (LENGTH('a) div 8) v
      else rev (le_bytes (LENGTH('a) div 8) v))"

definition mem_word :: "EndianType \<Rightarrow> byte list \<Rightarrow> 'a::len word" where
  "mem_word native bs = (if native = XZMJX_Little_Endian then le_word bs else le_word (rev bs))"

section \<open>Properties\<close>

text \<open>The integer types of the program have 8, 16, 32 or 64 bits.\<close>

definition int_width :: "'a::len word itself \<Rightarrow> bool" where
  "int_width t \<longleftrightarrow> LENGTH('a) \<in> {8, 16, 32, 64}"

lemma int_width_simps [simp]:
  "int_width TYPE(8 word)" "int_width TYPE(16 word)"
  "int_width TYPE(32 word)" "int_width TYPE(64 word)"
  by (simp_all add: int_width_def)

lemma length_mem_bytes [simp]: "length (mem_bytes native (v :: 'a::len word)) = LENGTH('a) div 8"
  by (simp add: mem_bytes_def)

lemma int_width_dvd: "int_width TYPE('a::len word) \<Longrightarrow> 8 * (LENGTH('a) div 8) = LENGTH('a)"
  by (auto simp: int_width_def)

lemma mem_word_bytes [simp]:
  "int_width TYPE('a::len word) \<Longrightarrow> mem_word native (mem_bytes native v) = (v :: 'a word)"
  by (simp add: mem_word_def mem_bytes_def int_width_dvd)

lemma le_bytes_bswap:
  assumes "8 * n = LENGTH('a::len)"
  shows "le_bytes n (bswap n v :: 'a word) = rev (le_bytes n v)"
  using le_bytes_le_word [of "rev (le_bytes n v)", where 'a = 'a] assms
  by (simp add: bswap_def)

lemma bswap_zero [simp]: "bswap n 0 = 0"
proof -
  have "le_bytes n (0 :: 'a word) = replicate n 0" by (induction n) simp_all
  moreover have "(le_word (replicate n 0) :: 'a word) = 0" by (induction n) simp_all
  ultimately show ?thesis by (simp add: bswap_def)
qed

lemma bswap_bswap:
  assumes "8 * n = LENGTH('a::len)"
  shows "bswap n (bswap n v) = (v :: 'a word)"
  unfolding bswap_def [of n "bswap n v"] using assms by (simp add: le_bytes_bswap)

lemma ByteSwap_bytes:
  assumes "int_width TYPE('a::len word)"
  shows "le_bytes (LENGTH('a) div 8) (ByteSwap v :: 'a word) = rev (le_bytes (LENGTH('a) div 8) v)"
proof (cases "LENGTH('a) = 8")
  case True
  then show ?thesis by (simp add: ByteSwap_def)
next
  case False
  then have "ByteSwap v = bswap (LENGTH('a) div 8) v"
    using assms by (auto simp: ByteSwap_def int_width_def)
  then show ?thesis using assms by (simp add: le_bytes_bswap int_width_dvd)
qed

lemma ByteSwap_involution [simp]:
  assumes "int_width TYPE('a::len word)"
  shows "ByteSwap (ByteSwap v) = (v :: 'a word)"
proof -
  let ?n = "LENGTH('a) div 8"
  have "le_bytes ?n (ByteSwap (ByteSwap v)) = le_bytes ?n v"
    using assms by (simp add: ByteSwap_bytes)
  then have "(le_word (le_bytes ?n (ByteSwap (ByteSwap v))) :: 'a word) = le_word (le_bytes ?n v)"
    by simp
  then show ?thesis using assms by (simp add: int_width_dvd)
qed

lemma EndianCastByType_involution [simp]:
  "int_width TYPE('a::len word) \<Longrightarrow>
   EndianCastByType native (EndianCastByType native v t) t = (v :: 'a word)"
  by (simp add: EndianCastByType_def)

text \<open>What the conversion is for: the memory image of the converted integer is the integer in
  the requested order, whatever the order of the machine.\<close>

lemma mem_bytes_EndianCastByType:
  "int_width TYPE('a::len word) \<Longrightarrow>
   mem_bytes native (EndianCastByType native v type) =
     (if type = XZMJX_Little_Endian then le_bytes (LENGTH('a) div 8) (v :: 'a word)
      else rev (le_bytes (LENGTH('a) div 8) v))"
  by (cases native; cases type) (simp_all add: mem_bytes_def EndianCastByType_def ByteSwap_bytes)

lemma EndianCastOnLittle_involution [simp]:
  "int_width TYPE('a::len word) \<Longrightarrow>
   EndianCastOnLittle native (EndianCastOnLittle native v) = (v :: 'a word)"
  by (simp add: EndianCastOnLittle_def)

lemma mem_bytes_EndianCastOnLittle:
  "int_width TYPE('a::len word) \<Longrightarrow>
   mem_bytes native (EndianCastOnLittle native v) = rev (le_bytes (LENGTH('a) div 8) (v :: 'a word))"
  by (cases native) (simp_all add: mem_bytes_def EndianCastOnLittle_def ByteSwap_bytes)

end
