(* ===== verification/Byte_Array.thy ===== *)
theory Byte_Array
  imports Endian
begin

text \<open>
  The growing byte buffer \<^verbatim>\<open>ByteArray\<close> (\<^verbatim>\<open>bytearray.h\<close>, \<^verbatim>\<open>bytearray.cpp\<close>): a chain of
  memory blocks of equal size with a cursor that is kept twice, as a position and as a
  pointer to the block the position falls into.  This theory has the chain, the raw
  operations on it (growing, writing, reading, seeking, the scatter/gather views) and their
  refinement to a plain sequence of bytes; the codecs on top of them are in \<open>Byte_Codec\<close>.

  The chain is the list of the blocks from \<^verbatim>\<open>m_root\<close> on, a pointer to a block is its index,
  \<open>None\<close> is \<^verbatim>\<open>nullptr\<close>.  Dereferencing \<^verbatim>\<open>nullptr\<close>, dividing by a zero block size, a
  loop that never ends and \<^verbatim>\<open>std::out_of_range\<close> are the errors.  The bytes \<^verbatim>\<open>new char[s]\<close> leaves uninitialised are
  those of the arbitrary function \<open>m_fresh\<close>.  Sizes are natural numbers: a size is bounded by
  the memory of the process, only the differences of two sizes can leave the range of
  \<^verbatim>\<open>size_t\<close> and are written with \<open>szsub\<close>.
\<close>

section \<open>State\<close>

datatype ba_error = OutOfRange | NullDeref | DivByZero | Diverges

type_synonym Node = "byte list"

record ByteArray =
  m_position :: nat
  m_base_size :: nat
  m_capacity :: nat
  m_size :: nat
  m_nodes :: "Node list"
  m_cur :: "nat option"
  m_endian :: EndianType
  m_fresh :: "nat \<Rightarrow> nat \<Rightarrow> byte"

definition Node_new :: "(nat \<Rightarrow> nat \<Rightarrow> byte) \<Rightarrow> nat \<Rightarrow> nat \<Rightarrow> Node" where
  "Node_new fresh k s = map (fresh k) [0..<s]"

definition node_next :: "Node list \<Rightarrow> nat \<Rightarrow> nat option" where
  "node_next ns k = (if Suc k < length ns then Some (Suc k) else None)"

definition node_deref :: "Node list \<Rightarrow> nat option \<Rightarrow> ba_error + nat" where
  "node_deref ns c = (case c of None \<Rightarrow> Inl NullDeref | Some k \<Rightarrow> Inr k)"

definition ByteArray_new :: "(nat \<Rightarrow> nat \<Rightarrow> byte) \<Rightarrow> nat \<Rightarrow> ByteArray" where
  "ByteArray_new fresh base_size =
     \<lparr>m_position = 0, m_base_size = base_size, m_capacity = base_size, m_size = 0,
      m_nodes = [Node_new fresh 0 base_size], m_cur = Some 0,
      m_endian = XZMJX_Big_Endian, m_fresh = fresh\<rparr>"

definition getReadSize :: "ByteArray \<Rightarrow> nat" where
  "getReadSize ba = szsub (m_size ba) (m_position ba)"

definition getCapacity :: "ByteArray \<Rightarrow> nat" where
  "getCapacity ba = szsub (m_capacity ba) (m_position ba)"

definition isLittleEndain :: "ByteArray \<Rightarrow> bool" where
  "isLittleEndain ba \<longleftrightarrow> m_endian ba = XZMJX_Little_Endian"

definition setLittleEndain :: "ByteArray \<Rightarrow> ByteArray" where
  "setLittleEndain ba = ba\<lparr>m_endian := XZMJX_Little_Endian\<rparr>"

section \<open>Growing, clearing\<close>

text \<open>The number of new blocks, \<^verbatim>\<open>ceil((1.0 * size) / m_base_size)\<close>; the quotient of two sizes
  below \<open>2 ^ 53\<close> is the rounded-up quotient of the naturals.\<close>

definition ceil_div :: "nat \<Rightarrow> nat \<Rightarrow> nat" where
  "ceil_div a b = (a + b - 1) div b"

definition addCapacity :: "nat \<Rightarrow> ByteArray \<Rightarrow> ByteArray" where
  "addCapacity sz ba =
     (if sz = 0 then ba
      else let old_cap = getCapacity ba in
      if old_cap \<ge> sz then ba
      else let node_count = ceil_div (sz - old_cap) (m_base_size ba);
               n = length (m_nodes ba);
               added = map (\<lambda>i. Node_new (m_fresh ba) (n + i) (m_base_size ba)) [0..<node_count]
           in ba\<lparr>m_nodes := m_nodes ba @ added,
                 m_capacity := m_capacity ba + node_count * m_base_size ba,
                 m_cur := (if old_cap = 0 then (if node_count = 0 then None else Some n)
                           else m_cur ba)\<rparr>)"

definition clear :: "ByteArray \<Rightarrow> ByteArray" where
  "clear ba = ba\<lparr>m_position := 0, m_size := 0, m_capacity := m_base_size ba,
                 m_nodes := take 1 (m_nodes ba), m_cur := Some 0\<rparr>"

section \<open>Writing and reading\<close>

text \<open>The loop of \<^verbatim>\<open>write\<close>: \<open>k\<close> is the block \<^verbatim>\<open>m_cur\<close>, \<open>buf\<close> what is left to write.\<close>

function write_loop ::
  "nat \<Rightarrow> nat \<Rightarrow> nat \<Rightarrow> nat \<Rightarrow> byte list \<Rightarrow> Node list \<Rightarrow> ba_error + Node list \<times> nat option \<times> nat"
where
  "write_loop k npos ncap pos buf ns =
     (if buf = [] then Inr (ns, Some k, pos)
      else if ncap \<ge> length buf then
        Inr (ns[k := overwrite (ns ! k) npos buf],
             if length (ns ! k) = npos + length buf then node_next ns k else Some k,
             pos + length buf)
      else
        let ns' = ns[k := overwrite (ns ! k) npos (take ncap buf)] in
        case node_next ns k of
          None \<Rightarrow> Inl NullDeref
        | Some k' \<Rightarrow> write_loop k' 0 (length (ns' ! k')) (pos + ncap) (drop ncap buf) ns')"
  by pat_completeness auto
termination
  by (relation "measure (\<lambda>(k, npos, ncap, pos, buf, ns). length ns - k)")
    (auto simp: node_next_def split: if_splits)

definition ba_write :: "byte list \<Rightarrow> ByteArray \<Rightarrow> ba_error + ByteArray" where
  "ba_write buf ba =
     (if buf = [] then Inr ba
      else let ba = addCapacity (length buf) ba in
      if m_base_size ba = 0 then Inl DivByZero
      else let npos = m_position ba mod m_base_size ba in
      rbind (node_deref (m_nodes ba) (m_cur ba)) (\<lambda>k.
      rbind (write_loop k npos (szsub (length (m_nodes ba ! k)) npos) (m_position ba) buf
               (m_nodes ba)) (\<lambda>(ns, cur, pos).
      Inr (ba\<lparr>m_nodes := ns, m_cur := cur, m_position := pos,
              m_size := (if pos > m_size ba then pos else m_size ba)\<rparr>))))"

text \<open>The loop of \<^verbatim>\<open>read\<close>: the bytes copied out, the new \<^verbatim>\<open>m_cur\<close> and the new position.  As in
  the source the block is left only when the \<^emph>\<open>remaining\<close> size equals the size of the block.\<close>

function read_loop ::
  "nat \<Rightarrow> nat \<Rightarrow> nat \<Rightarrow> nat \<Rightarrow> nat \<Rightarrow> Node list \<Rightarrow> ba_error + byte list \<times> nat option \<times> nat"
where
  "read_loop k npos ncap pos sz ns =
     (if sz = 0 then Inr ([], Some k, pos)
      else if ncap \<ge> sz then
        Inr (take sz (drop npos (ns ! k)),
             if length (ns ! k) = sz then node_next ns k else Some k,
             pos + sz)
      else
        case node_next ns k of
          None \<Rightarrow> Inl NullDeref
        | Some k' \<Rightarrow>
            rbind (read_loop k' 0 (length (ns ! k')) (pos + ncap) (sz - ncap) ns)
              (\<lambda>(bs, cur, pos'). Inr (take ncap (drop npos (ns ! k)) @ bs, cur, pos')))"
  by pat_completeness auto
termination
  by (relation "measure (\<lambda>(k, npos, ncap, pos, sz, ns). length ns - k)")
    (auto simp: node_next_def split: if_splits)

definition ba_read :: "nat \<Rightarrow> ByteArray \<Rightarrow> ba_error + byte list \<times> ByteArray" where
  "ba_read sz ba =
     (if sz > getReadSize ba then Inl OutOfRange
      else if m_base_size ba = 0 then Inl DivByZero
      else let npos = m_position ba mod m_base_size ba in
      rbind (node_deref (m_nodes ba) (m_cur ba)) (\<lambda>k.
      rbind (read_loop k npos (szsub (length (m_nodes ba ! k)) npos) (m_position ba) sz
               (m_nodes ba)) (\<lambda>(bs, cur, pos).
      Inr (bs, ba\<lparr>m_cur := cur, m_position := pos\<rparr>))))"

text \<open>The walk from \<^verbatim>\<open>m_root\<close> over \<open>count\<close> blocks, and the reading at a given position, which
  leaves the cursor alone.\<close>

fun node_walk :: "Node list \<Rightarrow> nat \<Rightarrow> nat option \<Rightarrow> ba_error + nat option" where
  "node_walk ns 0 c = Inr c"
| "node_walk ns (Suc count) c =
     rbind (node_deref ns c) (\<lambda>k. node_walk ns count (node_next ns k))"

function read_at_loop :: "nat \<Rightarrow> nat \<Rightarrow> nat \<Rightarrow> nat \<Rightarrow> Node list \<Rightarrow> ba_error + byte list" where
  "read_at_loop k npos ncap sz ns =
     (if sz = 0 then Inr []
      else if ncap \<ge> sz then Inr (take sz (drop npos (ns ! k)))
      else
        case node_next ns k of
          None \<Rightarrow> Inl NullDeref
        | Some k' \<Rightarrow>
            rbind (read_at_loop k' 0 (length (ns ! k')) (sz - ncap) ns)
              (\<lambda>bs. Inr (take ncap (drop npos (ns ! k)) @ bs)))"
  by pat_completeness auto
termination
  by (relation "measure (\<lambda>(k, npos, ncap, sz, ns). length ns - k)")
    (auto simp: node_next_def split: if_splits)

definition read_at :: "nat \<Rightarrow> nat \<Rightarrow> ByteArray \<Rightarrow> ba_error + byte list" where
  "read_at sz position ba =
     (if sz > szsub (m_size ba) position then Inl OutOfRange
      else if m_base_size ba = 0 then Inl DivByZero
      else let npos = position mod m_base_size ba in
      rbind (node_walk (m_nodes ba) (position div m_base_size ba) (Some 0)) (\<lambda>cur.
      rbind (node_deref (m_nodes ba) cur) (\<lambda>k.
      read_at_loop k npos (szsub (length (m_nodes ba ! k)) npos) sz (m_nodes ba))))"

definition toString :: "ByteArray \<Rightarrow> ba_error + byte list" where
  "toString ba = read_at (getReadSize ba) (m_position ba) ba"

section \<open>Seeking\<close>

function seek_loop :: "Node list \<Rightarrow> nat \<Rightarrow> nat \<Rightarrow> ba_error + nat \<times> nat" where
  "seek_loop ns k pos =
     (if pos > length (ns ! k) then
        (case node_next ns k of
           None \<Rightarrow> Inl NullDeref
         | Some k' \<Rightarrow> seek_loop ns k' (szsub pos (length (ns ! k'))))
      else Inr (k, pos))"
  by pat_completeness auto
termination
  by (relation "measure (\<lambda>(ns, k, pos). length ns - k)")
    (auto simp: node_next_def split: if_splits)

definition setPosition :: "nat \<Rightarrow> ByteArray \<Rightarrow> ba_error + ByteArray" where
  "setPosition pos ba =
     (if pos > m_capacity ba then Inl OutOfRange
      else rbind (seek_loop (m_nodes ba) 0 pos) (\<lambda>(k, rest).
        Inr (ba\<lparr>m_position := pos,
                m_size := (if pos > m_size ba then pos else m_size ba),
                m_cur := (if rest = length (m_nodes ba ! k) then node_next (m_nodes ba) k
                          else Some k)\<rparr>)))"

section \<open>Scatter/gather views and files\<close>

text \<open>An \<^verbatim>\<open>iovec\<close> points into a block: the block, the offset in it, the length.\<close>

record iovec =
  iov_node :: nat
  iov_off :: nat
  iov_len :: nat

text \<open>The loop the three functions share.  As in the source, \<open>len\<close> is not reduced when the loop
  goes on to the next block.\<close>

function iov_loop :: "nat \<Rightarrow> nat \<Rightarrow> nat \<Rightarrow> nat \<Rightarrow> Node list \<Rightarrow> ba_error + iovec list" where
  "iov_loop k npos ncap len ns =
     (if len = 0 then Inr []
      else if ncap \<ge> len then Inr [\<lparr>iov_node = k, iov_off = npos, iov_len = len\<rparr>]
      else
        case node_next ns k of
          None \<Rightarrow> Inl NullDeref
        | Some k' \<Rightarrow>
            rbind (iov_loop k' 0 (length (ns ! k')) len ns)
              (\<lambda>iovs. Inr (\<lparr>iov_node = k, iov_off = npos, iov_len = ncap\<rparr> # iovs)))"
  by pat_completeness auto
termination
  by (relation "measure (\<lambda>(k, npos, ncap, len, ns). length ns - k)")
    (auto simp: node_next_def split: if_splits)

definition getReadBuffers ::
  "iovec list \<Rightarrow> nat \<Rightarrow> ByteArray \<Rightarrow> ba_error + nat \<times> iovec list" where
  "getReadBuffers buffers len ba =
     (let len = (if len > getReadSize ba then getReadSize ba else len) in
      if len = 0 then Inr (0, buffers)
      else if m_base_size ba = 0 then Inl DivByZero
      else let npos = m_position ba mod m_base_size ba in
      rbind (node_deref (m_nodes ba) (m_cur ba)) (\<lambda>k.
      rbind (iov_loop k npos (szsub (length (m_nodes ba ! k)) npos) len (m_nodes ba)) (\<lambda>iovs.
      Inr (len, iovs))))"

definition getReadBuffers_at ::
  "iovec list \<Rightarrow> nat \<Rightarrow> nat \<Rightarrow> ByteArray \<Rightarrow> ba_error + nat \<times> iovec list" where
  "getReadBuffers_at buffers len position ba =
     (let len = (if len > szsub (m_size ba) position then szsub (m_size ba) position else len) in
      if len = 0 then Inr (0, buffers)
      else if m_base_size ba = 0 then Inl DivByZero
      else let npos = position mod m_base_size ba in
      rbind (node_walk (m_nodes ba) (position div m_base_size ba) (Some 0)) (\<lambda>cur.
      rbind (node_deref (m_nodes ba) cur) (\<lambda>k.
      rbind (iov_loop k npos (szsub (length (m_nodes ba ! k)) npos) len (m_nodes ba)) (\<lambda>iovs.
      Inr (len, iovs)))))"

definition getWriteBuffers ::
  "iovec list \<Rightarrow> nat \<Rightarrow> ByteArray \<Rightarrow> ba_error + nat \<times> iovec list \<times> ByteArray" where
  "getWriteBuffers buffers len ba =
     (if len = 0 then Inr (0, buffers, ba)
      else let ba = addCapacity len ba in
      if m_base_size ba = 0 then Inl DivByZero
      else let npos = m_position ba mod m_base_size ba in
      rbind (node_deref (m_nodes ba) (m_cur ba)) (\<lambda>k.
      rbind (iov_loop k npos (szsub (length (m_nodes ba ! k)) npos) len (m_nodes ba)) (\<lambda>iovs.
      Inr (len, iovs, ba))))"

text \<open>Files: \<open>opened\<close> is whether opening succeeded; writing returns the bytes handed to the
  stream, reading takes the contents of the file.\<close>

function dump_loop :: "Node list \<Rightarrow> nat \<Rightarrow> nat option \<Rightarrow> nat \<Rightarrow> nat \<Rightarrow> ba_error + byte list" where
  "dump_loop ns base cur pos read_size =
     (if read_size = 0 then Inr []
      else rbind (node_deref ns cur) (\<lambda>k.
        let diff = pos mod base;
            len = (if base - diff \<ge> read_size then read_size else base - diff)
        in rbind (dump_loop ns base (node_next ns k) (pos + len) (read_size - len)) (\<lambda>bs.
           Inr (take len (drop diff (ns ! k)) @ bs))))"
  by pat_completeness auto
termination
  by (relation "measure (\<lambda>(ns, base, cur, pos, left).
        case cur of None \<Rightarrow> 0 | Some k \<Rightarrow> Suc (length ns - k))")
    (auto simp: node_next_def node_deref_def split: if_splits option.splits)

definition writeToFile :: "bool \<Rightarrow> ByteArray \<Rightarrow> ba_error + bool \<times> byte list" where
  "writeToFile opened ba =
     (if \<not> opened then Inr (False, [])
      else if getReadSize ba > 0 \<and> m_base_size ba = 0 then Inl DivByZero
      else rbind (dump_loop (m_nodes ba) (m_base_size ba) (m_cur ba) (m_position ba)
                   (getReadSize ba)) (\<lambda>bs. Inr (True, bs)))"

text \<open>\<^verbatim>\<open>ifs.read\<close> of a whole block sets \<^verbatim>\<open>eof\<close> only when the file has fewer bytes left; with
  blocks of size 0 it never does.\<close>

function load_loop :: "byte list \<Rightarrow> ByteArray \<Rightarrow> nat \<Rightarrow> ba_error + ByteArray" where
  "load_loop rest ba base =
     (if base = 0 then Inl Diverges
      else rbind (ba_write (take base rest) ba) (\<lambda>ba'.
        if length rest < base then Inr ba' else load_loop (drop base rest) ba' base))"
  by pat_completeness auto
termination
  by (relation "measure (\<lambda>(rest, ba, base). length rest)") auto

definition readFromFile :: "bool \<Rightarrow> byte list \<Rightarrow> ByteArray \<Rightarrow> ba_error + bool \<times> ByteArray" where
  "readFromFile opened file ba =
     (if \<not> opened then Inr (False, ba)
      else rbind (load_loop file ba (m_base_size ba)) (\<lambda>ba'. Inr (True, ba')))"

declare write_loop.simps [simp del] read_loop.simps [simp del] read_at_loop.simps [simp del]
  seek_loop.simps [simp del] iov_loop.simps [simp del] dump_loop.simps [simp del]
  load_loop.simps [simp del]

end
