(* ===== verification/Byte_Store.thy ===== *)
theory Byte_Store
  imports Byte_Array
begin

text \<open>
  The byte array implements a plain sequence of bytes with a cursor.  \<open>ba_wf\<close> is the invariant of
  the chain, \<open>cur_ok\<close> says that the block pointer agrees with the position, \<open>contents\<close> is the
  abstraction.  The interface the codecs rely on is the locale \<open>byte_cursor\<close>, interpreted here
  on the operations of the byte array.
\<close>

section \<open>Invariant and abstraction\<close>

definition ba_wf :: "ByteArray \<Rightarrow> bool" where
  "ba_wf ba \<longleftrightarrow> 0 < m_base_size ba \<and> m_nodes ba \<noteq> [] \<and>
     (\<forall>n \<in> set (m_nodes ba). length n = m_base_size ba) \<and>
     m_capacity ba = length (m_nodes ba) * m_base_size ba \<and>
     m_position ba \<le> m_size ba \<and> m_size ba \<le> m_capacity ba"

definition cur_at :: "nat \<Rightarrow> nat \<Rightarrow> nat \<Rightarrow> nat option" where
  "cur_at base n pos = (if pos < n * base then Some (pos div base) else None)"

definition cur_ok :: "ByteArray \<Rightarrow> bool" where
  "cur_ok ba \<longleftrightarrow> m_cur ba = cur_at (m_base_size ba) (length (m_nodes ba)) (m_position ba)"

definition memory :: "ByteArray \<Rightarrow> byte list" where
  "memory ba = concat (m_nodes ba)"

definition contents :: "ByteArray \<Rightarrow> byte list" where
  "contents ba = take (m_size ba) (memory ba)"

lemma ba_wfD:
  assumes "ba_wf ba"
  shows "0 < m_base_size ba" "m_nodes ba \<noteq> []"
    "\<forall>n \<in> set (m_nodes ba). length n = m_base_size ba"
    "m_capacity ba = length (m_nodes ba) * m_base_size ba"
    "m_position ba \<le> m_size ba" "m_size ba \<le> m_capacity ba"
  using assms by (simp_all add: ba_wf_def)

lemma length_memory: "ba_wf ba \<Longrightarrow> length (memory ba) = m_capacity ba"
  using ba_wfD(3,4) [of ba] length_concat_uniform [of "m_nodes ba" "m_base_size ba"]
  by (simp add: memory_def)

lemma length_contents: "ba_wf ba \<Longrightarrow> length (contents ba) = m_size ba"
  using ba_wfD(6) [of ba] by (simp add: contents_def length_memory)

lemma wf_getReadSize: "ba_wf ba \<Longrightarrow> getReadSize ba = m_size ba - m_position ba"
  using ba_wfD(5) [of ba] by (simp add: getReadSize_def)

lemma wf_getCapacity: "ba_wf ba \<Longrightarrow> getCapacity ba = m_capacity ba - m_position ba"
  using ba_wfD(5,6) [of ba] by (simp add: getCapacity_def)

lemma wf_ByteArray_new: "0 < b \<Longrightarrow> ba_wf (ByteArray_new fresh b)"
  by (simp add: ba_wf_def ByteArray_new_def Node_new_def)

lemma cur_ok_ByteArray_new: "0 < b \<Longrightarrow> cur_ok (ByteArray_new fresh b)"
  by (simp add: cur_ok_def cur_at_def ByteArray_new_def)

lemma ByteArray_new_sel [simp]:
  "m_position (ByteArray_new fresh b) = 0" "m_base_size (ByteArray_new fresh b) = b"
  "m_size (ByteArray_new fresh b) = 0" "contents (ByteArray_new fresh b) = []"
  "m_capacity (ByteArray_new fresh b) = b" "m_endian (ByteArray_new fresh b) = XZMJX_Big_Endian"
  by (simp_all add: ByteArray_new_def contents_def)

text \<open>Block and offset of a position.\<close>

lemma cur_at_mult_add:
  assumes "j < base" and "k < n"
  shows "cur_at base n (k * base + j) = Some k"
proof -
  have "k * base + j < Suc k * base" using assms(1) by simp
  also have "\<dots> \<le> n * base" using assms(2) by (intro mult_le_mono1) simp
  finally show ?thesis using assms(1) by (simp add: cur_at_def)
qed

lemma cur_at_next:
  assumes "0 < base" and "k < n"
  shows "cur_at base n (Suc k * base) = (if Suc k < n then Some (Suc k) else None)"
proof (cases "Suc k < n")
  case True
  then show ?thesis using cur_at_mult_add [of 0 base "Suc k" n] assms by simp
next
  case False
  then have "n = Suc k" using assms(2) by simp
  then show ?thesis by (simp add: cur_at_def)
qed

lemma block_bound:
  assumes "pos < n * (base :: nat)" shows "pos div base < n"
  using assms by (simp add: less_mult_imp_div_less)

lemma next_block_bound:
  assumes "k * base + npos + r \<le> n * (base :: nat)" and "base - npos < r" and "npos < base"
  shows "Suc k < n"
proof (rule ccontr)
  assume "\<not> Suc k < n"
  then have "n * base \<le> Suc k * base" by (intro mult_le_mono1) simp
  with assms show False by simp
qed

section \<open>Growing\<close>

lemma ceil_div_ge: "0 < b \<Longrightarrow> a \<le> ceil_div a b * b"
proof -
  assume "0 < b"
  then have "(a + b - 1) div b * b + (a + b - 1) mod b = a + b - 1" and "(a + b - 1) mod b < b"
    by (simp_all add: div_mult_mod_eq)
  then show ?thesis unfolding ceil_div_def by linarith
qed

lemma addCapacity_unchanged [simp]:
  "m_position (addCapacity n ba) = m_position ba" "m_size (addCapacity n ba) = m_size ba"
  "m_base_size (addCapacity n ba) = m_base_size ba" "m_endian (addCapacity n ba) = m_endian ba"
  by (simp_all add: addCapacity_def Let_def)

lemma addCapacity_nodes:
  "\<exists>added. m_nodes (addCapacity n ba) = m_nodes ba @ added \<and>
     (\<forall>x \<in> set added. length x = m_base_size ba) \<and>
     m_capacity (addCapacity n ba) = m_capacity ba + length added * m_base_size ba"
  by (auto simp: addCapacity_def Let_def Node_new_def intro: exI [of _ "[]"])

lemma wf_addCapacity:
  assumes "ba_wf ba" shows "ba_wf (addCapacity n ba)"
proof -
  obtain added where "m_nodes (addCapacity n ba) = m_nodes ba @ added"
    "\<forall>x \<in> set added. length x = m_base_size ba"
    "m_capacity (addCapacity n ba) = m_capacity ba + length added * m_base_size ba"
    using addCapacity_nodes by blast
  then show ?thesis using assms by (auto simp: ba_wf_def algebra_simps)
qed

lemma contents_addCapacity:
  assumes "ba_wf ba" shows "contents (addCapacity n ba) = contents ba"
proof -
  obtain added where "m_nodes (addCapacity n ba) = m_nodes ba @ added"
    using addCapacity_nodes by blast
  then show ?thesis
    using assms length_memory [OF assms] ba_wfD(6) [OF assms] by (simp add: contents_def memory_def)
qed

lemma addCapacity_room:
  assumes "ba_wf ba"
  shows "m_position ba + n \<le> m_capacity (addCapacity n ba)"
proof (cases "n \<le> getCapacity ba")
  case True
  then show ?thesis using assms ba_wfD(5,6) [OF assms]
    by (auto simp: addCapacity_def Let_def wf_getCapacity)
next
  case False
  then show ?thesis
    using ceil_div_ge [of "m_base_size ba" "n - getCapacity ba"] ba_wfD [OF assms]
    by (simp add: addCapacity_def Let_def wf_getCapacity [OF assms])
qed

lemma cur_ok_addCapacity:
  assumes "ba_wf ba" and "cur_ok ba" and "0 < n"
  shows "m_cur (addCapacity n ba) = Some (m_position ba div m_base_size ba)"
proof (cases "m_position ba < m_capacity ba")
  case True
  then show ?thesis using assms ba_wfD(4) [OF assms(1)]
    by (simp add: addCapacity_def Let_def cur_ok_def cur_at_def wf_getCapacity)
next
  case False
  then have pos: "m_position ba = length (m_nodes ba) * m_base_size ba"
    using ba_wfD(4,5,6) [OF assms(1)] by simp
  have "ceil_div n (m_base_size ba) \<noteq> 0"
    using ceil_div_ge [of "m_base_size ba" n] ba_wfD(1) [OF assms(1)] assms(3) by (intro notI) simp
  then show ?thesis using False assms pos ba_wfD(1,4) [OF assms(1)]
    by (simp add: addCapacity_def Let_def wf_getCapacity)
qed

section \<open>Writing\<close>

lemma write_loop_correct:
  assumes "\<forall>x \<in> set ns. length x = base" and "k < length ns" and "npos < base"
    and "ncap = base - npos" and "pos = k * base + npos"
    and "pos + length buf \<le> length ns * base" and "buf \<noteq> []"
  shows "\<exists>ns'. write_loop k npos ncap pos buf ns =
           Inr (ns', cur_at base (length ns) (pos + length buf), pos + length buf) \<and>
         concat ns' = overwrite (concat ns) pos buf \<and>
         (\<forall>x \<in> set ns'. length x = base) \<and> length ns' = length ns"
  using assms
proof (induction k npos ncap pos buf ns rule: write_loop.induct)
  case (1 k npos ncap pos buf ns)
  have lenk: "length (ns ! k) = base" using "1.prems"(1,2) by simp
  show ?case
  proof (cases "length buf \<le> ncap")
    case True
    let ?ns = "ns[k := overwrite (ns ! k) npos buf]"
    have fit: "npos + length buf \<le> base" using True "1.prems"(3,4) by simp
    have "(if base = npos + length buf then node_next ns k else Some k)
        = cur_at base (length ns) (pos + length buf)"
      using fit "1.prems"(2,3,5) cur_at_next [of base k "length ns"]
        cur_at_mult_add [of "npos + length buf" base k "length ns"]
      by (auto simp: node_next_def algebra_simps)
    moreover have "concat ?ns = overwrite (concat ns) pos buf"
      using concat_overwrite_block [OF "1.prems"(1,2) fit] "1.prems"(5) by simp
    moreover have "\<forall>x \<in> set ?ns. length x = base"
      by (rule uniform_update [OF "1.prems"(1)]) (use fit lenk in simp)
    ultimately show ?thesis
      using True "1.prems"(7) lenk by (subst write_loop.simps) auto
  next
    case False
    let ?ns = "ns[k := overwrite (ns ! k) npos (take ncap buf)]"
    have next_k: "Suc k < length ns"
      using next_block_bound [of k base npos "length buf" "length ns"] False "1.prems" by simp
    have fit: "npos + length (take ncap buf) \<le> base" using False "1.prems"(3,4) by simp
    have uni: "\<forall>x \<in> set ?ns. length x = base"
      by (rule uniform_update [OF "1.prems"(1)]) (use fit lenk in simp)
    have pos': "pos + ncap = Suc k * base + 0" using "1.prems"(3,4,5) by simp
    have IH: "\<exists>ns'. write_loop (Suc k) 0 base (pos + ncap) (drop ncap buf) ?ns =
           Inr (ns', cur_at base (length ?ns) (pos + ncap + length (drop ncap buf)),
                pos + ncap + length (drop ncap buf)) \<and>
         concat ns' = overwrite (concat ?ns) (pos + ncap) (drop ncap buf) \<and>
         (\<forall>x \<in> set ns'. length x = base) \<and> length ns' = length ?ns"
      using "1.IH" [of ?ns "Suc k"] next_k uni pos' False "1.prems"
      by (simp add: node_next_def)
    have "overwrite (concat ?ns) (pos + ncap) (drop ncap buf) = overwrite (concat ns) pos buf"
    proof -
      have "concat ?ns = overwrite (concat ns) pos (take ncap buf)"
        using concat_overwrite_block [OF "1.prems"(1,2) fit] "1.prems"(5) by simp
      moreover have "length (concat ns) = length ns * base"
        using length_concat_uniform [OF "1.prems"(1)] .
      ultimately show ?thesis
        using overwrite_overwrite_append [of pos "take ncap buf" "drop ncap buf" "concat ns"]
          False "1.prems"(6) by simp
    qed
    moreover have "length (ns ! Suc k) = base" using "1.prems"(1) next_k by simp
    ultimately show ?thesis
      using IH False "1.prems"(7) next_k
      by (subst write_loop.simps) (auto simp: node_next_def Let_def)
  qed
qed

theorem ba_write_refines:
  assumes "ba_wf ba" and "cur_ok ba"
  shows "\<exists>ba'. ba_write buf ba = Inr ba' \<and> ba_wf ba' \<and> cur_ok ba' \<and>
     contents ba' = overwrite (contents ba) (m_position ba) buf \<and>
     m_position ba' = m_position ba + length buf \<and> m_endian ba' = m_endian ba \<and>
     m_base_size ba' = m_base_size ba"
proof (cases "buf = []")
  case True
  then show ?thesis using assms by (simp add: ba_write_def)
next
  case False
  define ba1 where "ba1 = addCapacity (length buf) ba"
  let ?b = "m_base_size ba" and ?p = "m_position ba"
  have wf1: "ba_wf ba1" and room: "?p + length buf \<le> m_capacity ba1"
    and cont1: "contents ba1 = contents ba"
    using assms(1) by (auto simp: ba1_def wf_addCapacity addCapacity_room contents_addCapacity)
  have same: "m_base_size ba1 = ?b" "m_position ba1 = ?p" "m_size ba1 = m_size ba"
    "m_endian ba1 = m_endian ba" by (simp_all add: ba1_def)
  have cur1: "m_cur ba1 = Some (?p div ?b)"
    using assms False by (simp add: ba1_def cur_ok_addCapacity)
  have pos_in: "?p < length (m_nodes ba1) * ?b"
    using room False ba_wfD(4) [OF wf1] same by (cases buf) auto
  have b0: "0 < ?b" using ba_wfD(1) [OF assms(1)] .
  have uni: "\<forall>x \<in> set (m_nodes ba1). length x = ?b" using ba_wfD(3) [OF wf1] same by simp
  have k: "?p div ?b < length (m_nodes ba1)" using pos_in by (rule block_bound)
  obtain ns' where loop: "write_loop (?p div ?b) (?p mod ?b) (?b - ?p mod ?b) ?p buf (m_nodes ba1) =
       Inr (ns', cur_at ?b (length (m_nodes ba1)) (?p + length buf), ?p + length buf)"
    and mem: "concat ns' = overwrite (concat (m_nodes ba1)) ?p buf"
    and uni': "\<forall>x \<in> set ns'. length x = ?b" and len': "length ns' = length (m_nodes ba1)"
    using write_loop_correct [OF uni k, of "?p mod ?b" "?b - ?p mod ?b" ?p buf]
      b0 room False ba_wfD(4) [OF wf1] same by auto
  let ?ba' = "ba1\<lparr>m_nodes := ns', m_cur := cur_at ?b (length ns') (?p + length buf),
      m_position := ?p + length buf,
      m_size := (if ?p + length buf > m_size ba then ?p + length buf else m_size ba)\<rparr>"
  have "ba_write buf ba = Inr ?ba'"
    using False b0 cur1 loop uni k same len'
    by (simp add: ba_write_def Let_def ba1_def [symmetric] node_deref_def)
  moreover have "ba_wf ?ba'"
    using wf1 uni' len' room same by (auto simp: ba_wf_def)
  moreover have "cur_ok ?ba'" by (simp add: cur_ok_def same)
  moreover have "contents ?ba' = overwrite (contents ba) ?p buf"
  proof -
    have lenM: "length (memory ba1) = m_capacity ba1" using wf1 by (rule length_memory)
    have "contents ba = take (m_size ba) (memory ba1)" using cont1 same by (simp add: contents_def)
    then show ?thesis
      using room lenM mem ba_wfD(5,6) [OF wf1] same
        take_max_overwrite [of ?p "m_size ba" "concat (m_nodes ba1)" buf]
      by (auto simp: contents_def memory_def max_def split: if_splits)
  qed
  ultimately show ?thesis using same by auto
qed

section \<open>Reading\<close>

text \<open>The reads that leave the block pointer behind: they start inside a block and end with it.\<close>

definition stale :: "nat \<Rightarrow> nat \<Rightarrow> nat \<Rightarrow> bool" where
  "stale base pos n \<longleftrightarrow> pos mod base \<noteq> 0 \<and> pos mod base + n = base"

lemma take_add_concat_blocks:
  assumes "\<forall>x \<in> set ns. length x = base" and "k < length ns" and "npos \<le> base"
  shows "take (base - npos + r) (drop (k * base + npos) (concat ns)) =
     take (base - npos) (drop npos (ns ! k)) @ take r (drop (Suc k * base) (concat ns))"
proof -
  have "take (base - npos + r) (drop (k * base + npos) (concat ns)) =
      take (base - npos) (drop (k * base + npos) (concat ns)) @
      take r (drop (base - npos + (k * base + npos)) (concat ns))"
    by (simp add: take_add)
  then show ?thesis
    using take_drop_concat_block [OF assms(1,2), of npos "base - npos"] assms(3)
    by (simp add: add.commute)
qed

lemma read_loop_correct:
  assumes "\<forall>x \<in> set ns. length x = base" and "k < length ns" and "npos < base"
    and "ncap = base - npos" and "pos = k * base + npos"
    and "pos + sz \<le> length ns * base" and "0 < sz"
  shows "read_loop k npos ncap pos sz ns =
     Inr (take sz (drop pos (concat ns)),
          if npos \<noteq> 0 \<and> npos + sz = base then Some k else cur_at base (length ns) (pos + sz),
          pos + sz)"
  using assms
proof (induction k npos ncap pos sz ns rule: read_loop.induct)
  case (1 k npos ncap pos sz ns)
  have lenk: "length (ns ! k) = base" using "1.prems"(1,2) by simp
  show ?case
  proof (cases "sz \<le> ncap")
    case True
    then have fit: "npos + sz \<le> base" using "1.prems"(3,4) by simp
    have "(if base = sz then node_next ns k else Some k) =
        (if npos \<noteq> 0 \<and> npos + sz = base then Some k else cur_at base (length ns) (pos + sz))"
      using fit "1.prems"(2,3,5,7) cur_at_next [of base k "length ns"]
        cur_at_mult_add [of "npos + sz" base k "length ns"]
      by (auto simp: node_next_def algebra_simps)
    then show ?thesis
      using True fit lenk "1.prems"(5,7) take_drop_concat_block [OF "1.prems"(1,2) fit]
      by (subst read_loop.simps) simp
  next
    case False
    have next_k: "Suc k < length ns"
      using next_block_bound [of k base npos sz "length ns"] False "1.prems" by simp
    have pos': "pos + ncap = Suc k * base" using "1.prems"(3,4,5) by simp
    have "read_loop (Suc k) 0 (length (ns ! Suc k)) (pos + ncap) (sz - ncap) ns =
        Inr (take (sz - ncap) (drop (Suc k * base) (concat ns)),
             cur_at base (length ns) (pos + sz), pos + sz)"
      using "1.IH" [of "Suc k"] False next_k pos' "1.prems"
      by (simp add: node_next_def ac_simps)
    moreover have "take sz (drop pos (concat ns)) =
        take ncap (drop npos (ns ! k)) @ take (sz - ncap) (drop (Suc k * base) (concat ns))"
      using take_add_concat_blocks [OF "1.prems"(1,2), of npos "sz - ncap"] False "1.prems" by simp
    ultimately show ?thesis
      using False next_k "1.prems"(3,4,7) by (subst read_loop.simps) (auto simp: node_next_def)
  qed
qed

lemma take_drop_contents:
  "p + n \<le> m_size ba \<Longrightarrow> take n (drop p (memory ba)) = take n (drop p (contents ba))"
  by (simp add: contents_def drop_take min_def)

theorem ba_read_total:
  assumes "ba_wf ba" and "cur_ok ba"
  shows "ba_read n ba =
     (if n > m_size ba - m_position ba then Inl OutOfRange
      else if m_position ba = m_capacity ba then Inl NullDeref
      else Inr (take n (drop (m_position ba) (contents ba)),
                ba\<lparr>m_cur := (if stale (m_base_size ba) (m_position ba) n
                              then Some (m_position ba div m_base_size ba)
                              else cur_at (m_base_size ba) (length (m_nodes ba)) (m_position ba + n)),
                   m_position := m_position ba + n\<rparr>))"
proof -
  let ?b = "m_base_size ba" and ?p = "m_position ba"
  consider (short) "n > m_size ba - ?p" | (atend) "n \<le> m_size ba - ?p" "?p = m_capacity ba"
    | (fine) "n \<le> m_size ba - ?p" "?p < m_capacity ba"
    using ba_wfD(5,6) [OF assms(1)] by linarith
  then show ?thesis
  proof cases
    case short
    then show ?thesis using assms(1) by (simp add: ba_read_def wf_getReadSize)
  next
    case atend
    then show ?thesis using assms ba_wfD(1,4) [OF assms(1)]
      by (simp add: ba_read_def wf_getReadSize cur_ok_def cur_at_def node_deref_def)
  next
    case fine
    have b0: "0 < ?b" using ba_wfD(1) [OF assms(1)] .
    have cur: "m_cur ba = Some (?p div ?b)" using fine assms ba_wfD(4) [OF assms(1)]
      by (simp add: cur_ok_def cur_at_def)
    have k: "?p div ?b < length (m_nodes ba)"
      using fine ba_wfD(4) [OF assms(1)] by (intro block_bound) simp
    have lenk: "length (m_nodes ba ! (?p div ?b)) = ?b" using k ba_wfD(3) [OF assms(1)] by simp
    have "read_loop (?p div ?b) (?p mod ?b) (?b - ?p mod ?b) ?p n (m_nodes ba) =
        Inr (take n (drop ?p (memory ba)),
             if stale ?b ?p n then Some (?p div ?b)
             else cur_at ?b (length (m_nodes ba)) (?p + n), ?p + n)"
    proof (cases "n = 0")
      case True
      then show ?thesis using cur assms(2) b0
        by (subst read_loop.simps) (auto simp: stale_def cur_ok_def)
    next
      case False
      then show ?thesis
        using read_loop_correct [OF ba_wfD(3) [OF assms(1)] k, of "?p mod ?b" "?b - ?p mod ?b" ?p n]
          fine b0 ba_wfD(4,5,6) [OF assms(1)] by (simp add: stale_def memory_def)
    qed
    moreover have "take n (drop ?p (memory ba)) = take n (drop ?p (contents ba))"
      using fine ba_wfD(5) [OF assms(1)] by (intro take_drop_contents) linarith
    ultimately show ?thesis
      using fine assms(1) b0 cur lenk
      by (simp add: ba_read_def Let_def wf_getReadSize node_deref_def)
  qed
qed

lemma stale_not_cur:
  assumes "ba_wf ba" and "stale (m_base_size ba) (m_position ba) n"
    and "m_position ba < m_capacity ba"
  shows "cur_at (m_base_size ba) (length (m_nodes ba)) (m_position ba + n) \<noteq>
     Some (m_position ba div m_base_size ba)"
proof -
  let ?b = "m_base_size ba" and ?p = "m_position ba"
  have "?p = ?p div ?b * ?b + ?p mod ?b" by (simp add: div_mult_mod_eq)
  moreover have "?p mod ?b + n = ?b" using assms(2) by (simp add: stale_def)
  ultimately have "?p + n = Suc (?p div ?b) * ?b" unfolding mult_Suc by linarith
  moreover have "?p div ?b < length (m_nodes ba)"
    using assms(3) ba_wfD(4) [OF assms(1)] by (intro block_bound) simp
  ultimately show ?thesis
    using cur_at_next [of ?b "?p div ?b" "length (m_nodes ba)"] ba_wfD(1) [OF assms(1)] by simp
qed

section \<open>Seeking\<close>

lemma seek_loop_correct:
  assumes "\<forall>x \<in> set ns. length x = base" and "k < length ns" and "0 < base"
    and "k * base + pos \<le> length ns * base"
  shows "\<exists>k' r. seek_loop ns k pos = Inr (k', r) \<and> k' < length ns \<and> r \<le> base \<and>
     k' * base + r = k * base + pos"
  using assms
proof (induction ns k pos rule: seek_loop.induct)
  case (1 ns k pos)
  have lenk: "length (ns ! k) = base" using "1.prems" by simp
  show ?case
  proof (cases "pos \<le> base")
    case True
    then show ?thesis using lenk "1.prems" by (subst seek_loop.simps) simp
  next
    case False
    have next_k: "Suc k < length ns"
      using next_block_bound [of k base 0 pos "length ns"] False "1.prems" by simp
    then have "length (ns ! Suc k) = base" using "1.prems"(1) by simp
    moreover have "\<exists>k' r. seek_loop ns (Suc k) (pos - base) = Inr (k', r) \<and> k' < length ns \<and>
        r \<le> base \<and> k' * base + r = Suc k * base + (pos - base)"
      using "1.IH" [of "Suc k"] "1.prems" next_k lenk False calculation
      by (simp add: node_next_def)
    ultimately show ?thesis
      using False lenk next_k by (subst seek_loop.simps) (auto simp: node_next_def)
  qed
qed

theorem setPosition_total:
  assumes "ba_wf ba"
  shows "setPosition pos ba =
     (if pos > m_capacity ba then Inl OutOfRange
      else Inr (ba\<lparr>m_position := pos, m_size := max (m_size ba) pos,
                   m_cur := cur_at (m_base_size ba) (length (m_nodes ba)) pos\<rparr>))"
proof (cases "pos > m_capacity ba")
  case True
  then show ?thesis by (simp add: setPosition_def)
next
  case False
  let ?b = "m_base_size ba"
  note wf = ba_wfD [OF assms]
  obtain k r where kr: "seek_loop (m_nodes ba) 0 pos = Inr (k, r)" "k < length (m_nodes ba)"
    "r \<le> ?b" "k * ?b + r = pos"
    using seek_loop_correct [OF wf(3), of 0 pos] wf(1,2,4) False by auto
  have "(if r = ?b then node_next (m_nodes ba) k else Some k) =
      cur_at ?b (length (m_nodes ba)) pos"
    using kr cur_at_next [of ?b k "length (m_nodes ba)"] wf(1)
      cur_at_mult_add [of r ?b k "length (m_nodes ba)"]
    by (auto simp: node_next_def algebra_simps)
  then show ?thesis using kr False wf(3) by (simp add: setPosition_def max_def)
qed

lemma ba_wf_setPosition:
  "ba_wf ba \<Longrightarrow> setPosition pos ba = Inr ba' \<Longrightarrow>
   ba_wf ba' \<and> cur_ok ba' \<and> m_position ba' = pos \<and> m_nodes ba' = m_nodes ba \<and>
   m_size ba' = max (m_size ba) pos \<and> m_base_size ba' = m_base_size ba \<and> m_endian ba' = m_endian ba"
  by (auto simp: setPosition_total ba_wf_def cur_ok_def split: if_splits)

section \<open>Reading at a position\<close>

lemma node_walk_Some:
  "k + c < length ns \<Longrightarrow> node_walk ns c (Some k) = Inr (Some (k + c))"
  by (induction c arbitrary: k) (auto simp: node_deref_def node_next_def)

lemma node_walk_end:
  assumes "k < length ns" and "k + c = length ns"
  shows "node_walk ns c (Some k) = Inr None"
  using assms
proof (induction c arbitrary: k)
  case (Suc c)
  then show ?case by (cases c) (auto simp: node_deref_def node_next_def)
qed simp

lemma node_walk_cur_at:
  assumes "ba_wf ba" and "pos \<le> m_capacity ba"
  shows "node_walk (m_nodes ba) (pos div m_base_size ba) (Some 0) =
     Inr (cur_at (m_base_size ba) (length (m_nodes ba)) pos)"
proof (cases "pos < m_capacity ba")
  case True
  then show ?thesis
    using block_bound [of pos "length (m_nodes ba)" "m_base_size ba"] ba_wfD(4) [OF assms(1)]
    by (simp add: node_walk_Some cur_at_def)
next
  case False
  then have "pos = length (m_nodes ba) * m_base_size ba" using assms ba_wfD(4) by fastforce
  then show ?thesis using ba_wfD(1,2) [OF assms(1)] by (simp add: node_walk_end cur_at_def)
qed

lemma read_at_loop_correct:
  assumes "\<forall>x \<in> set ns. length x = base" and "k < length ns" and "npos < base"
    and "ncap = base - npos" and "k * base + npos + sz \<le> length ns * base"
  shows "read_at_loop k npos ncap sz ns = Inr (take sz (drop (k * base + npos) (concat ns)))"
  using assms
proof (induction k npos ncap sz ns rule: read_at_loop.induct)
  case (1 k npos ncap sz ns)
  show ?case
  proof (cases "sz \<le> ncap")
    case True
    then have fit: "npos + sz \<le> base" using "1.prems"(3,4) by simp
    then show ?thesis
      using True take_drop_concat_block [OF "1.prems"(1,2) fit] by (subst read_at_loop.simps) simp
  next
    case False
    have next_k: "Suc k < length ns"
      using next_block_bound [of k base npos sz "length ns"] False "1.prems" by simp
    have "read_at_loop (Suc k) 0 (length (ns ! Suc k)) (sz - ncap) ns =
        Inr (take (sz - ncap) (drop (Suc k * base) (concat ns)))"
      using "1.IH" [of "Suc k"] False next_k "1.prems" by (simp add: node_next_def ac_simps)
    moreover have "take sz (drop (k * base + npos) (concat ns)) =
        take ncap (drop npos (ns ! k)) @ take (sz - ncap) (drop (Suc k * base) (concat ns))"
      using take_add_concat_blocks [OF "1.prems"(1,2), of npos "sz - ncap"] False "1.prems" by simp
    ultimately show ?thesis
      using False next_k "1.prems"(3,4) by (subst read_at_loop.simps) (auto simp: node_next_def)
  qed
qed

theorem read_at_total:
  assumes "ba_wf ba" and "pos \<le> m_size ba"
  shows "read_at n pos ba =
     (if n > m_size ba - pos then Inl OutOfRange
      else if pos = m_capacity ba then Inl NullDeref
      else Inr (take n (drop pos (contents ba))))"
proof -
  note wf = ba_wfD [OF assms(1)]
  let ?b = "m_base_size ba"
  have walk: "node_walk (m_nodes ba) (pos div ?b) (Some 0) =
      Inr (cur_at ?b (length (m_nodes ba)) pos)"
    using assms wf(6) by (intro node_walk_cur_at) auto
  show ?thesis
  proof (cases "n \<le> m_size ba - pos \<and> pos < m_capacity ba")
    case True
    then have k: "pos div ?b < length (m_nodes ba)" using wf(4) by (intro block_bound) simp
    have "pos + n \<le> length (m_nodes ba) * ?b" using True wf(4,6) assms(2) by linarith
    then have "read_at_loop (pos div ?b) (pos mod ?b) (?b - pos mod ?b) n (m_nodes ba) =
        Inr (take n (drop pos (memory ba)))"
      using read_at_loop_correct [OF wf(3) k, of "pos mod ?b" "?b - pos mod ?b" n]
        True wf(1,4,6) assms(2) by (simp add: memory_def)
    moreover have "take n (drop pos (memory ba)) = take n (drop pos (contents ba))"
      using True assms(2) by (intro take_drop_contents) linarith
    ultimately show ?thesis
      using True wf(1,3,4) k assms(2) walk
      by (simp add: read_at_def Let_def node_deref_def cur_at_def)
  next
    case False
    then show ?thesis using walk wf(1,4,6) assms(2)
      by (auto simp: read_at_def Let_def node_deref_def cur_at_def)
  qed
qed

theorem toString_total:
  assumes "ba_wf ba"
  shows "toString ba =
     (if m_position ba = m_capacity ba then Inl NullDeref
      else Inr (drop (m_position ba) (contents ba)))"
  using read_at_total [OF assms ba_wfD(5) [OF assms]] length_contents [OF assms]
  by (simp add: toString_def wf_getReadSize [OF assms])

section \<open>Scatter/gather views\<close>

definition gather :: "Node list \<Rightarrow> iovec list \<Rightarrow> byte list" where
  "gather ns iovs = concat (map (\<lambda>v. take (iov_len v) (drop (iov_off v) (ns ! iov_node v))) iovs)"

lemma iov_loop_overlong:
  assumes "\<forall>x \<in> set ns. length x = base" and "k < length ns" and "ncap < len" and "base < len"
  shows "iov_loop k npos ncap len ns = Inl NullDeref"
  using assms
proof (induction k npos ncap len ns rule: iov_loop.induct)
  case (1 k npos ncap len ns)
  then show ?case
    by (subst iov_loop.simps) (auto simp: node_next_def)
qed

lemma iov_loop_cases:
  assumes "\<forall>x \<in> set ns. length x = base" and "k < length ns" and "npos < base" and "0 < len"
    and "k * base + npos + len \<le> length ns * base"
  shows "iov_loop k npos (base - npos) len ns =
     (if len \<le> base - npos then Inr [\<lparr>iov_node = k, iov_off = npos, iov_len = len\<rparr>]
      else if len \<le> base then
        Inr [\<lparr>iov_node = k, iov_off = npos, iov_len = base - npos\<rparr>,
             \<lparr>iov_node = Suc k, iov_off = 0, iov_len = len\<rparr>]
      else Inl NullDeref)"
proof (cases "len \<le> base - npos")
  case True
  then show ?thesis using assms by (subst iov_loop.simps) simp
next
  case False
  then have next_k: "Suc k < length ns"
    using next_block_bound [of k base npos len "length ns"] assms by simp
  show ?thesis
  proof (cases "len \<le> base")
    case True
    have "iov_loop (Suc k) 0 base len ns = Inr [\<lparr>iov_node = Suc k, iov_off = 0, iov_len = len\<rparr>]"
      using True assms(4) by (subst iov_loop.simps) simp
    moreover have "length (ns ! Suc k) = base" using assms(1) next_k by simp
    ultimately show ?thesis
      using False True assms(4) next_k by (subst iov_loop.simps) (simp add: node_next_def)
  next
    case False
    then show ?thesis using assms iov_loop_overlong [OF assms(1,2), of "base - npos" len npos] by simp
  qed
qed

theorem getReadBuffers_total:
  assumes "ba_wf ba" and "cur_ok ba" and "0 < len" and "len \<le> m_size ba - m_position ba"
  shows "getReadBuffers buffers len ba =
    (let b = m_base_size ba; k = m_position ba div b; npos = m_position ba mod b in
     if len \<le> b - npos then Inr (len, [\<lparr>iov_node = k, iov_off = npos, iov_len = len\<rparr>])
     else if len \<le> b then
       Inr (len, [\<lparr>iov_node = k, iov_off = npos, iov_len = b - npos\<rparr>,
                  \<lparr>iov_node = Suc k, iov_off = 0, iov_len = len\<rparr>])
     else Inl NullDeref)"
proof -
  note wf = ba_wfD [OF assms(1)]
  let ?b = "m_base_size ba" and ?p = "m_position ba"
  have "?p < length (m_nodes ba) * ?b" using assms(3,4) wf(4,5,6) by linarith
  then have cur: "m_cur ba = Some (?p div ?b)" and k: "?p div ?b < length (m_nodes ba)"
    using assms(2) block_bound by (auto simp: cur_ok_def cur_at_def)
  have "length (m_nodes ba ! (?p div ?b)) = ?b" using k wf(3) by simp
  then show ?thesis
    using iov_loop_cases [OF wf(3) k, of "?p mod ?b" len] assms wf cur
    by (simp add: getReadBuffers_def wf_getReadSize Let_def node_deref_def)
qed

section \<open>Files\<close>

lemma dump_loop_correct:
  assumes "\<forall>x \<in> set ns. length x = base" and "0 < base"
    and "pos + n \<le> length ns * base" and "cur = cur_at base (length ns) pos"
  shows "dump_loop ns base cur pos n = Inr (take n (drop pos (concat ns)))"
  using assms
proof (induction ns base cur pos n rule: dump_loop.induct)
  case (1 ns base cur pos n)
  show ?case
  proof (cases "n = 0")
    case True
    then show ?thesis by (subst dump_loop.simps) simp
  next
    case False
    then have "pos < length ns * base" using "1.prems"(3) by simp
    then have k: "pos div base < length ns" and cur: "cur = Some (pos div base)"
      using "1.prems"(4) by (auto simp: cur_at_def block_bound)
    let ?npos = "pos mod base" and ?k = "pos div base"
    define len where "len = (if base - ?npos \<ge> n then n else base - ?npos)"
    have npos: "?npos < base" using "1.prems"(2) by simp
    have pos: "pos = ?k * base + ?npos" by simp
    have "?npos + len \<le> base" using npos by (auto simp: len_def)
    then have part: "take len (drop ?npos (ns ! ?k)) = take len (drop pos (concat ns))"
      using take_drop_concat_block [OF "1.prems"(1) k, of ?npos len] by simp
    have rest: "dump_loop ns base (node_next ns ?k) (pos + len) (n - len) =
        Inr (take (n - len) (drop (pos + len) (concat ns)))"
    proof (cases "n \<le> base - ?npos")
      case True
      then show ?thesis by (simp add: len_def dump_loop.simps)
    next
      case False
      have "pos + (base - ?npos) = Suc ?k * base" unfolding mult_Suc using pos npos by linarith
      then have "node_next ns ?k = cur_at base (length ns) (pos + len)"
        using cur_at_next [of base ?k "length ns"] k "1.prems"(2) False
        by (simp add: len_def node_next_def)
      moreover have "pos + len + (n - len) \<le> length ns * base"
        using "1.prems"(3) by (simp add: len_def)
      moreover have "node_deref ns cur = Inr ?k" by (simp add: node_deref_def cur)
      ultimately show ?thesis
        using "1.IH" [of ?k ?npos len] "1.prems"(1,2) \<open>n \<noteq> 0\<close> len_def by blast
    qed
    have "take n (drop pos (concat ns)) =
        take len (drop pos (concat ns)) @ take (n - len) (drop (pos + len) (concat ns))"
      using take_add [of len "n - len" "drop pos (concat ns)"] by (simp add: len_def add.commute)
    then show ?thesis
      using False cur part rest
      by (subst dump_loop.simps) (simp add: node_deref_def len_def Let_def)
  qed
qed

theorem writeToFile_total:
  assumes "ba_wf ba" and "cur_ok ba"
  shows "writeToFile True ba = Inr (True, drop (m_position ba) (contents ba))"
proof -
  note wf = ba_wfD [OF assms(1)]
  have "dump_loop (m_nodes ba) (m_base_size ba) (m_cur ba) (m_position ba)
      (m_size ba - m_position ba) = Inr (take (m_size ba - m_position ba) (drop (m_position ba) (memory ba)))"
    using dump_loop_correct [OF wf(3,1), of "m_position ba" "m_size ba - m_position ba"]
      assms(2) wf(4,5,6) by (simp add: cur_ok_def memory_def)
  moreover have "take (m_size ba - m_position ba) (drop (m_position ba) (memory ba)) =
      drop (m_position ba) (contents ba)"
    by (simp add: contents_def drop_take)
  ultimately show ?thesis using wf(1) by (simp add: writeToFile_def wf_getReadSize [OF assms(1)])
qed

lemma load_loop_correct:
  assumes "ba_wf ba" and "cur_ok ba" and "m_base_size ba = base"
  shows "\<exists>ba'. load_loop bs ba base = Inr ba' \<and> ba_wf ba' \<and> cur_ok ba' \<and>
     contents ba' = overwrite (contents ba) (m_position ba) bs \<and>
     m_position ba' = m_position ba + length bs"
  using assms
proof (induction bs ba base rule: load_loop.induct)
  case (1 rest ba base)
  have b0: "base \<noteq> 0" using ba_wfD(1) "1.prems" by blast
  obtain ba1 where w: "ba_write (take base rest) ba = Inr ba1" "ba_wf ba1" "cur_ok ba1"
    "contents ba1 = overwrite (contents ba) (m_position ba) (take base rest)"
    "m_position ba1 = m_position ba + length (take base rest)" "m_base_size ba1 = base"
    using ba_write_refines [OF "1.prems"(1,2), of "take base rest"] "1.prems"(3) by auto
  show ?case
  proof (cases "length rest < base")
    case True
    then show ?thesis using w b0 by (subst load_loop.simps) simp
  next
    case False
    obtain ba2 where l: "load_loop (drop base rest) ba1 base = Inr ba2" "ba_wf ba2" "cur_ok ba2"
      "contents ba2 = overwrite (contents ba1) (m_position ba1) (drop base rest)"
      "m_position ba2 = m_position ba1 + length (drop base rest)"
      using "1.IH" [OF b0 w(1) False w(2,3,6)] by blast
    have "contents ba2 = overwrite (contents ba) (m_position ba) rest"
      using l(4) w(4,5) overwrite_grow [of "m_position ba" "contents ba" "take base rest" "drop base rest"]
        length_contents [OF "1.prems"(1)] ba_wfD(5) [OF "1.prems"(1)] by simp
    then show ?thesis using w l b0 False by (subst load_loop.simps) simp
  qed
qed

section \<open>The interface of the codecs\<close>

text \<open>What the codecs rely on: a byte sequence \<open>data\<close> with a cursor \<open>pos\<close>.  \<open>ok\<close> is the
  provider's invariant; a read always delivers the right bytes, but only a \<open>clean\<close> one keeps the
  invariant.  \<open>env\<close> is a part of
  the state that no operation changes.\<close>

locale byte_cursor =
  fixes wr :: "byte list \<Rightarrow> 's \<Rightarrow> 'e + 's"
    and rd :: "nat \<Rightarrow> 's \<Rightarrow> 'e + byte list \<times> 's"
    and seek :: "nat \<Rightarrow> 's \<Rightarrow> 'e + 's"
    and ok :: "'s \<Rightarrow> bool"
    and data :: "'s \<Rightarrow> byte list"
    and pos :: "'s \<Rightarrow> nat"
    and clean :: "'s \<Rightarrow> nat \<Rightarrow> nat \<Rightarrow> bool"
    and env :: "'s \<Rightarrow> 'v"
  assumes wr_law: "ok s \<Longrightarrow> \<exists>s'. wr bs s = Inr s' \<and> ok s' \<and> env s' = env s \<and> clean s' = clean s \<and>
        data s' = overwrite (data s) (pos s) bs \<and> pos s' = pos s + length bs"
    and rd_law: "ok s \<Longrightarrow> 0 < n \<Longrightarrow> pos s + n \<le> length (data s) \<Longrightarrow>
        \<exists>s'. rd n s = Inr (take n (drop (pos s) (data s)), s') \<and> env s' = env s \<and>
          clean s' = clean s \<and> data s' = data s \<and> pos s' = pos s + n \<and>
          (clean s (pos s) n \<longrightarrow> ok s')"
    and seek_law: "ok s \<Longrightarrow> p \<le> length (data s) \<Longrightarrow>
        \<exists>s'. seek p s = Inr s' \<and> ok s' \<and> env s' = env s \<and> clean s' = clean s \<and>
          data s' = data s \<and> pos s' = p"
    and pos_le: "ok s \<Longrightarrow> pos s \<le> length (data s)"
begin

text \<open>What is written can be read back.\<close>

lemma put_seek:
  assumes "ok s"
  shows "\<exists>s1 s2. wr bs s = Inr s1 \<and> seek (pos s) s1 = Inr s2 \<and> ok s1 \<and> ok s2 \<and>
     env s1 = env s \<and> env s2 = env s \<and> clean s2 = clean s \<and> pos s2 = pos s \<and>
     pos s1 = pos s + length bs \<and> data s2 = data s1 \<and> data s1 = overwrite (data s) (pos s) bs"
proof -
  obtain s1 where s1: "wr bs s = Inr s1" "ok s1" "env s1 = env s" "clean s1 = clean s"
    "data s1 = overwrite (data s) (pos s) bs" "pos s1 = pos s + length bs"
    using wr_law [OF assms] by blast
  have "pos s \<le> length (data s1)" using pos_le [OF s1(2)] s1(6) by simp
  then obtain s2 where "seek (pos s) s1 = Inr s2" "ok s2" "env s2 = env s1" "clean s2 = clean s1"
    "data s2 = data s1" "pos s2 = pos s"
    using seek_law [OF s1(2)] by blast
  with s1 show ?thesis by metis
qed

lemma rd_prefix:
  assumes "ok s" and "bs \<noteq> []" and "drop (pos s) (data s) = bs @ rest"
  shows "\<exists>s'. rd (length bs) s = Inr (bs, s') \<and> env s' = env s \<and> clean s' = clean s \<and>
     data s' = data s \<and> pos s' = pos s + length bs \<and> drop (pos s') (data s') = rest \<and>
     (clean s (pos s) (length bs) \<longrightarrow> ok s')"
proof -
  have len: "pos s + length bs \<le> length (data s)"
    using assms(3) pos_le [OF assms(1)] by (metis add_le_cancel_left add_leE drop_eq_Nil2
        le_add_diff_inverse length_append length_drop nat_le_iff_add)
  obtain s' where s': "rd (length bs) s = Inr (take (length bs) (drop (pos s) (data s)), s')"
    "env s' = env s" "clean s' = clean s" "data s' = data s" "pos s' = pos s + length bs"
    "clean s (pos s) (length bs) \<longrightarrow> ok s'"
    using rd_law [OF assms(1) _ len] assms(2) by auto
  have "drop (pos s') (data s') = drop (length bs) (drop (pos s) (data s))"
    using s'(4,5) by (simp add: add.commute)
  then show ?thesis using s' assms(3) by simp
qed

lemma put_get:
  assumes "ok s" and "bs \<noteq> []"
  shows "\<exists>s1 s2 s3. wr bs s = Inr s1 \<and> seek (pos s) s1 = Inr s2 \<and> env s1 = env s \<and> env s2 = env s \<and>
     rd (length bs) s2 = Inr (bs, s3) \<and> pos s3 = pos s1 \<and> data s3 = data s1"
proof -
  obtain s1 s2 where s12: "wr bs s = Inr s1" "seek (pos s) s1 = Inr s2" "ok s2" "env s1 = env s"
    "env s2 = env s" "pos s2 = pos s" "pos s1 = pos s + length bs" "data s2 = data s1"
    "data s1 = overwrite (data s) (pos s) bs"
    using put_seek [OF assms(1)] by blast
  have "drop (pos s2) (data s2) = bs @ drop (pos s + length bs) (data s)"
    using s12(6,8,9) pos_le [OF assms(1)] by (simp add: overwrite_def)
  then obtain s3 where "rd (length bs) s2 = Inr (bs, s3)" "data s3 = data s2"
    "pos s3 = pos s2 + length bs"
    using rd_prefix [OF s12(3) assms(2)] by blast
  with s12 show ?thesis by metis
qed

text \<open>A header and a payload, written one after the other and read back in two reads.\<close>

lemma put_put_get_get:
  assumes "ok s" and "h \<noteq> []" and "bs \<noteq> []" and "clean s (pos s) (length h)"
  shows "\<exists>s1 s2 s3 s4 s5. wr h s = Inr s1 \<and> wr bs s1 = Inr s2 \<and> seek (pos s) s2 = Inr s3 \<and>
     rd (length h) s3 = Inr (h, s4) \<and> rd (length bs) s4 = Inr (bs, s5) \<and>
     env s1 = env s \<and> env s3 = env s \<and> env s4 = env s \<and> pos s5 = pos s2 \<and> data s5 = data s2"
proof -
  obtain s1 where s1: "wr h s = Inr s1" "ok s1" "env s1 = env s" "clean s1 = clean s"
    "data s1 = overwrite (data s) (pos s) h" "pos s1 = pos s + length h"
    using wr_law [OF assms(1)] by blast
  obtain s2 where s2: "wr bs s1 = Inr s2" "ok s2" "env s2 = env s1" "clean s2 = clean s1"
    "data s2 = overwrite (data s1) (pos s1) bs" "pos s2 = pos s1 + length bs"
    using wr_law [OF s1(2)] by blast
  have all: "data s2 = overwrite (data s) (pos s) (h @ bs)"
    using s1(5,6) s2(5) overwrite_grow [OF pos_le [OF assms(1)]] by simp
  have "pos s \<le> length (data s2)" using pos_le [OF s2(2)] s1(6) s2(6) by simp
  then obtain s3 where s3: "seek (pos s) s2 = Inr s3" "ok s3" "env s3 = env s2" "clean s3 = clean s2"
    "data s3 = data s2" "pos s3 = pos s"
    using seek_law [OF s2(2)] by blast
  have d3: "drop (pos s3) (data s3) = h @ bs @ drop (pos s + length (h @ bs)) (data s)"
    using s3(5,6) all pos_le [OF assms(1)] by (simp add: overwrite_def)
  obtain s4 where s4: "rd (length h) s3 = Inr (h, s4)" "env s4 = env s3" "data s4 = data s3"
    "drop (pos s4) (data s4) = bs @ drop (pos s + length (h @ bs)) (data s)"
    "pos s4 = pos s3 + length h" "ok s4"
    using rd_prefix [OF s3(2) assms(2) d3] assms(4) s1(4) s2(4) s3(4,6) by metis
  obtain s5 where "rd (length bs) s4 = Inr (bs, s5)" "data s5 = data s4"
    "pos s5 = pos s4 + length bs"
    using rd_prefix [OF s4(6) assms(3) s4(4)] by blast
  then show ?thesis using s1 s2 s3 s4 by (metis add.assoc)
qed

end

text \<open>The byte array is such a cursor; its read is clean unless it is stale.\<close>

definition ba_ok :: "ByteArray \<Rightarrow> bool" where
  "ba_ok ba \<longleftrightarrow> ba_wf ba \<and> cur_ok ba"

definition ba_clean :: "ByteArray \<Rightarrow> nat \<Rightarrow> nat \<Rightarrow> bool" where
  "ba_clean ba p n \<longleftrightarrow> \<not> stale (m_base_size ba) p n"

lemma ba_read_clean:
  assumes "ba_ok ba" and "0 < n" and "m_position ba + n \<le> length (contents ba)"
  shows "\<exists>ba'. ba_read n ba = Inr (take n (drop (m_position ba) (contents ba)), ba') \<and>
     m_endian ba' = m_endian ba \<and> ba_clean ba' = ba_clean ba \<and> contents ba' = contents ba \<and>
     m_position ba' = m_position ba + n \<and> (ba_clean ba (m_position ba) n \<longrightarrow> ba_ok ba')"
proof -
  have wf: "ba_wf ba" "cur_ok ba" using assms(1) by (auto simp: ba_ok_def)
  have bound: "m_position ba + n \<le> m_size ba" using assms(3) length_contents [OF wf(1)] by simp
  then have "m_position ba \<noteq> m_capacity ba" "\<not> n > m_size ba - m_position ba"
    using assms(2) ba_wfD(6) [OF wf(1)] by auto
  with bound wf show ?thesis
    by (auto simp: ba_read_total ba_clean_def fun_eq_iff contents_def memory_def ba_ok_def
        cur_ok_def ba_wf_def)
qed

lemma ba_setPosition_ok:
  assumes "ba_ok ba" and "p \<le> length (contents ba)"
  shows "\<exists>ba'. setPosition p ba = Inr ba' \<and> ba_ok ba' \<and> m_endian ba' = m_endian ba \<and>
     ba_clean ba' = ba_clean ba \<and> contents ba' = contents ba \<and> m_position ba' = p"
proof -
  have wf: "ba_wf ba" using assms(1) by (simp add: ba_ok_def)
  then have p: "p \<le> m_size ba" "p \<le> m_capacity ba"
    using assms(2) length_contents ba_wfD(6) by fastforce+
  then obtain ba' where "setPosition p ba = Inr ba'" using wf by (simp add: setPosition_total)
  with ba_wf_setPosition [OF wf this] p show ?thesis
    by (auto simp: ba_ok_def ba_clean_def fun_eq_iff contents_def memory_def max_def)
qed

interpretation bc: byte_cursor ba_write ba_read setPosition ba_ok contents m_position ba_clean m_endian
proof unfold_locales
  fix ba bs assume "ba_ok ba"
  then show "\<exists>ba'. ba_write bs ba = Inr ba' \<and> ba_ok ba' \<and> m_endian ba' = m_endian ba \<and>
      ba_clean ba' = ba_clean ba \<and> contents ba' = overwrite (contents ba) (m_position ba) bs \<and>
      m_position ba' = m_position ba + length bs"
    using ba_write_refines [of ba bs] by (auto simp: ba_ok_def ba_clean_def fun_eq_iff)
next
  fix ba assume "ba_ok ba"
  then show "m_position ba \<le> length (contents ba)"
    using ba_wfD(5) length_contents by (auto simp: ba_ok_def)
qed (rule ba_read_clean ba_setPosition_ok; assumption)+

section \<open>What the store guarantees\<close>

lemma contents_ByteArray_new [simp]: "contents (ByteArray_new fresh b) = []"
  by (simp add: contents_def)

text \<open>C1: writing never fails on a well-formed buffer whose block pointer is in step with its
  position: it overwrites the contents at the position (growing them at the end), moves the
  position behind what was written, and keeps the invariant, whatever the number of blocks the
  bytes are spread over.\<close>

theorem write_overwrites_contents:
  assumes "ba_wf ba" and "cur_ok ba"
  shows "\<exists>ba'. ba_write buf ba = Inr ba' \<and> ba_wf ba' \<and> cur_ok ba' \<and>
     contents ba' = overwrite (contents ba) (m_position ba) buf \<and>
     m_position ba' = m_position ba + length buf \<and> m_endian ba' = m_endian ba \<and>
     m_base_size ba' = m_base_size ba"
  using assms by (rule ba_write_refines)

theorem write_overwrites_contents_witness:
  "\<exists>ba'. ba_write [1, 2, 3, 4, 5] (ByteArray_new (\<lambda>_ _. 0) 2) = Inr ba' \<and>
     contents ba' = [1, 2, 3, 4, 5] \<and> m_position ba' = 5"
  using write_overwrites_contents [of "ByteArray_new (\<lambda>_ _. 0) 2" "[1, 2, 3, 4, 5]"]
  by (auto simp: wf_ByteArray_new cur_ok_ByteArray_new overwrite_def)

text \<open>The complete behaviour of reading: it fails with \<^verbatim>\<open>out_of_range\<close> when fewer bytes are left,
  dereferences \<^verbatim>\<open>nullptr\<close> when the position is the end of the last block, and else delivers the
  bytes at the position and moves it; the block pointer stays in step except after a read that
  starts inside a block and ends with it.\<close>

lemma read_complete_behaviour:
  assumes "ba_wf ba" and "cur_ok ba"
  shows "ba_read n ba =
     (if n > m_size ba - m_position ba then Inl OutOfRange
      else if m_position ba = m_capacity ba then Inl NullDeref
      else Inr (take n (drop (m_position ba) (contents ba)),
                ba\<lparr>m_cur := (if stale (m_base_size ba) (m_position ba) n
                              then Some (m_position ba div m_base_size ba)
                              else cur_at (m_base_size ba) (length (m_nodes ba)) (m_position ba + n)),
                   m_position := m_position ba + n\<rparr>))"
  using assms by (rule ba_read_total)

lemma read_complete_behaviour_example:
  "ba_read 1 (ByteArray_new (\<lambda>_ _. 0) 4) = Inl OutOfRange"
  using read_complete_behaviour [of "ByteArray_new (\<lambda>_ _. 0) 4" 1]
  by (simp add: wf_ByteArray_new cur_ok_ByteArray_new)

text \<open>After such a read the next one, if it is not longer than a block, delivers the bytes of
  the block that has just been left instead of the bytes at the position.\<close>

lemma stale_read_rereads_block:
  assumes "ba_wf ba" and "cur_ok ba" and "stale (m_base_size ba) (m_position ba) n"
    and "0 < m" and "m \<le> m_base_size ba" and "m_position ba + n + m \<le> m_size ba"
  shows "\<exists>ba1 ba2. ba_read n ba = Inr (take n (drop (m_position ba) (contents ba)), ba1) \<and>
     m_position ba1 = m_position ba + n \<and>
     ba_read m ba1 = Inr (take m (drop (m_position ba + n - m_base_size ba) (contents ba)), ba2)"
proof -
  let ?b = "m_base_size ba" and ?p = "m_position ba"
  let ?k = "?p div ?b" and ?ba1 = "ba\<lparr>m_cur := Some (?p div ?b), m_position := ?p + n\<rparr>"
  note wf = ba_wfD [OF assms(1)]
  have "?p mod ?b + n = ?b" using assms(3) by (simp add: stale_def)
  then have pn: "?p + n = Suc ?k * ?b"
    using div_mult_mod_eq [of ?p ?b] unfolding mult_Suc by linarith
  have "?p < m_capacity ba" using assms(4,6) wf(6) by linarith
  then have k: "?k < length (m_nodes ba)" using wf(4) by (intro block_bound) simp
  then have lenk: "length (m_nodes ba ! ?k) = ?b" using wf(3) by simp
  have "(?p + n) mod ?b = 0" unfolding pn by (rule mod_mult_self2_is_0)
  then have "\<exists>ba2. ba_read m ?ba1 = Inr (take m (m_nodes ba ! ?k), ba2)"
    using assms(4,5,6) wf(1) k lenk
    by (simp add: ba_read_def Let_def getReadSize_def node_deref_def read_loop.simps)
  moreover have "take m (m_nodes ba ! ?k) = take m (drop (?p + n - ?b) (contents ba))"
    using take_drop_concat_block [OF wf(3) k, of 0 m] assms(5,6) pn
      take_drop_contents [of "?k * ?b" m ba] by (simp add: memory_def)
  moreover have "ba_read n ba = Inr (take n (drop ?p (contents ba)), ?ba1)"
    using ba_read_total [OF assms(1,2), of n] assms(3,6) \<open>?p < m_capacity ba\<close> by simp
  ultimately show ?thesis by auto
qed

lemma stale_read_rereads_block_example:
  "\<exists>ba ba1 ba2. ba_write [1, 2, 3, 4, 5, 6, 7, 8] (ByteArray_new (\<lambda>_ _. 0) 4) = Inr ba \<and>
     contents ba = [1, 2, 3, 4, 5, 6, 7, 8] \<and>
     ba_read 2 (ba\<lparr>m_position := 2, m_cur := Some 0\<rparr>) = Inr ([3, 4], ba1) \<and>
     ba_read 2 ba1 = Inr ([1, 2], ba2)"
proof -
  obtain ba where w: "ba_write [1, 2, 3, 4, 5, 6, 7, 8] (ByteArray_new (\<lambda>_ _. 0) 4) = Inr ba"
    "ba_wf ba" "cur_ok ba" "contents ba = [1, 2, 3, 4, 5, 6, 7, 8]" "m_base_size ba = 4"
    using ba_write_refines [of "ByteArray_new (\<lambda>_ _. 0) 4" "[1, 2, 3, 4, 5, 6, 7, 8]"]
    by (auto simp: wf_ByteArray_new cur_ok_ByteArray_new overwrite_def)
  let ?ba = "ba\<lparr>m_position := 2, m_cur := Some 0\<rparr>"
  have sz: "m_size ba = 8" using length_contents [OF w(2)] w(4) by simp
  have "ba_wf ?ba" "cur_ok ?ba" "contents ?ba = contents ba"
    using w(2,5) sz ba_wfD(4,6) [OF w(2)]
    by (auto simp: ba_wf_def cur_ok_def cur_at_def contents_def memory_def)
  then show ?thesis
    using stale_read_rereads_block [of ?ba 2 2] w(1,4,5) sz by (auto simp: stale_def)
qed

text \<open>\<^verbatim>\<open>toString\<close> delivers what is left to read and leaves the cursor alone; with the position at
  the end of the last block, where the right answer is the empty string, it dereferences
  \<^verbatim>\<open>nullptr\<close>.\<close>

lemma toString_behaviour:
  assumes "ba_wf ba"
  shows "toString ba =
     (if m_position ba = m_capacity ba then Inl NullDeref
      else Inr (drop (m_position ba) (contents ba)))"
  using assms by (rule toString_total)

lemma toString_behaviour_example:
  "toString (ByteArray_new (\<lambda>_ _. 0) 4) = Inr []"
  using toString_behaviour [of "ByteArray_new (\<lambda>_ _. 0) 4"] by (simp add: wf_ByteArray_new)

text \<open>The complete behaviour of \<^verbatim>\<open>getReadBuffers\<close>.  The view is right when the bytes lie in one
  block; when they reach into a second block and there are no more of them than a block holds, the
  second piece is too long by the length of the first; else the loop runs off the chain.\<close>

lemma getReadBuffers_behaviour:
  assumes "ba_wf ba" and "cur_ok ba" and "0 < len" and "len \<le> m_size ba - m_position ba"
  shows "getReadBuffers buffers len ba =
    (let b = m_base_size ba; k = m_position ba div b; npos = m_position ba mod b in
     if len \<le> b - npos then Inr (len, [\<lparr>iov_node = k, iov_off = npos, iov_len = len\<rparr>])
     else if len \<le> b then
       Inr (len, [\<lparr>iov_node = k, iov_off = npos, iov_len = b - npos\<rparr>,
                  \<lparr>iov_node = Suc k, iov_off = 0, iov_len = len\<rparr>])
     else Inl NullDeref)"
  using assms by (rule getReadBuffers_total)

lemma getReadBuffers_behaviour_example:
  "\<exists>ba. ba_write [1, 2, 3, 4, 5] (ByteArray_new (\<lambda>_ _. 0) 4) = Inr ba \<and>
     getReadBuffers [] 5 (ba\<lparr>m_position := 0, m_cur := Some 0\<rparr>) = Inl NullDeref"
proof -
  obtain ba where w: "ba_write [1, 2, 3, 4, 5] (ByteArray_new (\<lambda>_ _. 0) 4) = Inr ba"
    "ba_wf ba" "contents ba = [1, 2, 3, 4, 5]" "m_base_size ba = 4"
    using ba_write_refines [of "ByteArray_new (\<lambda>_ _. 0) 4" "[1, 2, 3, 4, 5]"]
    by (auto simp: wf_ByteArray_new cur_ok_ByteArray_new overwrite_def)
  let ?ba = "ba\<lparr>m_position := 0, m_cur := Some 0\<rparr>"
  have "m_size ba = 5" using length_contents [OF w(2)] w(3) by simp
  moreover have "ba_wf ?ba" "cur_ok ?ba"
    using w(2,4) ba_wfD(2) [OF w(2)] by (auto simp: ba_wf_def cur_ok_def cur_at_def)
  ultimately show ?thesis
    using getReadBuffers_behaviour [of ?ba 5 "[]"] w(1,4) by auto
qed

text \<open>C34: what \<^verbatim>\<open>writeToFile\<close> saves, \<^verbatim>\<open>readFromFile\<close> appends to any other buffer that stands at its
  end, whatever the block sizes of the two.\<close>

theorem file_round_trip:
  assumes "ba_wf ba" and "cur_ok ba" and "ba_wf bb" and "cur_ok bb" and "m_position bb = m_size bb"
  shows "\<exists>saved bb'. writeToFile True ba = Inr (True, saved) \<and>
     readFromFile True saved bb = Inr (True, bb') \<and> ba_wf bb' \<and> cur_ok bb' \<and>
     contents bb' = contents bb @ drop (m_position ba) (contents ba) \<and>
     m_position bb' = m_size bb'"
proof -
  let ?saved = "drop (m_position ba) (contents ba)"
  obtain bb' where l: "load_loop ?saved bb (m_base_size bb) = Inr bb'" "ba_wf bb'" "cur_ok bb'"
    "contents bb' = overwrite (contents bb) (m_position bb) ?saved"
    "m_position bb' = m_position bb + length ?saved"
    using load_loop_correct [OF assms(3,4) refl] by blast
  have c: "contents bb' = contents bb @ ?saved"
    using l(4) assms(5) length_contents [OF assms(3)] by (simp add: overwrite_def)
  moreover have "m_position bb' = m_size bb'"
    using l(5) assms(5) c length_contents [OF assms(3)] length_contents [OF l(2)] by simp
  ultimately show ?thesis
    using writeToFile_total [OF assms(1,2)] l(1,2,3) by (simp add: readFromFile_def)
qed

theorem file_round_trip_witness:
  "\<exists>ba saved bb'. ba_write [1, 2, 3, 4, 5] (ByteArray_new (\<lambda>_ _. 0) 4) = Inr ba \<and>
     writeToFile True (ba\<lparr>m_position := 0, m_cur := Some 0\<rparr>) = Inr (True, saved) \<and>
     readFromFile True saved (ByteArray_new (\<lambda>_ _. 7) 2) = Inr (True, bb') \<and>
     contents bb' = [1, 2, 3, 4, 5]"
proof -
  obtain ba where w: "ba_write [1, 2, 3, 4, 5] (ByteArray_new (\<lambda>_ _. 0) 4) = Inr ba"
    "ba_wf ba" "contents ba = [1, 2, 3, 4, 5]" "m_base_size ba = 4"
    using ba_write_refines [of "ByteArray_new (\<lambda>_ _. 0) 4" "[1, 2, 3, 4, 5]"]
    by (auto simp: wf_ByteArray_new cur_ok_ByteArray_new overwrite_def)
  let ?ba = "ba\<lparr>m_position := 0, m_cur := Some 0\<rparr>"
  have "ba_wf ?ba" "cur_ok ?ba" "contents ?ba = contents ba"
    using w(2,4) ba_wfD(2) [OF w(2)]
    by (auto simp: ba_wf_def cur_ok_def cur_at_def contents_def memory_def)
  then show ?thesis
    using file_round_trip [of ?ba "ByteArray_new (\<lambda>_ _. 7) 2"] w(1,3)
    by (auto simp: wf_ByteArray_new cur_ok_ByteArray_new)
qed

end
