(* ===== verification/Byte_Codec.thy ===== *)
theory Byte_Codec
  imports Byte_Store
begin

text \<open>
  The codecs of \<^verbatim>\<open>ByteArray\<close>: fixed-width integers in the buffer's byte order, zigzag and
  variable-length integers, floating-point numbers (as their bit patterns) and strings with a
  length in front.  A signed integer is the word with its two's complement bit pattern, \<open>sint\<close>
  its value; \<^verbatim>\<open>-v\<close> and \<^verbatim>\<open>v * 2\<close> on signed integers wrap around, as the compilers the program is
  built with do, where the language leaves the overflow undefined.
\<close>

section \<open>Definitions\<close>

subsection \<open>Fixed width\<close>

definition write_int :: "EndianType \<Rightarrow> 'a::len word \<Rightarrow> ByteArray \<Rightarrow> ba_error + ByteArray" where
  "write_int native value ba =
     ba_write (mem_bytes native (EndianCastByType native value (m_endian ba))) ba"

definition read_int :: "EndianType \<Rightarrow> ByteArray \<Rightarrow> ba_error + 'a::len word \<times> ByteArray" where
  "read_int native ba =
     rbind (ba_read (LENGTH('a) div 8) ba) (\<lambda>(bs, ba').
       Inr (EndianCastByType native (mem_word native bs) (m_endian ba'), ba'))"

definition writeFint8 :: "byte \<Rightarrow> ByteArray \<Rightarrow> ba_error + ByteArray" where
  "writeFint8 value ba = ba_write [value] ba"

definition writeFuint8 :: "byte \<Rightarrow> ByteArray \<Rightarrow> ba_error + ByteArray" where
  "writeFuint8 value ba = ba_write [value] ba"

definition writeFint16 :: "EndianType \<Rightarrow> u16 \<Rightarrow> ByteArray \<Rightarrow> ba_error + ByteArray" where
  "writeFint16 native value ba = write_int native value ba"

definition writeFuint16 :: "EndianType \<Rightarrow> u16 \<Rightarrow> ByteArray \<Rightarrow> ba_error + ByteArray" where
  "writeFuint16 native value ba = write_int native value ba"

definition writeFint32 :: "EndianType \<Rightarrow> u32 \<Rightarrow> ByteArray \<Rightarrow> ba_error + ByteArray" where
  "writeFint32 native value ba = write_int native value ba"

definition writeFuint32 :: "EndianType \<Rightarrow> u32 \<Rightarrow> ByteArray \<Rightarrow> ba_error + ByteArray" where
  "writeFuint32 native value ba = write_int native value ba"

definition writeFint64 :: "EndianType \<Rightarrow> u64 \<Rightarrow> ByteArray \<Rightarrow> ba_error + ByteArray" where
  "writeFint64 native value ba = write_int native value ba"

definition writeFuint64 :: "EndianType \<Rightarrow> u64 \<Rightarrow> ByteArray \<Rightarrow> ba_error + ByteArray" where
  "writeFuint64 native value ba = write_int native value ba"

definition readFint8 :: "ByteArray \<Rightarrow> ba_error + byte \<times> ByteArray" where
  "readFint8 ba = rbind (ba_read 1 ba) (\<lambda>(bs, ba'). Inr (hd bs, ba'))"

definition readFuint8 :: "ByteArray \<Rightarrow> ba_error + byte \<times> ByteArray" where
  "readFuint8 ba = rbind (ba_read 1 ba) (\<lambda>(bs, ba'). Inr (hd bs, ba'))"

definition readFint16 :: "EndianType \<Rightarrow> ByteArray \<Rightarrow> ba_error + u16 \<times> ByteArray" where
  "readFint16 native ba = read_int native ba"

definition readFuint16 :: "EndianType \<Rightarrow> ByteArray \<Rightarrow> ba_error + u16 \<times> ByteArray" where
  "readFuint16 native ba = read_int native ba"

definition readFint32 :: "EndianType \<Rightarrow> ByteArray \<Rightarrow> ba_error + u32 \<times> ByteArray" where
  "readFint32 native ba = read_int native ba"

definition readFuint32 :: "EndianType \<Rightarrow> ByteArray \<Rightarrow> ba_error + u32 \<times> ByteArray" where
  "readFuint32 native ba = read_int native ba"

definition readFint64 :: "EndianType \<Rightarrow> ByteArray \<Rightarrow> ba_error + u64 \<times> ByteArray" where
  "readFint64 native ba = read_int native ba"

definition readFuint64 :: "EndianType \<Rightarrow> ByteArray \<Rightarrow> ba_error + u64 \<times> ByteArray" where
  "readFuint64 native ba = read_int native ba"

subsection \<open>Zigzag and variable length\<close>

definition EncodeZigzag32 :: "u32 \<Rightarrow> u32" where
  "EncodeZigzag32 v = (if sint v < 0 then (- v) * 2 - 1 else v * 2)"

definition EncodeZigzag64 :: "u64 \<Rightarrow> u64" where
  "EncodeZigzag64 v = (if sint v < 0 then (- v) * 2 - 1 else v * 2)"

definition DecodeZigzag32 :: "u32 \<Rightarrow> u32" where
  "DecodeZigzag32 v = drop_bit 1 v XOR (- (v AND 1))"

definition DecodeZigzag64 :: "u64 \<Rightarrow> u64" where
  "DecodeZigzag64 v = drop_bit 1 v XOR (- (v AND 1))"

text \<open>The bytes the loops of \<^verbatim>\<open>writeUint32\<close> and \<^verbatim>\<open>writeUint64\<close> collect in \<^verbatim>\<open>tmp\<close>.\<close>

function varint32 :: "u32 \<Rightarrow> byte list" where
  "varint32 value =
     (if value \<ge> 0x80 then ucast ((value AND 0x7F) OR 0x80) # varint32 (drop_bit 7 value)
      else [ucast value])"
  by pat_completeness auto
termination
  by (relation "measure unat") (auto simp: unat_drop_bit_eq word_le_nat_alt drop_bit_nat_def)

function varint64 :: "u64 \<Rightarrow> byte list" where
  "varint64 value =
     (if value \<ge> 0x80 then ucast ((value AND 0x7F) OR 0x80) # varint64 (drop_bit 7 value)
      else [ucast value])"
  by pat_completeness auto
termination
  by (relation "measure unat") (auto simp: unat_drop_bit_eq word_le_nat_alt drop_bit_nat_def)

definition writeUint32 :: "u32 \<Rightarrow> ByteArray \<Rightarrow> ba_error + ByteArray" where
  "writeUint32 value ba = ba_write (varint32 value) ba"

definition writeUint64 :: "u64 \<Rightarrow> ByteArray \<Rightarrow> ba_error + ByteArray" where
  "writeUint64 value ba = ba_write (varint64 value) ba"

definition writeInt32 :: "u32 \<Rightarrow> ByteArray \<Rightarrow> ba_error + ByteArray" where
  "writeInt32 value ba = writeUint32 (EncodeZigzag32 value) ba"

definition writeInt64 :: "u64 \<Rightarrow> ByteArray \<Rightarrow> ba_error + ByteArray" where
  "writeInt64 value ba = writeUint64 (EncodeZigzag64 value) ba"

text \<open>As in the source, \<^verbatim>\<open>readUint32\<close> ends at a byte that \<^emph>\<open>has\<close> its top bit set.\<close>

function readUint32_loop :: "nat \<Rightarrow> u32 \<Rightarrow> ByteArray \<Rightarrow> ba_error + u32 \<times> ByteArray" where
  "readUint32_loop i ans ba =
     (if i < 32 then
        rbind (readFuint8 ba) (\<lambda>(b, ba').
          if b AND 0x80 \<noteq> 0 then Inr (ans OR push_bit i (ucast (b AND 0x7F)), ba')
          else readUint32_loop (i + 7) (ans OR push_bit i (ucast b)) ba')
      else Inr (ans, ba))"
  by pat_completeness auto
termination
  by (relation "measure (\<lambda>(i, ans, ba). 32 - i)") auto

function readUint64_loop :: "nat \<Rightarrow> u64 \<Rightarrow> ByteArray \<Rightarrow> ba_error + u64 \<times> ByteArray" where
  "readUint64_loop i ans ba =
     (if i < 64 then
        rbind (readFuint8 ba) (\<lambda>(b, ba').
          if b AND 0x80 \<noteq> 0 then
            readUint64_loop (i + 7) (ans OR push_bit i (ucast (b AND 0x7F))) ba'
          else Inr (ans OR push_bit i (ucast b), ba'))
      else Inr (ans, ba))"
  by pat_completeness auto
termination
  by (relation "measure (\<lambda>(i, ans, ba). 64 - i)") auto

definition readUint32 :: "ByteArray \<Rightarrow> ba_error + u32 \<times> ByteArray" where
  "readUint32 ba = readUint32_loop 0 0 ba"

definition readUint64 :: "ByteArray \<Rightarrow> ba_error + u64 \<times> ByteArray" where
  "readUint64 ba = readUint64_loop 0 0 ba"

definition readInt32 :: "ByteArray \<Rightarrow> ba_error + u32 \<times> ByteArray" where
  "readInt32 ba = rbind (readUint32 ba) (\<lambda>(v, ba'). Inr (DecodeZigzag32 v, ba'))"

definition readInt64 :: "ByteArray \<Rightarrow> ba_error + u64 \<times> ByteArray" where
  "readInt64 ba = rbind (readUint64 ba) (\<lambda>(v, ba'). Inr (DecodeZigzag64 v, ba'))"

subsection \<open>Floating point and strings\<close>

definition writeFloat :: "EndianType \<Rightarrow> u32 \<Rightarrow> ByteArray \<Rightarrow> ba_error + ByteArray" where
  "writeFloat native bits ba = writeFuint32 native bits ba"

definition writeDouble :: "EndianType \<Rightarrow> u64 \<Rightarrow> ByteArray \<Rightarrow> ba_error + ByteArray" where
  "writeDouble native bits ba = writeFuint64 native bits ba"

definition readFloat :: "EndianType \<Rightarrow> ByteArray \<Rightarrow> ba_error + u32 \<times> ByteArray" where
  "readFloat native ba = readFuint32 native ba"

definition readDouble :: "EndianType \<Rightarrow> ByteArray \<Rightarrow> ba_error + u64 \<times> ByteArray" where
  "readDouble native ba = readFuint64 native ba"

definition writeStringF16 :: "EndianType \<Rightarrow> byte list \<Rightarrow> ByteArray \<Rightarrow> ba_error + ByteArray" where
  "writeStringF16 native s ba =
     rbind (writeFuint16 native (word_of_nat (length s)) ba) (ba_write s)"

definition writeStringF32 :: "EndianType \<Rightarrow> byte list \<Rightarrow> ByteArray \<Rightarrow> ba_error + ByteArray" where
  "writeStringF32 native s ba =
     rbind (writeFuint32 native (word_of_nat (length s)) ba) (ba_write s)"

definition writeStringF64 :: "EndianType \<Rightarrow> byte list \<Rightarrow> ByteArray \<Rightarrow> ba_error + ByteArray" where
  "writeStringF64 native s ba =
     rbind (writeFuint64 native (word_of_nat (length s)) ba) (ba_write s)"

definition writeStringVint :: "byte list \<Rightarrow> ByteArray \<Rightarrow> ba_error + ByteArray" where
  "writeStringVint s ba = rbind (writeUint64 (word_of_nat (length s)) ba) (ba_write s)"

definition readStringF16 :: "EndianType \<Rightarrow> ByteArray \<Rightarrow> ba_error + byte list \<times> ByteArray" where
  "readStringF16 native ba =
     rbind (readFint16 native ba) (\<lambda>(len, ba'). ba_read (unat len) ba')"

definition readStringF32 :: "EndianType \<Rightarrow> ByteArray \<Rightarrow> ba_error + byte list \<times> ByteArray" where
  "readStringF32 native ba =
     rbind (readFint32 native ba) (\<lambda>(len, ba'). ba_read (unat len) ba')"

text \<open>As in the source, the 64-bit length is read with \<^verbatim>\<open>readFint16\<close> and sign-extended.\<close>

definition readStringF64 :: "EndianType \<Rightarrow> ByteArray \<Rightarrow> ba_error + byte list \<times> ByteArray" where
  "readStringF64 native ba =
     rbind (readFint16 native ba) (\<lambda>(len, ba'). ba_read (unat (scast len :: u64)) ba')"

definition readStringVint :: "ByteArray \<Rightarrow> ba_error + byte list \<times> ByteArray" where
  "readStringVint ba = rbind (readUint64 ba) (\<lambda>(len, ba'). ba_read (unat len) ba')"

declare varint32.simps [simp del] varint64.simps [simp del]
  readUint32_loop.simps [simp del] readUint64_loop.simps [simp del]

section \<open>Zigzag\<close>

lemma bit_times2: "bit (v * 2) n \<longleftrightarrow> n < LENGTH('a) \<and> n \<noteq> 0 \<and> bit v (n - 1)"
  for v :: "'a::len word"
  using bit_double_iff [of v n] by (simp add: mult.commute)

lemma zigzag_negative:
  assumes "sint (v :: 'a::len word) < 0"
  shows "drop_bit 1 ((- v) * 2 - 1) XOR (- (((- v) * 2 - 1) AND 1)) = v"
proof -
  have top: "bit v (LENGTH('a) - Suc 0)" using assms by (simp add: bit_last_iff)
  have enc: "(- v) * 2 - 1 = NOT (v * 2)" by (simp add: not_eq_complement)
  have low: "NOT (v * 2) AND 1 = 1" by (rule bit_word_eqI) (auto simp: bit_simps bit_times2)
  have "NOT (drop_bit 1 (NOT (v * 2))) = v"
  proof (rule bit_word_eqI)
    fix i assume "i < LENGTH('a)"
    then show "bit (NOT (drop_bit 1 (NOT (v * 2)))) i = bit v i"
      using top by (cases "i = LENGTH('a) - Suc 0") (auto simp: bit_simps bit_times2)
  qed
  then show ?thesis unfolding enc low by simp
qed

lemma zigzag_nonnegative:
  assumes "\<not> sint (v :: 'a::len word) < 0"
  shows "drop_bit 1 (v * 2) XOR (- ((v * 2) AND 1)) = v"
proof -
  have top: "\<not> bit v (LENGTH('a) - Suc 0)" using assms by (simp add: bit_last_iff)
  have low: "(v * 2) AND 1 = 0" by (rule bit_word_eqI) (auto simp: bit_simps bit_times2)
  have "drop_bit 1 (v * 2) = v"
  proof (rule bit_word_eqI)
    fix i assume "i < LENGTH('a)"
    then show "bit (drop_bit 1 (v * 2)) i = bit v i"
      using top by (cases "i = LENGTH('a) - Suc 0") (auto simp: bit_simps bit_times2)
  qed
  then show ?thesis unfolding low by simp
qed

lemma DecodeZigzag32_Encode [simp]: "DecodeZigzag32 (EncodeZigzag32 v) = v"
  using zigzag_negative [of v] zigzag_nonnegative [of v]
  unfolding DecodeZigzag32_def EncodeZigzag32_def by presburger

lemma DecodeZigzag64_Encode [simp]: "DecodeZigzag64 (EncodeZigzag64 v) = v"
  using zigzag_negative [of v] zigzag_nonnegative [of v]
  unfolding DecodeZigzag64_def EncodeZigzag64_def by presburger

section \<open>Variable length\<close>

lemma take_bit_small: "v < 2 ^ n \<Longrightarrow> n < LENGTH('a) \<Longrightarrow> take_bit n v = (v :: 'a::len word)"
  by (simp add: less_mask_eq take_bit_eq_mask)

lemma bit_0x80_int: "bit (0x80 :: int) n \<longleftrightarrow> n = 7"
  using bit_exp_iff [of 7 n, where 'a = int] by simp

lemma bit_0x7F_int: "bit (0x7F :: int) n \<longleftrightarrow> n < 7"
  using bit_mask_iff [of 7 n, where 'a = int] by (simp add: mask_numeral)

lemma bit_0x80: "bit (0x80 :: 'a::len word) n \<longleftrightarrow> n = 7 \<and> n < LENGTH('a)"
  by (metis bit_0x80_int bit_word_of_int_iff of_int_numeral)

lemma bit_0x7F: "bit (0x7F :: 'a::len word) n \<longleftrightarrow> n < 7 \<and> n < LENGTH('a)"
  by (metis bit_0x7F_int bit_word_of_int_iff of_int_numeral)

lemmas digit_bits = bit_simps bit_0x80_int bit_0x7F_int bit_0x80 bit_0x7F

lemma bits_below_0x80:
  "8 \<le> LENGTH('a) \<Longrightarrow> v < 0x80 \<Longrightarrow> bit v n \<Longrightarrow> n < 7" for v :: "'a::len word"
  using take_bit_small [of v 7] bit_take_bit_iff [of 7 v n] by auto

lemma varint_digit_top:
  "8 \<le> LENGTH('a::len) \<Longrightarrow> (ucast ((v AND 0x7F) OR 0x80 :: 'a word) :: byte) AND 0x80 \<noteq> 0"
proof -
  assume "8 \<le> LENGTH('a)"
  then have "bit ((ucast ((v AND 0x7F) OR 0x80 :: 'a word) :: byte) AND 0x80) 7"
    by (simp add: digit_bits)
  then show ?thesis by (metis bit_0_eq bot_apply bot_bool_def)
qed

lemma varint_digit_low:
  "8 \<le> LENGTH('a::len) \<Longrightarrow>
   ucast ((ucast ((v AND 0x7F) OR 0x80 :: 'a word) :: byte) AND 0x7F) = v AND (0x7F :: 'a word)"
  by (rule bit_word_eqI) (auto simp: digit_bits)

lemma varint_last:
  "8 \<le> LENGTH('a) \<Longrightarrow> v < 0x80 \<Longrightarrow> (ucast v :: byte) AND 0x80 = 0" for v :: "'a::len word"
  using bits_below_0x80 [of v 7] by (intro bit_word_eqI) (auto simp: digit_bits)

lemma varint_last_ucast:
  "8 \<le> LENGTH('a) \<Longrightarrow> v < 0x80 \<Longrightarrow> ucast (ucast v :: byte) = v" for v :: "'a::len word"
  using bits_below_0x80 [of v] by (intro bit_word_eqI) (fastforce simp: digit_bits)

lemma varint_join:
  "push_bit i (v AND 0x7F) OR push_bit (i + 7) (drop_bit 7 v) = push_bit i v" for v :: u64
proof (rule bit_word_eqI)
  fix n assume "n < LENGTH(64)"
  then show "bit (push_bit i (v AND 0x7F) OR push_bit (i + 7) (drop_bit 7 v)) n = bit (push_bit i v) n"
    by (cases "n < i + 7") (auto simp: digit_bits)
qed

lemma varint64_nonempty [simp]: "varint64 v \<noteq> []"
  by (subst varint64.simps) simp

lemma varint32_nonempty [simp]: "varint32 v \<noteq> []"
  by (subst varint32.simps) simp

lemma length_varint64: "unat v < 128 ^ Suc k \<Longrightarrow> length (varint64 v) \<le> Suc k"
proof (induction k arbitrary: v)
  case 0
  then show ?case by (subst varint64.simps) (simp add: word_le_nat_alt)
next
  case (Suc k)
  have "unat (drop_bit 7 v) < 128 ^ Suc k"
    using Suc.prems by (simp add: unat_drop_bit_eq drop_bit_nat_def less_mult_imp_div_less)
  then show ?case using Suc.IH [of "drop_bit 7 v"] by (subst varint64.simps) simp
qed

lemma length_varint32: "unat v < 128 ^ Suc k \<Longrightarrow> length (varint32 v) \<le> Suc k"
proof (induction k arbitrary: v)
  case 0
  then show ?case by (subst varint32.simps) (simp add: word_le_nat_alt)
next
  case (Suc k)
  have "unat (drop_bit 7 v) < 128 ^ Suc k"
    using Suc.prems by (simp add: unat_drop_bit_eq drop_bit_nat_def less_mult_imp_div_less)
  then show ?case using Suc.IH [of "drop_bit 7 v"] by (subst varint32.simps) simp
qed

lemma readFuint8_prefix:
  assumes "ba_ok ba" and "drop (m_position ba) (contents ba) = b # rest"
  shows "\<exists>ba'. readFuint8 ba = Inr (b, ba') \<and> ba_clean ba' = ba_clean ba \<and>
     contents ba' = contents ba \<and> m_position ba' = Suc (m_position ba) \<and>
     drop (m_position ba') (contents ba') = rest \<and> (ba_clean ba (m_position ba) 1 \<longrightarrow> ba_ok ba')"
  using bc.rd_prefix [OF assms(1), of "[b]" rest] assms(2) by (auto simp: readFuint8_def)

lemma readUint64_loop_correct:
  assumes "ba_ok ba" and "drop (m_position ba) (contents ba) = varint64 v @ rest"
    and "i < 64" and "unat v < 2 ^ (64 - i)"
    and "\<forall>j. Suc j < length (varint64 v) \<longrightarrow> ba_clean ba (m_position ba + j) 1"
  shows "\<exists>ba'. readUint64_loop i ans ba = Inr (ans OR push_bit i v, ba') \<and>
     contents ba' = contents ba \<and> ba_clean ba' = ba_clean ba \<and>
     m_position ba' = m_position ba + length (varint64 v) \<and>
     drop (m_position ba') (contents ba') = rest \<and>
     (ba_clean ba (m_position ba + length (varint64 v) - 1) 1 \<longrightarrow> ba_ok ba')"
  using assms
proof (induction v arbitrary: i ans ba rule: varint64.induct)
  case (1 v)
  show ?case
  proof (cases "v \<ge> 0x80")
    case True
    let ?b = "ucast ((v AND 0x7F) OR 0x80) :: byte" and ?v = "drop_bit 7 v"
    have enc: "varint64 v = ?b # varint64 ?v" using True by (subst varint64.simps) simp
    have i7: "i + 7 < 64" "unat ?v < 2 ^ (64 - (i + 7))"
    proof -
      have "128 \<le> unat v" using True by (simp add: word_le_nat_alt)
      with "1.prems"(4) have "(2 :: nat) ^ 7 < 2 ^ (64 - i)" by simp
      then have i7: "7 < 64 - i" by (rule power_less_imp_less_exp [rotated]) simp
      then show "i + 7 < 64" by simp
      have "64 - i = 64 - (i + 7) + 7" using i7 by simp
      then have "(2 :: nat) ^ (64 - i) = 2 ^ (64 - (i + 7)) * 2 ^ 7"
        by (metis power_add)
      with "1.prems"(4) show "unat ?v < 2 ^ (64 - (i + 7))"
        by (simp add: unat_drop_bit_eq drop_bit_nat_def less_mult_imp_div_less)
    qed
    obtain ba1 where r: "readFuint8 ba = Inr (?b, ba1)" "ba_clean ba1 = ba_clean ba"
      "contents ba1 = contents ba" "m_position ba1 = Suc (m_position ba)"
      "drop (m_position ba1) (contents ba1) = varint64 ?v @ rest"
      "ba_clean ba (m_position ba) 1 \<longrightarrow> ba_ok ba1"
      using readFuint8_prefix [OF "1.prems"(1)] "1.prems"(2) enc by fastforce
    have ok1: "ba_ok ba1" using r(6) "1.prems"(5) enc by force
    have cl: "\<forall>j. Suc j < length (varint64 ?v) \<longrightarrow> ba_clean ba1 (m_position ba1 + j) 1"
      using "1.prems"(5) enc r(2,4) by (metis Suc_mono add_Suc add_Suc_right length_Cons)
    obtain ba2 where "readUint64_loop (i + 7) (ans OR push_bit i (v AND 0x7F)) ba1 =
        Inr ((ans OR push_bit i (v AND 0x7F)) OR push_bit (i + 7) ?v, ba2)"
      "contents ba2 = contents ba1" "ba_clean ba2 = ba_clean ba1"
      "m_position ba2 = m_position ba1 + length (varint64 ?v)"
      "drop (m_position ba2) (contents ba2) = rest"
      "ba_clean ba1 (m_position ba1 + length (varint64 ?v) - 1) 1 \<longrightarrow> ba_ok ba2"
      using "1.IH" [OF True ok1 r(5) i7 cl] by blast
    moreover have "(ans OR push_bit i (v AND 0x7F)) OR push_bit (i + 7) ?v = ans OR push_bit i v"
      using varint_join [of i v] by (simp add: or.assoc)
    moreover have "readUint64_loop i ans ba =
        readUint64_loop (i + 7) (ans OR push_bit i (v AND 0x7F)) ba1"
      using "1.prems"(3) r(1) varint_digit_top [of v] varint_digit_low [of v]
      by (subst readUint64_loop.simps) simp
    ultimately show ?thesis using r enc by (intro exI [of _ ba2]) simp
  next
    case False
    then have enc: "varint64 v = [ucast v]" by (subst varint64.simps) simp
    obtain ba1 where "readFuint8 ba = Inr (ucast v, ba1)" "ba_clean ba1 = ba_clean ba"
      "contents ba1 = contents ba" "m_position ba1 = Suc (m_position ba)"
      "drop (m_position ba1) (contents ba1) = rest" "ba_clean ba (m_position ba) 1 \<longrightarrow> ba_ok ba1"
      using readFuint8_prefix [OF "1.prems"(1)] "1.prems"(2) enc by fastforce
    then show ?thesis
      using "1.prems"(3) enc varint_last [of v] varint_last_ucast [of v] False
      by (subst readUint64_loop.simps) (simp add: not_le)
  qed
qed

section \<open>Round trips\<close>

lemma write_int_bytes:
  "int_width TYPE('a::len word) \<Longrightarrow>
   write_int native (v :: 'a word) ba =
     ba_write (if m_endian ba = XZMJX_Little_Endian then le_bytes (LENGTH('a) div 8) v
               else rev (le_bytes (LENGTH('a) div 8) v)) ba"
  by (simp add: write_int_def mem_bytes_EndianCastByType)

lemma read_int_bytes:
  assumes "int_width TYPE('a::len word)"
    and "ba_read (LENGTH('a) div 8) ba =
      Inr (mem_bytes native (EndianCastByType native v (m_endian ba)), ba')"
    and "m_endian ba' = m_endian ba"
  shows "read_int native ba = Inr (v :: 'a word, ba')"
  using assms by (simp add: read_int_def)

lemma read_keeps_endian: "ba_read n ba = Inr (bs, ba') \<Longrightarrow> m_endian ba' = m_endian ba"
  by (auto simp: ba_read_def Let_def rbind_eq_Inr split: if_splits)

lemma mem_bytes_nonempty: "int_width TYPE('a::len word) \<Longrightarrow> mem_bytes native (v :: 'a word) \<noteq> []"
  by (auto simp: int_width_def dest: arg_cong [of _ _ length])

lemma int_round_trip:
  fixes v :: "'a::len word"
  assumes "int_width TYPE('a word)" and "ba_ok ba"
  shows "\<exists>ba1 ba2 ba3. write_int native v ba = Inr ba1 \<and> setPosition (m_position ba) ba1 = Inr ba2 \<and>
     read_int native ba2 = Inr (v, ba3) \<and> m_position ba3 = m_position ba1 \<and>
     contents ba3 = contents ba1"
proof -
  let ?bs = "mem_bytes native (EndianCastByType native v (m_endian ba))"
  obtain ba1 ba2 ba3 where
    w: "ba_write ?bs ba = Inr ba1" "setPosition (m_position ba) ba1 = Inr ba2"
    "m_endian ba2 = m_endian ba" "ba_read (length ?bs) ba2 = Inr (?bs, ba3)"
    "m_position ba3 = m_position ba1" "contents ba3 = contents ba1"
    using bc.put_get [OF assms(2) mem_bytes_nonempty [OF assms(1)]] by blast
  have "read_int native ba2 = Inr (v, ba3)"
    using read_int_bytes [OF assms(1)] w(3,4) read_keeps_endian [OF w(4)] by simp
  with w show ?thesis by (auto simp: write_int_def)
qed

lemma string_round_trip:
  fixes len :: "'a::len word"
  assumes "int_width TYPE('a word)" and "ba_ok ba" and "s \<noteq> []" and "unat len = length s"
    and "ba_clean ba (m_position ba) (LENGTH('a) div 8)"
  shows "\<exists>ba1 ba2 ba3. rbind (write_int native len ba) (ba_write s) = Inr ba1 \<and>
     setPosition (m_position ba) ba1 = Inr ba2 \<and>
     rbind (read_int native ba2) (\<lambda>(len :: 'a word, ba'). ba_read (unat len) ba') = Inr (s, ba3) \<and>
     m_position ba3 = m_position ba1 \<and> contents ba3 = contents ba1"
proof -
  let ?h = "mem_bytes native (EndianCastByType native len (m_endian ba))"
  obtain s1 s2 s3 s4 s5 where
    w: "ba_write ?h ba = Inr s1" "ba_write s s1 = Inr s2" "setPosition (m_position ba) s2 = Inr s3"
    "ba_read (length ?h) s3 = Inr (?h, s4)" "ba_read (length s) s4 = Inr (s, s5)"
    "m_endian s3 = m_endian ba" "m_position s5 = m_position s2" "contents s5 = contents s2"
    using bc.put_put_get_get [OF assms(2) mem_bytes_nonempty [OF assms(1)] assms(3)] assms(5)
    by (metis length_mem_bytes)
  have "read_int native s3 = Inr (len, s4)"
    using read_int_bytes [OF assms(1)] w(4,6) read_keeps_endian [OF w(4)] by simp
  with w assms(4) show ?thesis by (intro exI [of _ s2] exI [of _ s3] exI [of _ s5]) (simp add: write_int_def)
qed

section \<open>Properties\<close>

lemma ba_write_position:
  "ba_wf ba \<Longrightarrow> cur_ok ba \<Longrightarrow> ba_write bs ba = Inr ba' \<Longrightarrow>
   m_position ba' = m_position ba + length bs"
  using ba_write_refines [of ba bs] by auto

text \<open>An integer of 8, 16, 32 or 64 bits is laid out in the byte order of the buffer, most
  significant byte first unless the buffer was set to little endian, whatever the byte order of
  the machine; and it is read back after seeking to where it was written.\<close>

lemma fixed_width_round_trip:
  fixes v :: "'a::len word"
  assumes "LENGTH('a) \<in> {8, 16, 32, 64}" and "ba_wf ba" and "cur_ok ba"
  shows "write_int native v ba =
      ba_write (if isLittleEndain ba then le_bytes (LENGTH('a) div 8) v
                else rev (le_bytes (LENGTH('a) div 8) v)) ba \<and>
    (\<exists>ba1 ba2 ba3. write_int native v ba = Inr ba1 \<and>
      setPosition (m_position ba) ba1 = Inr ba2 \<and> read_int native ba2 = Inr (v, ba3) \<and>
      m_position ba3 = m_position ba + LENGTH('a) div 8)"
proof -
  have width: "int_width TYPE('a word)" using assms(1) by (simp add: int_width_def)
  obtain ba1 ba2 ba3 where w: "write_int native v ba = Inr ba1"
    "setPosition (m_position ba) ba1 = Inr ba2" "read_int native ba2 = Inr (v, ba3)"
    "m_position ba3 = m_position ba1"
    using int_round_trip [OF width, of ba native v] assms(2,3) by (auto simp: ba_ok_def)
  have "m_position ba1 = m_position ba + LENGTH('a) div 8"
    using ba_write_position [OF assms(2,3), of "mem_bytes native _"] w(1) by (simp add: write_int_def)
  with w show ?thesis
    using write_int_bytes [OF width] by (simp add: isLittleEndain_def)
qed

lemma fixed_width_round_trip_example:
  "\<exists>ba1 ba2 ba3.
     write_int XZMJX_Little_Endian (0x01020304 :: u32) (ByteArray_new (\<lambda>_ _. 0) 3) = Inr ba1 \<and>
     setPosition 0 ba1 = Inr ba2 \<and>
     read_int XZMJX_Little_Endian ba2 = Inr (0x01020304 :: u32, ba3) \<and> m_position ba3 = 4"
  using fixed_width_round_trip [of "ByteArray_new (\<lambda>_ _. 0) 3" XZMJX_Little_Endian
      "0x01020304 :: u32", THEN conjunct2]
  by (simp add: wf_ByteArray_new cur_ok_ByteArray_new)

lemma varint_join_take:
  "push_bit i (v AND 0x7F) OR push_bit (i + 7) (take_bit (7 * n) (drop_bit 7 v)) =
   push_bit i (take_bit (7 * Suc n) v)" for v :: u64
proof (rule bit_word_eqI)
  fix k assume "k < LENGTH(64)"
  then show "bit (push_bit i (v AND 0x7F) OR push_bit (i + 7) (take_bit (7 * n) (drop_bit 7 v))) k =
      bit (push_bit i (take_bit (7 * Suc n) v)) k"
    by (cases "k < i + 7") (auto simp: digit_bits bit_take_bit_iff)
qed

text \<open>A byte that ends a block is the last one that is read from its place: what follows is the first byte of
  that block.\<close>

lemma readFuint8_stale:
  assumes "ba_ok ba" and "stale (m_base_size ba) (m_position ba) 1" and "Suc (m_position ba) < m_size ba"
  shows "\<exists>ba1 ba2. readFuint8 ba = Inr (contents ba ! m_position ba, ba1) \<and>
    readFuint8 ba1 = Inr (contents ba ! (Suc (m_position ba) - m_base_size ba), ba2)"
proof -
  have ok: "ba_wf ba" "cur_ok ba" using assms(1) by (auto simp: ba_ok_def)
  have len: "length (contents ba) = m_size ba" by (rule length_contents [OF ok(1)])
  have nth: "hd (take 1 (drop q (contents ba))) = contents ba ! q" if "q < m_size ba" for q
    using that len by (simp add: take_Suc hd_drop_conv_nth)
  obtain ba1 ba2 where "ba_read 1 ba = Inr (take 1 (drop (m_position ba) (contents ba)), ba1)"
      "ba_read 1 ba1 = Inr (take 1 (drop (m_position ba + 1 - m_base_size ba) (contents ba)), ba2)"
    using stale_read_rereads_block [OF ok assms(2), of 1] ba_wfD(1) [OF ok(1)] assms(3) by auto
  then show ?thesis
    using nth [of "m_position ba"] nth [of "Suc (m_position ba) - m_base_size ba"] assms(3)
    by (simp add: readFuint8_def)
qed

lemma readUint64_loop_stale:
  assumes "ba_ok ba" and "drop (m_position ba) (contents ba) = varint64 v @ rest"
    and "i + 7 * Suc j < 64" and "Suc j < length (varint64 v)"
    and "stale (m_base_size ba) (m_position ba + j) 1"
    and "\<forall>l<j. \<not> stale (m_base_size ba) (m_position ba + l) 1"
    and "contents ba ! (m_position ba + Suc j - m_base_size ba) AND 0x80 = 0"
  shows "\<exists>ba'. readUint64_loop i ans ba =
    Inr (ans OR push_bit i (take_bit (7 * Suc j) v) OR
      push_bit (i + 7 * Suc j) (ucast (contents ba ! (m_position ba + Suc j - m_base_size ba))), ba')"
  using assms
proof (induction j arbitrary: v i ans ba)
  case 0
  let ?b = "ucast ((v AND 0x7F) OR 0x80) :: byte" and ?y = "contents ba ! (Suc (m_position ba) - m_base_size ba)"
  have enc: "varint64 v = ?b # varint64 (drop_bit 7 v)"
    using "0.prems"(4) by (subst varint64.simps) (subst (asm) varint64.simps, auto split: if_splits)
  have len: "length (contents ba) = m_size ba" using "0.prems"(1) by (simp add: length_contents ba_ok_def)
  have "length (drop (m_position ba) (contents ba)) > 1" using "0.prems"(2,4) by simp
  then have sz: "Suc (m_position ba) < m_size ba" using len by simp
  have hd: "contents ba ! m_position ba = ?b"
    using "0.prems"(2) enc sz len by (metis Suc_lessD append_Cons hd_drop_conv_nth list.sel(1))
  obtain ba1 ba2 where r: "readFuint8 ba = Inr (?b, ba1)" "readFuint8 ba1 = Inr (?y, ba2)"
    using readFuint8_stale [OF "0.prems"(1) _ sz] "0.prems"(5) hd by auto
  have "readUint64_loop i ans ba = readUint64_loop (i + 7) (ans OR push_bit i (v AND 0x7F)) ba1"
    using "0.prems"(3) r(1) varint_digit_top [of v] varint_digit_low [of v]
    by (subst readUint64_loop.simps) simp
  also have "\<dots> = Inr (ans OR push_bit i (v AND 0x7F) OR push_bit (i + 7) (ucast ?y), ba2)"
    using "0.prems"(3,7) r(2) by (subst readUint64_loop.simps) (simp add: or.assoc)
  finally show ?case by (auto simp: take_bit_eq_mask mask_eq_exp_minus_1 or.assoc)
next
  case (Suc j)
  let ?b = "ucast ((v AND 0x7F) OR 0x80) :: byte" and ?v = "drop_bit 7 v"
  have enc: "varint64 v = ?b # varint64 ?v"
    using Suc.prems(4) by (subst varint64.simps) (subst (asm) varint64.simps, auto split: if_splits)
  have base: "\<not> stale (m_base_size ba) (m_position ba) 1" using Suc.prems(6) by force
  obtain ba1 where r: "readFuint8 ba = Inr (?b, ba1)" "ba_clean ba1 = ba_clean ba" "contents ba1 = contents ba"
      "m_position ba1 = Suc (m_position ba)" "drop (m_position ba1) (contents ba1) = varint64 ?v @ rest"
      "ba_clean ba (m_position ba) 1 \<longrightarrow> ba_ok ba1"
    using readFuint8_prefix [OF Suc.prems(1)] Suc.prems(2) enc by fastforce
  have ok1: "ba_ok ba1" using r(6) base by (simp add: ba_clean_def)
  have b1: "m_base_size ba1 = m_base_size ba"
    using r(1) Suc.prems(1) by (auto simp: readFuint8_def ba_ok_def ba_read_total rbind_eq_Inr split: if_splits)
  have "\<forall>l<j. \<not> stale (m_base_size ba1) (m_position ba1 + l) 1"
    using Suc.prems(6) b1 r(4) by (metis Suc_mono add_Suc add_Suc_right)
  then obtain ba' where "readUint64_loop (i + 7) (ans OR push_bit i (v AND 0x7F)) ba1 =
      Inr ((ans OR push_bit i (v AND 0x7F)) OR push_bit (i + 7) (take_bit (7 * Suc j) ?v) OR
        push_bit (i + 7 + 7 * Suc j) (ucast (contents ba1 ! (m_position ba1 + Suc j - m_base_size ba1))), ba')"
    using Suc.IH [OF ok1 r(5), of "i + 7" "ans OR push_bit i (v AND 0x7F)"] Suc.prems(3,4,5,7) enc r(3,4) b1 by auto
  moreover have "readUint64_loop i ans ba = readUint64_loop (i + 7) (ans OR push_bit i (v AND 0x7F)) ba1"
    using Suc.prems(3) r(1) varint_digit_top [of v] varint_digit_low [of v]
    by (subst readUint64_loop.simps) simp
  moreover have "(ans OR push_bit i (v AND 0x7F)) OR push_bit (i + 7) (take_bit (7 * Suc j) ?v) OR z =
      ans OR push_bit i (take_bit (7 * Suc (Suc j)) v) OR z" for z
    by (simp only: varint_join_take [symmetric] or.assoc)
  moreover have "m_position ba1 + Suc j = m_position ba + Suc (Suc j)" "i + 7 + 7 * Suc j = i + 7 * Suc (Suc j)"
    using r(4) by simp_all
  ultimately show ?case by (auto simp only: r(3) b1)
qed

text \<open>C14: A 64-bit variable-length integer takes at most ten bytes (\<^verbatim>\<open>tmp\<close> has room for ten), and after seeking
  to where it was written it is read back unless a byte of it other than the last is the last byte of a
  block (of more than one byte).  In that case the read goes on, behind that byte, with the first byte of
  the same block instead of the first byte of the next: when that byte is less than 128 the value it
  delivers has the seven low bits of each byte up to the border, and that byte above them.\<close>

theorem varint64_round_trip:
  assumes "ba_wf ba" and "cur_ok ba"
  shows "length (varint64 v) \<le> 10 \<and>
    (\<exists>ba1 ba2. writeUint64 v ba = Inr ba1 \<and> setPosition (m_position ba) ba1 = Inr ba2 \<and>
       ((\<forall>j. Suc j < length (varint64 v) \<longrightarrow> \<not> stale (m_base_size ba) (m_position ba + j) 1) \<longrightarrow>
         (\<exists>ba3. readUint64 ba2 = Inr (v, ba3) \<and> m_position ba3 = m_position ba1)) \<and>
       (\<forall>j y. Suc j < length (varint64 v) \<and> stale (m_base_size ba) (m_position ba + j) 1 \<and>
           (\<forall>l<j. \<not> stale (m_base_size ba) (m_position ba + l) 1) \<and>
           y = contents ba1 ! (m_position ba + Suc j - m_base_size ba) \<and> y < 0x80 \<longrightarrow>
         (\<exists>ba3. readUint64 ba2 = Inr (take_bit (7 * Suc j) v OR push_bit (7 * Suc j) (ucast y), ba3))))"
proof -
  have ok: "ba_ok ba" using assms(1,2) by (simp add: ba_ok_def)
  obtain ba1 ba2 where w: "ba_write (varint64 v) ba = Inr ba1"
    "setPosition (m_position ba) ba1 = Inr ba2" "ba_ok ba2" "ba_clean ba2 = ba_clean ba"
    "m_position ba2 = m_position ba" "m_position ba1 = m_position ba + length (varint64 v)"
    "contents ba2 = overwrite (contents ba) (m_position ba) (varint64 v)"
    using bc.put_seek [OF ok, of "varint64 v"] by metis
  have same: "contents ba2 = contents ba1" "m_base_size ba2 = m_base_size ba"
    using w ba_write_refines [OF assms, of "varint64 v"] ba_wf_setPosition [of ba1 "m_position ba" ba2] by auto
  have len: "length (varint64 v) \<le> 10"
    using unat_bound [of v] length_varint64 [of v 9] by simp
  have dr: "drop (m_position ba2) (contents ba2) =
      varint64 v @ drop (m_position ba + length (varint64 v)) (contents ba)"
    using w(5,7) bc.pos_le [OF ok] by (simp add: overwrite_def)
  have "\<exists>ba3. readUint64 ba2 = Inr (v, ba3) \<and> m_position ba3 = m_position ba1"
    if "\<forall>j. Suc j < length (varint64 v) \<longrightarrow> \<not> stale (m_base_size ba) (m_position ba + j) 1"
    using readUint64_loop_correct [OF w(3) dr, of 0 0] unat_bound [of v] that w(4,5,6)
    by (auto simp: ba_clean_def readUint64_def)
  moreover have "\<exists>ba3. readUint64 ba2 = Inr (take_bit (7 * Suc j) v OR push_bit (7 * Suc j) (ucast y), ba3)"
    if "Suc j < length (varint64 v)" "stale (m_base_size ba) (m_position ba + j) 1"
      "\<forall>l<j. \<not> stale (m_base_size ba) (m_position ba + l) 1"
      "y = contents ba1 ! (m_position ba + Suc j - m_base_size ba)" "y < 0x80" for j y
    using readUint64_loop_stale [OF w(3) dr, of 0 j 0] that w(5) same len varint_last [of y]
    by (simp add: readUint64_def)
  ultimately show ?thesis using w(1,2) len unfolding writeUint64_def by blast
qed

text \<open>300 is read back from a new buffer; behind one byte 5 in a buffer of blocks of two bytes it is read as
  684, which has the low bits of 300 and 5 above them.\<close>

theorem varint64_round_trip_witness:
  "(\<exists>ba1 ba2 ba3. writeUint64 300 (ByteArray_new (\<lambda>_ _. 0) 8) = Inr ba1 \<and> setPosition 0 ba1 = Inr ba2 \<and>
     readUint64 ba2 = Inr (300, ba3) \<and> m_position ba3 = m_position ba1) \<and>
   (\<exists>ba ba1 ba2 ba3. ba_write [5] (ByteArray_new (\<lambda>_ _. 0) 2) = Inr ba \<and> writeUint64 300 ba = Inr ba1 \<and>
     setPosition 1 ba1 = Inr ba2 \<and> readUint64 ba2 = Inr (684, ba3))"
proof
  let ?ba = "ByteArray_new (\<lambda>_ _. 0) 8"
  have len: "length (varint64 300) = 2" by (simp add: varint64.simps)
  then have "\<forall>j. Suc j < length (varint64 300) \<longrightarrow> \<not> stale (m_base_size ?ba) (m_position ?ba + j) 1"
    by (simp add: stale_def)
  moreover have "ba_wf ?ba" "cur_ok ?ba" by (simp_all add: wf_ByteArray_new cur_ok_ByteArray_new)
  ultimately show "\<exists>ba1 ba2 ba3. writeUint64 300 ?ba = Inr ba1 \<and> setPosition 0 ba1 = Inr ba2 \<and>
     readUint64 ba2 = Inr (300, ba3) \<and> m_position ba3 = m_position ba1"
    using varint64_round_trip [of ?ba 300] by auto
  obtain ba where w: "ba_write [5] (ByteArray_new (\<lambda>_ _. 0) 2) = Inr ba" "ba_wf ba" "cur_ok ba"
    "contents ba = [5]" "m_base_size ba = 2" "m_position ba = 1"
    using ba_write_refines [of "ByteArray_new (\<lambda>_ _. 0) 2" "[5]"]
    by (auto simp: wf_ByteArray_new cur_ok_ByteArray_new overwrite_def contents_def)
  obtain ba1 where w1: "writeUint64 300 ba = Inr ba1" "contents ba1 = 5 # varint64 300"
    using ba_write_refines [OF w(2,3), of "varint64 300"] w(4,6) by (auto simp: writeUint64_def overwrite_def)
  have "Suc 0 < length (varint64 300) \<and> stale (m_base_size ba) (m_position ba + 0) 1 \<and>
      (\<forall>l<0. \<not> stale (m_base_size ba) (m_position ba + l) 1) \<and>
      5 = contents ba1 ! (m_position ba + Suc 0 - m_base_size ba) \<and> (5 :: byte) < 0x80"
    using len w(5,6) w1(2) by (simp add: stale_def)
  then obtain ba2 ba3 where "setPosition 1 ba1 = Inr ba2"
      "readUint64 ba2 = Inr (take_bit (7 * Suc 0) 300 OR push_bit (7 * Suc 0) (ucast (5 :: byte)), ba3)"
    using varint64_round_trip [OF w(2,3), of 300] w(6) w1(1) by fastforce
  then show "\<exists>ba ba1 ba2 ba3. ba_write [5] (ByteArray_new (\<lambda>_ _. 0) 2) = Inr ba \<and> writeUint64 300 ba = Inr ba1 \<and>
     setPosition 1 ba1 = Inr ba2 \<and> readUint64 ba2 = Inr (684, ba3)"
    using w(1) w1(1) by (simp add: push_bit_eq_mult take_bit_eq_mod)
qed

lemma uint_zigzag_negative:
  assumes "sint (v :: 'a::len word) < 0"
  shows "uint ((- v) * 2 - 1) = - 2 * sint v - 1"
proof -
  have "(- v) * 2 - 1 = word_of_int (- 2 * sint v - 1)" by simp
  moreover have "- 2 * sint v - 1 < 2 ^ LENGTH('a)"
    using sint_ge [of v] power_Suc [of "2 :: int" "LENGTH('a) - 1"] by simp
  ultimately show ?thesis using assms by (simp only: uint_word_of_int) simp
qed

lemma uint_zigzag_nonnegative:
  assumes "\<not> sint (v :: 'a::len word) < 0"
  shows "uint (v * 2) = 2 * sint v"
proof -
  have "v * 2 = word_of_int (2 * sint v)" by simp
  moreover have "2 * sint v < 2 ^ LENGTH('a)"
    using sint_lt [of v] power_Suc [of "2 :: int" "LENGTH('a) - 1"] by simp
  ultimately show ?thesis using assms by (simp only: uint_word_of_int) simp
qed

text \<open>Zigzag numbers the integers 0, -1, 1, -2, 2 and so on, and decoding inverts it, at both
  widths and for every value.\<close>

lemma zigzag_numbering:
  "uint (EncodeZigzag32 a) = (if sint a < 0 then - 2 * sint a - 1 else 2 * sint a) \<and>
   uint (EncodeZigzag64 b) = (if sint b < 0 then - 2 * sint b - 1 else 2 * sint b) \<and>
   DecodeZigzag32 (EncodeZigzag32 a) = a \<and> DecodeZigzag64 (EncodeZigzag64 b) = b"
proof (intro conjI)
  show "uint (EncodeZigzag32 a) = (if sint a < 0 then - 2 * sint a - 1 else 2 * sint a)"
    using uint_zigzag_negative [of a] uint_zigzag_nonnegative [of a]
    unfolding EncodeZigzag32_def by presburger
  show "uint (EncodeZigzag64 b) = (if sint b < 0 then - 2 * sint b - 1 else 2 * sint b)"
    using uint_zigzag_negative [of b] uint_zigzag_nonnegative [of b]
    unfolding EncodeZigzag64_def by presburger
qed simp_all

lemma append_seek:
  assumes "ba_wf ba" and "cur_ok ba" and "m_position ba = m_size ba"
  shows "\<exists>ba1 ba2. ba_write bs ba = Inr ba1 \<and> setPosition (m_position ba) ba1 = Inr ba2 \<and>
     ba_ok ba2 \<and> m_position ba2 = m_position ba \<and> m_endian ba2 = m_endian ba \<and>
     ba_clean ba2 = ba_clean ba \<and> drop (m_position ba2) (contents ba2) = bs"
proof -
  have ok: "ba_ok ba" using assms(1,2) by (simp add: ba_ok_def)
  obtain ba1 ba2 where w: "ba_write bs ba = Inr ba1" "setPosition (m_position ba) ba1 = Inr ba2"
    "ba_ok ba2" "m_endian ba2 = m_endian ba" "ba_clean ba2 = ba_clean ba"
    "m_position ba2 = m_position ba" "contents ba2 = overwrite (contents ba) (m_position ba) bs"
    using bc.put_seek [OF ok, of bs] by metis
  moreover have "drop (m_position ba2) (contents ba2) = bs"
    using w(6,7) assms(3) length_contents [OF assms(1)] by (simp add: overwrite_def)
  ultimately show ?thesis by blast
qed

lemma readFuint8_end:
  assumes "ba_ok ba" and "drop (m_position ba) (contents ba) = [b]"
  shows "\<exists>ba'. readFuint8 ba = Inr (b, ba') \<and> readFuint8 ba' = Inl OutOfRange"
proof -
  obtain ba' where r: "readFuint8 ba = Inr (b, ba')" "contents ba' = contents ba"
    "drop (m_position ba') (contents ba') = []" "m_position ba' = Suc (m_position ba)"
    using readFuint8_prefix [OF assms] by blast
  have wf: "ba_wf ba" "cur_ok ba" using assms(1) by (auto simp: ba_ok_def)
  have "m_position ba < m_size ba" using assms(2) length_contents [OF wf(1)]
    by (metis drop_all list.distinct(1) not_less)
  moreover have "m_size ba' = m_size ba"
    using r(1) wf by (auto simp: readFuint8_def ba_read_total rbind_eq_Inr split: if_splits)
  ultimately have "getReadSize ba' = 0"
    using r(2,3,4) length_contents [OF wf(1)] by (simp add: getReadSize_def)
  then have "readFuint8 ba' = Inl OutOfRange" by (simp add: readFuint8_def ba_read_def)
  with r(1) show ?thesis by blast
qed

text \<open>\<^verbatim>\<open>readUint32\<close> tests the continuation bit the wrong way round: whatever 32-bit value is
  appended with \<^verbatim>\<open>writeUint32\<close>, reading it back fails.  A value below 128 makes the read run off
  the data (\<^verbatim>\<open>std::out_of_range\<close>), any other value loses all but its low seven bits.\<close>

lemma readUint32_never_reads_back:
  assumes "ba_wf ba" and "cur_ok ba" and "m_position ba = m_size ba"
  shows "\<exists>ba1 ba2. writeUint32 v ba = Inr ba1 \<and> setPosition (m_position ba) ba1 = Inr ba2 \<and>
     (if v < 0x80 then readUint32 ba2 = Inl OutOfRange
      else \<exists>ba3. readUint32 ba2 = Inr (v AND 0x7F, ba3) \<and> v AND 0x7F \<noteq> v)"
proof -
  obtain ba1 ba2 where w: "ba_write (varint32 v) ba = Inr ba1"
    "setPosition (m_position ba) ba1 = Inr ba2" "ba_ok ba2"
    "drop (m_position ba2) (contents ba2) = varint32 v"
    using append_seek [OF assms, of "varint32 v"] by blast
  show ?thesis
  proof (cases "v < 0x80")
    case True
    then have "drop (m_position ba2) (contents ba2) = [ucast v]"
      using w(4) by (subst (asm) varint32.simps) simp
    then obtain ba3 where r: "readFuint8 ba2 = Inr (ucast v, ba3)" "readFuint8 ba3 = Inl OutOfRange"
      using readFuint8_end [OF w(3)] by blast
    have "readUint32_loop 7 x ba3 = Inl OutOfRange" for x
      using r(2) by (subst readUint32_loop.simps) simp
    then have "readUint32 ba2 = Inl OutOfRange"
      using r(1) varint_last [of v] True unfolding readUint32_def
      by (subst readUint32_loop.simps) simp
    then show ?thesis using w True by (auto simp: writeUint32_def)
  next
    case False
    let ?b = "ucast ((v AND 0x7F) OR 0x80) :: byte"
    have "drop (m_position ba2) (contents ba2) = ?b # varint32 (drop_bit 7 v)"
      using w(4) False by (subst (asm) varint32.simps) (simp add: not_less)
    then obtain ba3 where "readFuint8 ba2 = Inr (?b, ba3)"
      using readFuint8_prefix [OF w(3)] by blast
    then have "readUint32 ba2 = Inr (v AND 0x7F, ba3)"
      using varint_digit_top [of v] varint_digit_low [of v] unfolding readUint32_def
      by (subst readUint32_loop.simps) simp
    moreover have "v AND 0x7F \<noteq> v"
      using False word_and_le1 [of v "0x7F"] by (intro notI) (simp add: not_less word_le_nat_alt)
    ultimately show ?thesis using w False by (auto simp: writeUint32_def)
  qed
qed

lemma readUint32_never_reads_back_example:
  "\<exists>ba1 ba2. writeUint32 5 (ByteArray_new (\<lambda>_ _. 0) 8) = Inr ba1 \<and> setPosition 0 ba1 = Inr ba2 \<and>
     readUint32 ba2 = Inl OutOfRange"
  using readUint32_never_reads_back [of "ByteArray_new (\<lambda>_ _. 0) 8" 5]
  by (simp add: wf_ByteArray_new cur_ok_ByteArray_new)

text \<open>A non-empty string of fewer than \<open>2 ^ 16\<close> bytes written with its 16-bit length, and one
  of fewer than \<open>2 ^ 32\<close> bytes written with its 32-bit length, is read back after seeking to
  where it was written, provided the length does not end exactly with a block it started inside.\<close>

lemma string_length_prefix_round_trip:
  assumes "ba_wf ba" and "cur_ok ba" and "s \<noteq> []"
    and "w = 2 \<and> length s < 2 ^ 16 \<or> w = 4 \<and> length s < 2 ^ 32"
    and "\<not> stale (m_base_size ba) (m_position ba) w"
  shows "\<exists>ba1 ba2 ba3.
     (if w = 2 then writeStringF16 native s ba else writeStringF32 native s ba) = Inr ba1 \<and>
     setPosition (m_position ba) ba1 = Inr ba2 \<and>
     (if w = 2 then readStringF16 native ba2 else readStringF32 native ba2) = Inr (s, ba3) \<and>
     m_position ba3 = m_position ba1"
proof -
  have ok: "ba_ok ba" and clean: "ba_clean ba (m_position ba) w"
    using assms(1,2,5) by (auto simp: ba_ok_def ba_clean_def)
  show ?thesis
  proof (cases "w = 2")
    case True
    then have "unat (word_of_nat (length s) :: u16) = length s"
      using assms(4) by (simp add: unat_of_nat take_bit_nat_eq_self_iff)
    from string_round_trip [OF _ ok assms(3) this, where native = native] clean True show ?thesis
      by (fastforce simp: writeStringF16_def writeFuint16_def readStringF16_def readFint16_def)
  next
    case False
    then have w4: "w = 4" and "unat (word_of_nat (length s) :: u32) = length s"
      using assms(4) by (auto simp: unat_of_nat take_bit_nat_eq_self_iff)
    from string_round_trip [OF _ ok assms(3) this(2), where native = native] clean w4 show ?thesis
      by (fastforce simp: writeStringF32_def writeFuint32_def readStringF32_def readFint32_def)
  qed
qed

lemma string_length_prefix_round_trip_example:
  "\<exists>ba1 ba2 ba3. writeStringF16 XZMJX_Big_Endian [104, 105] (ByteArray_new (\<lambda>_ _. 0) 4) = Inr ba1 \<and>
     setPosition 0 ba1 = Inr ba2 \<and> readStringF16 XZMJX_Big_Endian ba2 = Inr ([104, 105], ba3)"
  using string_length_prefix_round_trip [of "ByteArray_new (\<lambda>_ _. 0) 4" "[104, 105]" 2
      XZMJX_Big_Endian]
  by (auto simp: wf_ByteArray_new cur_ok_ByteArray_new stale_def)

lemma F64_header_zero:
  assumes "n < 2 ^ 48"
  shows "take 2 (rev (le_bytes 8 (word_of_nat n :: u64))) = [0, 0]"
proof -
  have "\<not> bit (word_of_nat n :: u64) k" if "48 \<le> k" for k
  proof -
    have "n < 2 ^ k" using assms power_increasing [OF that, of "2 :: nat"] by simp
    then have "\<not> bit n k" by (simp add: bit_iff_odd)
    then show ?thesis by (simp add: bit_simps)
  qed
  then have "(ucast (drop_bit 56 (word_of_nat n :: u64)) :: byte) = 0"
    "(ucast (drop_bit 48 (word_of_nat n :: u64)) :: byte) = 0"
    by (auto intro!: bit_word_eqI simp: bit_simps)
  then show ?thesis by (simp add: eval_nat_numeral)
qed

lemma ba_read_nothing:
  assumes "ba_wf ba" and "cur_ok ba" and "m_position ba < m_size ba"
  shows "\<exists>ba'. ba_read 0 ba = Inr ([], ba') \<and> m_position ba' = m_position ba"
proof -
  have "m_position ba \<noteq> m_capacity ba" using assms(3) ba_wfD(6) [OF assms(1)] by linarith
  then show ?thesis by (simp add: ba_read_total [OF assms(1,2)])
qed

text \<open>\<^verbatim>\<open>readStringF64\<close> reads the eight-byte length as two bytes: a string appended with
  \<^verbatim>\<open>writeStringF64\<close> to a big-endian buffer, however long (below \<open>2 ^ 48\<close> bytes), is read back as
  the empty string, and the position is left six bytes before the string.\<close>

lemma readStringF64_reads_empty:
  assumes "ba_wf ba" and "cur_ok ba" and "m_position ba = m_size ba"
    and "m_endian ba = XZMJX_Big_Endian" and "length s < 2 ^ 48"
    and "\<not> stale (m_base_size ba) (m_position ba) 2"
  shows "\<exists>ba1 ba2 ba3. writeStringF64 native s ba = Inr ba1 \<and>
     setPosition (m_position ba) ba1 = Inr ba2 \<and> readStringF64 native ba2 = Inr ([], ba3) \<and>
     m_position ba3 = m_position ba + 2"
proof -
  have ok: "ba_ok ba" using assms(1,2) by (simp add: ba_ok_def)
  let ?h = "rev (le_bytes 8 (word_of_nat (length s) :: u64))"
  obtain ba0 where h: "ba_write ?h ba = Inr ba0" "ba_ok ba0" "m_endian ba0 = m_endian ba"
    "ba_clean ba0 = ba_clean ba" "contents ba0 = overwrite (contents ba) (m_position ba) ?h"
    "m_position ba0 = m_position ba + 8"
    using bc.wr_law [OF ok, of ?h] by auto
  obtain ba1 where w: "ba_write s ba0 = Inr ba1" "ba_ok ba1" "m_endian ba1 = m_endian ba0"
    "ba_clean ba1 = ba_clean ba0" "contents ba1 = overwrite (contents ba0) (m_position ba0) s"
    using bc.wr_law [OF h(2), of s] by auto
  have c1: "contents ba1 = contents ba @ ?h @ s"
    using w(5) h(5,6) assms(3) length_contents [OF assms(1)] by (simp add: overwrite_def)
  then have "m_position ba \<le> length (contents ba1)"
    using assms(3) length_contents [OF assms(1)] by simp
  then obtain ba2 where p: "setPosition (m_position ba) ba1 = Inr ba2" "ba_ok ba2"
    "m_endian ba2 = m_endian ba1" "ba_clean ba2 = ba_clean ba1" "contents ba2 = contents ba1"
    "m_position ba2 = m_position ba"
    using bc.seek_law [OF w(2)] by blast
  have d2: "drop (m_position ba2) (contents ba2) = take 2 ?h @ drop 2 ?h @ s"
    using p(5,6) c1 assms(3) length_contents [OF assms(1)] by simp
  obtain ba3 where r: "ba_read 2 ba2 = Inr ([0, 0], ba3)" "m_endian ba3 = m_endian ba2"
    "drop (m_position ba3) (contents ba3) = drop 2 ?h @ s" "m_position ba3 = m_position ba + 2"
    "ba_ok ba3"
    using bc.rd_prefix [OF p(2), of "[0, 0]" "drop 2 ?h @ s"] d2 F64_header_zero [OF assms(5)]
      assms(6) p(4,6) w(4) h(4) by (auto simp: ba_clean_def numeral_2_eq_2)
  have "drop (m_position ba3) (contents ba3) \<noteq> []"
    unfolding r(3) by (auto dest!: arg_cong [of _ _ length])
  then have "m_position ba3 < m_size ba3"
    using r(5) length_contents by (metis ba_ok_def drop_all not_less)
  then obtain ba4 where "ba_read 0 ba3 = Inr ([], ba4)" "m_position ba4 = m_position ba3"
    using ba_read_nothing r(5) by (auto simp: ba_ok_def)
  moreover have "readFint16 native ba2 = Inr (0, ba3)"
  proof -
    have zero: "mem_word native [0, 0] = (0 :: u16)" by (simp add: mem_word_def)
    have "EndianCastByType native (0 :: u16) t = 0" for t
      by (simp add: EndianCastByType_def ByteSwap_def)
    then show ?thesis using r(1) zero by (simp add: readFint16_def read_int_def)
  qed
  moreover have "writeStringF64 native s ba = Inr ba1"
    using h(1) w(1) assms(4) by (simp add: writeStringF64_def writeFuint64_def write_int_bytes)
  ultimately show ?thesis using p(1) r(4) by (auto simp: readStringF64_def)
qed

lemma readStringF64_reads_empty_example:
  "\<exists>ba1 ba2 ba3. writeStringF64 XZMJX_Little_Endian [104, 105] (ByteArray_new (\<lambda>_ _. 0) 64) = Inr ba1 \<and>
     setPosition 0 ba1 = Inr ba2 \<and> readStringF64 XZMJX_Little_Endian ba2 = Inr ([], ba3) \<and>
     m_position ba3 = 0 + 2"
  using readStringF64_reads_empty [of "ByteArray_new (\<lambda>_ _. 0) 64" "[104, 105]" XZMJX_Little_Endian]
  by (simp add: wf_ByteArray_new cur_ok_ByteArray_new stale_def)

end
