(* ===== verification/Bitmaps.thy ===== *)
theory Bitmaps
  imports Prelude
begin

text \<open>
  The bit set \<^verbatim>\<open>ds::Bitmap\<close> and the Bloom filter on top of it (\<^verbatim>\<open>ds/bitmap.h\<close>,
  \<^verbatim>\<open>ds/bitmap.cpp\<close>, \<^verbatim>\<open>ds/bloomfilter.h\<close>, \<^verbatim>\<open>ds/bloomfilter.cpp\<close>).  The cells are 16-bit words,
  as the default of \<^verbatim>\<open>BITMAP_TYPE\<close> says; several operations work on four cells at a time through a
  64-bit pointer, which the model follows.  The hash function is a parameter of the Bloom filter.
  \<^verbatim>\<open>std::out_of_range\<close>, \<^verbatim>\<open>std::logic_error\<close>, a null pointer and a division by zero are errors.
\<close>

section \<open>Bitmap\<close>

datatype bm_error = BmOutOfRange | BmLogicError | BmNull | BmDivByZero

record Bitmap =
  m_size :: nat
  m_dataSize :: nat
  m_data :: "u16 list option"

definition POS :: "nat \<Rightarrow> u16" where
  "POS i = push_bit i 1"

definition NPOS :: "nat \<Rightarrow> u16" where
  "NPOS i = NOT (push_bit i 1)"

definition Bitmap_new :: "nat \<Rightarrow> byte \<Rightarrow> Bitmap" where
  "Bitmap_new sz def =
     (let n = (sz + 15) div 16
      in \<lparr>m_size = sz, m_dataSize = n, m_data = Some (replicate n (push_bit 8 (ucast def) OR ucast def))\<rparr>)"

definition Bitmap_empty :: Bitmap where
  "Bitmap_empty = \<lparr>m_size = 0, m_dataSize = 0, m_data = None\<rparr>"

text \<open>The cells that are there; every access of \<^verbatim>\<open>m_data\<close> is below \<^verbatim>\<open>m_dataSize\<close>.\<close>

definition cells :: "Bitmap \<Rightarrow> u16 list" where
  "cells b = (case m_data b of None \<Rightarrow> [] | Some d \<Rightarrow> d)"

definition bm_get :: "nat \<Rightarrow> Bitmap \<Rightarrow> bm_error + bool" where
  "bm_get idx b =
     (let cur = idx div 16; pos = idx mod 16 in
      if cur \<ge> m_dataSize b then Inl BmOutOfRange
      else Inr (cells b ! cur AND POS pos \<noteq> 0))"

definition bm_set :: "nat \<Rightarrow> bool \<Rightarrow> Bitmap \<Rightarrow> bm_error + Bitmap" where
  "bm_set idx v b =
     (let cur = idx div 16; pos = idx mod 16 in
      if cur \<ge> m_dataSize b then Inl BmOutOfRange
      else if v then Inr (b\<lparr>m_data := Some ((cells b)[cur := cells b ! cur OR POS pos])\<rparr>)
      else Inr (b\<lparr>m_data := Some ((cells b)[cur := cells b ! cur AND NPOS pos])\<rparr>))"

definition bm_any :: "Bitmap \<Rightarrow> bool" where
  "bm_any b = (case m_data b of None \<Rightarrow> False | Some d \<Rightarrow> list_ex (\<lambda>c. c \<noteq> 0) (take (m_dataSize b) d))"

text \<open>Four cells as one 64-bit word, on a little-endian machine.\<close>

definition get64 :: "u16 list \<Rightarrow> nat \<Rightarrow> u64" where
  "get64 d i = ucast (d ! (4 * i)) OR push_bit 16 (ucast (d ! (4 * i + 1))) OR
     push_bit 32 (ucast (d ! (4 * i + 2))) OR push_bit 48 (ucast (d ! (4 * i + 3)))"

definition put64 :: "u16 list \<Rightarrow> nat \<Rightarrow> u64 \<Rightarrow> u16 list" where
  "put64 d i v = d[4 * i := ucast v, 4 * i + 1 := ucast (drop_bit 16 v),
     4 * i + 2 := ucast (drop_bit 32 v), 4 * i + 3 := ucast (drop_bit 48 v)]"

text \<open>\<^verbatim>\<open>__builtin_popcount\<close> counts the bits of a 32-bit word.\<close>

definition popcount :: "u32 \<Rightarrow> nat" where
  "popcount v = length (filter (bit v) [0..<32])"

definition countBits :: "u64 \<Rightarrow> nat" where
  "countBits v = popcount (ucast (v AND 0xFFFFFFFF)) + popcount (ucast (drop_bit 32 v))"

text \<open>The two loops of \<^verbatim>\<open>getCount\<close>: over the 64-bit words, then over the cells that are left, each
  bit by bit while \<^verbatim>\<open>cur_pos\<close> is below the size.\<close>

fun count64 :: "u16 list \<Rightarrow> nat \<Rightarrow> nat \<Rightarrow> nat" where
  "count64 d i 0 = 0"
| "count64 d i (Suc n) = countBits (get64 d i) + count64 d (Suc i) n"

function count_bits_of :: "u16 \<Rightarrow> nat \<Rightarrow> nat \<Rightarrow> nat \<Rightarrow> nat \<times> nat" where
  "count_bits_of tmp sz n cur_pos =
     (if n < 16 \<and> cur_pos < sz then
        let (c, p) = count_bits_of tmp sz (Suc n) (Suc cur_pos)
        in ((if tmp AND POS n \<noteq> 0 then Suc c else c), p)
      else (0, cur_pos))"
  by pat_completeness auto
termination
  by (relation "measure (\<lambda>(tmp, sz, n, cur_pos). 16 - n)") auto

fun count_tail :: "u16 list \<Rightarrow> nat \<Rightarrow> nat \<Rightarrow> nat" where
  "count_tail [] sz cur_pos = 0"
| "count_tail (tmp # ts) sz cur_pos =
     (if tmp \<noteq> 0 then let (c, p) = count_bits_of tmp sz 0 cur_pos in c + count_tail ts sz p
      else count_tail ts sz (cur_pos + 16))"

definition getCount :: "Bitmap \<Rightarrow> nat" where
  "getCount b =
     (let len = m_dataSize b div 4
      in count64 (cells b) 0 len +
         count_tail (drop (len * 4) (take (m_dataSize b) (cells b))) (m_size b) (len * 64))"

definition bm_assign :: "Bitmap \<Rightarrow> Bitmap \<Rightarrow> Bitmap" where
  "bm_assign b rhs = b\<lparr>m_dataSize := m_dataSize rhs, m_size := m_size rhs,
     m_data := Some (take (m_dataSize rhs) (cells rhs))\<rparr>"

text \<open>The combination loops, first by 64-bit words, then by cells.\<close>

fun loop64 :: "(u64 \<Rightarrow> u64 \<Rightarrow> u64) \<Rightarrow> u16 list \<Rightarrow> nat \<Rightarrow> nat \<Rightarrow> u16 list \<Rightarrow> u16 list" where
  "loop64 f r i 0 d = d"
| "loop64 f r i (Suc n) d = loop64 f r (Suc i) n (put64 d i (f (get64 d i) (get64 r i)))"

fun loop16 :: "(u16 \<Rightarrow> u16 \<Rightarrow> u16) \<Rightarrow> u16 list \<Rightarrow> nat \<Rightarrow> nat \<Rightarrow> u16 list \<Rightarrow> u16 list" where
  "loop16 f r i 0 d = d"
| "loop16 f r i (Suc n) d = loop16 f r (Suc i) n (d[i := f (d ! i) (r ! i)])"

definition combine ::
  "(u64 \<Rightarrow> u64 \<Rightarrow> u64) \<Rightarrow> (u16 \<Rightarrow> u16 \<Rightarrow> u16) \<Rightarrow> Bitmap \<Rightarrow> u16 list \<Rightarrow> Bitmap" where
  "combine f g b r =
     (let maxSize = m_size b div 64; d = loop64 f r 0 maxSize (cells b)
      in b\<lparr>m_data := map_option (\<lambda>_. loop16 g r (maxSize * 4) (m_dataSize b - maxSize * 4) d) (m_data b)\<rparr>)"

definition bm_and_assign :: "Bitmap \<Rightarrow> Bitmap \<Rightarrow> bm_error + Bitmap" where
  "bm_and_assign b rhs =
     (if m_size b \<noteq> m_size rhs then Inl BmLogicError else Inr (combine (AND) (AND) b (cells rhs)))"

definition bm_or_assign :: "Bitmap \<Rightarrow> Bitmap \<Rightarrow> bm_error + Bitmap" where
  "bm_or_assign b rhs =
     (if m_size b \<noteq> m_size rhs then Inl BmLogicError else Inr (combine (OR) (OR) b (cells rhs)))"

definition Bitmap_copy :: "Bitmap \<Rightarrow> Bitmap" where
  "Bitmap_copy rhs = rhs\<lparr>m_data := Some (take (m_dataSize rhs) (cells rhs))\<rparr>"

definition bm_and :: "Bitmap \<Rightarrow> Bitmap \<Rightarrow> bm_error + Bitmap" where
  "bm_and b rhs = bm_and_assign (Bitmap_copy b) rhs"

definition bm_or :: "Bitmap \<Rightarrow> Bitmap \<Rightarrow> bm_error + Bitmap" where
  "bm_or b rhs = bm_or_assign (Bitmap_copy b) rhs"

text \<open>The complement changes the bitmap itself and flips the bits behind its size, too.\<close>

definition bm_not :: "Bitmap \<Rightarrow> Bitmap" where
  "bm_not b = combine (\<lambda>x _. NOT x) (\<lambda>x _. NOT x) b (cells b)"

definition bm_eq :: "Bitmap \<Rightarrow> Bitmap \<Rightarrow> bool" where
  "bm_eq b rhs \<longleftrightarrow> m_size b = m_size rhs \<and> m_dataSize b = m_dataSize rhs \<and>
     take (m_dataSize b) (cells b) = take (m_dataSize rhs) (cells rhs)"

definition bm_toString :: "Bitmap \<Rightarrow> string" where
  "bm_toString b = ''[size='' @ dec (m_size b) @ '' data_size='' @ dec (m_dataSize b) @ '' data='' @
     concat (map (\<lambda>i. (if i \<noteq> 0 then '','' else []) @ dec (unat (cells b ! i))) [0..<m_dataSize b]) @ '']''"

section \<open>Bloom filter\<close>

record BloomFilter =
  m_bitsPerKey :: u32
  m_hashCnt :: nat
  bf_size :: u32
  bf_data :: Bitmap

definition BloomFilter_new :: "int \<Rightarrow> int \<Rightarrow> BloomFilter" where
  "BloomFilter_new bitsPerKey n =
     (let bpk = word_of_int bitsPerKey :: u32;
          cnt = unat bpk * 69 div 100;
          cnt = (if cnt < 1 then 1 else cnt);
          cnt = (if cnt > 30 then 30 else cnt);
          sz = word_of_int n * bpk
      in \<lparr>m_bitsPerKey = bpk, m_hashCnt = cnt, bf_size = sz, bf_data = Bitmap_new (unat sz) 0\<rparr>)"

definition rotate17 :: "u32 \<Rightarrow> u32" where
  "rotate17 h = drop_bit 17 h OR push_bit 15 h"

fun add_loop :: "nat \<Rightarrow> u32 \<Rightarrow> u32 \<Rightarrow> u32 \<Rightarrow> Bitmap \<Rightarrow> bm_error + Bitmap" where
  "add_loop 0 h delta sz b = Inr b"
| "add_loop (Suc j) h delta sz b =
     (if sz = 0 then Inl BmDivByZero
      else rbind (bm_set (unat (h mod sz)) True b) (add_loop j (h + delta) delta sz))"

definition bf_add :: "(string \<Rightarrow> u32) \<Rightarrow> string \<Rightarrow> BloomFilter \<Rightarrow> bm_error + BloomFilter" where
  "bf_add hash key f =
     (let h = hash key in
      rbind (add_loop (m_hashCnt f) h (rotate17 h) (bf_size f) (bf_data f)) (\<lambda>b.
      Inr (f\<lparr>bf_data := b\<rparr>)))"

text \<open>As in the source, a bit that is set ends the test with \<^verbatim>\<open>false\<close>.\<close>

fun match_loop :: "nat \<Rightarrow> u32 \<Rightarrow> u32 \<Rightarrow> u32 \<Rightarrow> Bitmap \<Rightarrow> bm_error + bool" where
  "match_loop 0 h delta sz b = Inr True"
| "match_loop (Suc j) h delta sz b =
     (if sz = 0 then Inl BmDivByZero
      else rbind (bm_get (unat (h mod sz)) b) (\<lambda>v.
        if v then Inr False else match_loop j (h + delta) delta sz b))"

definition mayMatch :: "(string \<Rightarrow> u32) \<Rightarrow> string \<Rightarrow> BloomFilter \<Rightarrow> bm_error + bool" where
  "mayMatch hash key f =
     (let h = hash key in match_loop (m_hashCnt f) h (rotate17 h) (bf_size f) (bf_data f))"

declare count_bits_of.simps [simp del]


section \<open>Single bits\<close>

definition bm_wf :: "Bitmap \<Rightarrow> bool" where
  "bm_wf b \<longleftrightarrow> (\<exists>d. m_data b = Some d \<and> length d = m_dataSize b) \<and> m_dataSize b = (m_size b + 15) div 16"

definition bm_bit :: "Bitmap \<Rightarrow> nat \<Rightarrow> bool" where
  "bm_bit b i = bit (cells b ! (i div 16)) (i mod 16)"

lemma bm_wfD: "bm_wf b \<Longrightarrow> length (cells b) = m_dataSize b" "bm_wf b \<Longrightarrow> m_data b = Some (cells b)"
  "bm_wf b \<Longrightarrow> m_dataSize b = (m_size b + 15) div 16"
  by (auto simp: bm_wf_def cells_def)

lemma POS_bit: "c AND POS p \<noteq> 0 \<longleftrightarrow> bit c p"
  by (simp add: POS_def bit_iff_and_push_bit_not_eq_0)

lemma bm_wf_new: "bm_wf (Bitmap_new sz x)"
  by (simp add: bm_wf_def Bitmap_new_def Let_def)

lemma bm_get_eq:
  assumes "i < 16 * m_dataSize b"
  shows "bm_get i b = Inr (bm_bit b i)"
proof -
  have "i div 16 < m_dataSize b" using assms by (simp add: less_mult_imp_div_less mult.commute)
  then show ?thesis by (simp add: bm_get_def bm_bit_def POS_bit Let_def)
qed

lemma bm_set_eq:
  assumes "bm_wf b" and "i < 16 * m_dataSize b"
  shows "\<exists>b'. bm_set i v b = Inr b' \<and> bm_wf b' \<and> m_size b' = m_size b \<and> m_dataSize b' = m_dataSize b \<and>
     (\<forall>j < 16 * m_dataSize b. bm_bit b' j = (if j = i then v else bm_bit b j))"
proof -
  let ?k = "i div 16" and ?p = "i mod 16" and ?d = "cells b"
  have k: "?k < m_dataSize b" using assms(2) by (simp add: less_mult_imp_div_less mult.commute)
  define c where "c = (if v then ?d ! ?k OR POS ?p else ?d ! ?k AND NPOS ?p)"
  let ?b = "b\<lparr>m_data := Some (?d[?k := c])\<rparr>"
  have bits: "bit c q = (if q = ?p then v else bit (?d ! ?k) q)" if "q < 16" for q
    using that by (auto simp: c_def POS_def NPOS_def bit_simps)
  have "bm_bit ?b j = (if j = i then v else bm_bit b j)" if "j < 16 * m_dataSize b" for j
  proof (cases "j div 16 = ?k")
    case True
    then have "j = i \<longleftrightarrow> j mod 16 = ?p" by (metis div_mult_mod_eq)
    then show ?thesis using True k bits [of "j mod 16"] bm_wfD(1) [OF assms(1)]
      by (simp add: bm_bit_def cells_def)
  next
    case False
    then show ?thesis by (auto simp: bm_bit_def cells_def)
  qed
  moreover have "bm_set i v b = Inr ?b" using k by (simp add: bm_set_def Let_def c_def)
  moreover have "bm_wf ?b" using assms(1) bm_wfD(1) [OF assms(1)] by (simp add: bm_wf_def)
  ultimately show ?thesis by auto
qed

section \<open>What the Bloom filter needs of a bit set\<close>

fun write_all :: "(nat \<Rightarrow> bool \<Rightarrow> 'b \<Rightarrow> 'e + 'b) \<Rightarrow> nat list \<Rightarrow> 'b \<Rightarrow> 'e + 'b" where
  "write_all wr [] b = Inr b"
| "write_all wr (p # ps) b = rbind (wr p True b) (write_all wr ps)"

fun none_set :: "(nat \<Rightarrow> 'b \<Rightarrow> 'e + bool) \<Rightarrow> nat list \<Rightarrow> 'b \<Rightarrow> 'e + bool" where
  "none_set rd [] b = Inr True"
| "none_set rd (p # ps) b = rbind (rd p b) (\<lambda>v. if v then Inr False else none_set rd ps b)"

locale bit_store =
  fixes rd :: "nat \<Rightarrow> 'b \<Rightarrow> 'e + bool"
    and wr :: "nat \<Rightarrow> bool \<Rightarrow> 'b \<Rightarrow> 'e + 'b"
    and ok :: "'b \<Rightarrow> bool"
    and len :: "'b \<Rightarrow> nat"
    and at :: "'b \<Rightarrow> nat \<Rightarrow> bool"
  assumes rd_law: "ok b \<Longrightarrow> i < len b \<Longrightarrow> rd i b = Inr (at b i)"
    and wr_law: "ok b \<Longrightarrow> i < len b \<Longrightarrow> \<exists>b'. wr i v b = Inr b' \<and> ok b' \<and> len b' = len b \<and>
      (\<forall>j < len b. at b' j = (if j = i then v else at b j))"
begin

lemma write_all_sets:
  assumes "ok b" and "\<forall>p \<in> set ps. p < len b"
  shows "\<exists>b'. write_all wr ps b = Inr b' \<and> ok b' \<and> len b' = len b \<and>
     (\<forall>j < len b. at b' j \<longleftrightarrow> j \<in> set ps \<or> at b j)"
  using assms
proof (induction ps arbitrary: b)
  case (Cons p ps)
  then obtain b1 where b1: "wr p True b = Inr b1" "ok b1" "len b1 = len b"
    "\<forall>j < len b. at b1 j = (if j = p then True else at b j)"
    using wr_law [of b p True] by auto
  then obtain b2 where "write_all wr ps b1 = Inr b2" "ok b2" "len b2 = len b1"
    "\<forall>j < len b1. at b2 j \<longleftrightarrow> j \<in> set ps \<or> at b1 j"
    using Cons.IH [of b1] Cons.prems(2) by auto
  then show ?case using b1 by auto
qed auto

lemma none_set_eq:
  assumes "ok b" and "\<forall>p \<in> set ps. p < len b"
  shows "none_set rd ps b = Inr (\<forall>p \<in> set ps. \<not> at b p)"
  using assms by (induction ps) (auto simp: rd_law)

end

interpretation bm: bit_store bm_get bm_set bm_wf "\<lambda>b. 16 * m_dataSize b" bm_bit
proof
  fix b i v
  assume "bm_wf b" "i < 16 * m_dataSize b"
  from bm_set_eq [OF this, of v] show "\<exists>b'. bm_set i v b = Inr b' \<and> bm_wf b' \<and> 16 * m_dataSize b' = 16 * m_dataSize b \<and>
      (\<forall>j < 16 * m_dataSize b. bm_bit b' j = (if j = i then v else bm_bit b j))" by auto
qed (rule bm_get_eq)

section \<open>The Bloom filter\<close>

fun probes :: "nat \<Rightarrow> u32 \<Rightarrow> u32 \<Rightarrow> u32 \<Rightarrow> nat list" where
  "probes 0 h delta sz = []"
| "probes (Suc j) h delta sz = unat (h mod sz) # probes j (h + delta) delta sz"

lemma add_loop_eq: "sz \<noteq> 0 \<Longrightarrow> add_loop j h delta sz b = write_all bm_set (probes j h delta sz) b"
proof (induction j arbitrary: h b)
  case (Suc j)
  then have "add_loop j (h + delta) delta sz = write_all bm_set (probes j (h + delta) delta sz)" by auto
  then show ?case using Suc.prems by simp
qed simp

lemma match_loop_eq: "sz \<noteq> 0 \<Longrightarrow> match_loop j h delta sz b = none_set bm_get (probes j h delta sz) b"
  by (induction j arbitrary: h) (simp_all cong: if_cong)

lemma probes_bound:
  assumes "sz \<noteq> 0" and "p \<in> set (probes j h delta sz)"
  shows "p < unat sz"
proof -
  have "0 < unat sz" using assms(1) by (simp add: unat_eq_0 zero_less_iff_neq_zero)
  then have "unat (x mod sz) < unat sz" for x by (simp add: unat_mod_distrib)
  then show ?thesis using assms(2) by (induction j h delta sz rule: probes.induct) auto
qed

definition key_probes :: "(string \<Rightarrow> u32) \<Rightarrow> BloomFilter \<Rightarrow> string \<Rightarrow> nat list" where
  "key_probes hash f k = probes (m_hashCnt f) (hash k) (rotate17 (hash k)) (bf_size f)"

definition bf_ok :: "BloomFilter \<Rightarrow> bool" where
  "bf_ok f \<longleftrightarrow> bf_size f \<noteq> 0 \<and> bm_wf (bf_data f) \<and> unat (bf_size f) \<le> 16 * m_dataSize (bf_data f) \<and> 0 < m_hashCnt f"

lemma key_probes_bound:
  assumes "bf_ok f" and "p \<in> set (key_probes hash f k)"
  shows "p < 16 * m_dataSize (bf_data f)"
  using probes_bound [of "bf_size f" p] assms by (force simp: bf_ok_def key_probes_def)

lemma bf_add_eq:
  assumes "bf_ok f"
  shows "\<exists>f'. bf_add hash k f = Inr f' \<and> bf_ok f' \<and> key_probes hash f' = key_probes hash f \<and>
     m_dataSize (bf_data f') = m_dataSize (bf_data f) \<and>
     (\<forall>j < 16 * m_dataSize (bf_data f).
        bm_bit (bf_data f') j \<longleftrightarrow> j \<in> set (key_probes hash f k) \<or> bm_bit (bf_data f) j)"
proof -
  have "bm_wf (bf_data f)" "bf_size f \<noteq> 0" using assms by (auto simp: bf_ok_def)
  then obtain b where b: "write_all bm_set (key_probes hash f k) (bf_data f) = Inr b" "bm_wf b"
    "m_dataSize b = m_dataSize (bf_data f)"
    "\<forall>j < 16 * m_dataSize (bf_data f). bm_bit b j \<longleftrightarrow> j \<in> set (key_probes hash f k) \<or> bm_bit (bf_data f) j"
    using bm.write_all_sets [of "bf_data f" "key_probes hash f k"] key_probes_bound [OF assms] by fastforce
  then have "bf_add hash k f = Inr (f\<lparr>bf_data := b\<rparr>)"
    using \<open>bf_size f \<noteq> 0\<close> by (simp add: bf_add_def Let_def add_loop_eq key_probes_def)
  then show ?thesis using b assms by (auto simp: bf_ok_def key_probes_def fun_eq_iff)
qed

lemma mayMatch_eq:
  assumes "bf_ok f"
  shows "mayMatch hash k f = Inr (\<forall>p \<in> set (key_probes hash f k). \<not> bm_bit (bf_data f) p)"
proof -
  have "bf_size f \<noteq> 0" "bm_wf (bf_data f)" using assms by (auto simp: bf_ok_def)
  then show ?thesis
    using bm.none_set_eq [of "bf_data f" "key_probes hash f k"] key_probes_bound [OF assms]
    by (simp add: mayMatch_def Let_def match_loop_eq key_probes_def)
qed

fun bf_add_all :: "(string \<Rightarrow> u32) \<Rightarrow> string list \<Rightarrow> BloomFilter \<Rightarrow> bm_error + BloomFilter" where
  "bf_add_all hash [] f = Inr f"
| "bf_add_all hash (k # ks) f = rbind (bf_add hash k f) (bf_add_all hash ks)"

lemma bf_add_all_eq:
  assumes "bf_ok f"
  shows "\<exists>f'. bf_add_all hash ks f = Inr f' \<and> bf_ok f' \<and> key_probes hash f' = key_probes hash f \<and>
     m_dataSize (bf_data f') = m_dataSize (bf_data f) \<and>
     (\<forall>j < 16 * m_dataSize (bf_data f).
        bm_bit (bf_data f') j \<longleftrightarrow> (\<exists>k \<in> set ks. j \<in> set (key_probes hash f k)) \<or> bm_bit (bf_data f) j)"
  using assms
proof (induction ks arbitrary: f)
  case (Cons k ks)
  obtain f1 where f1: "bf_add hash k f = Inr f1" "bf_ok f1" "key_probes hash f1 = key_probes hash f"
    "m_dataSize (bf_data f1) = m_dataSize (bf_data f)"
    "\<forall>j < 16 * m_dataSize (bf_data f).
        bm_bit (bf_data f1) j \<longleftrightarrow> j \<in> set (key_probes hash f k) \<or> bm_bit (bf_data f) j"
    using bf_add_eq [OF Cons.prems] by blast
  from Cons.IH [OF f1(2)] show ?case using f1 by auto
qed auto

lemma bf_ok_new:
  assumes "bf_size (BloomFilter_new bits n) \<noteq> 0"
  shows "bf_ok (BloomFilter_new bits n)" and "\<not> bm_bit (bf_data (BloomFilter_new bits n)) j \<or> 16 * m_dataSize (bf_data (BloomFilter_new bits n)) \<le> j"
proof -
  show "bf_ok (BloomFilter_new bits n)"
    using assms by (auto simp: bf_ok_def BloomFilter_new_def Let_def bm_wf_new) (auto simp: Bitmap_new_def Let_def)
  show "\<not> bm_bit (bf_data (BloomFilter_new bits n)) j \<or> 16 * m_dataSize (bf_data (BloomFilter_new bits n)) \<le> j"
  proof (cases "j < 16 * m_dataSize (bf_data (BloomFilter_new bits n))")
    case True
    then have "j div 16 < m_dataSize (bf_data (BloomFilter_new bits n))"
      by (simp add: less_mult_imp_div_less mult.commute)
    then show ?thesis by (simp add: BloomFilter_new_def Let_def Bitmap_new_def bm_bit_def cells_def)
  qed simp
qed

section \<open>Four cells at a time\<close>

lemma get64_cells:
  "ucast (get64 d i) = d ! (4 * i)" "ucast (drop_bit 16 (get64 d i)) = d ! (4 * i + 1)"
  "ucast (drop_bit 32 (get64 d i)) = d ! (4 * i + 2)" "ucast (drop_bit 48 (get64 d i)) = d ! (4 * i + 3)"
proof -
  have b: "bit (get64 d i) k =
     (if k < 16 then bit (d ! (4 * i)) k else if k < 32 then bit (d ! (4 * i + 1)) (k - 16)
      else if k < 48 then bit (d ! (4 * i + 2)) (k - 32) else bit (d ! (4 * i + 3)) (k - 48))" for k
    by (auto simp: get64_def bit_simps dest: bit_imp_le_length)
  show "ucast (get64 d i) = d ! (4 * i)" "ucast (drop_bit 16 (get64 d i)) = d ! (4 * i + 1)"
  "ucast (drop_bit 32 (get64 d i)) = d ! (4 * i + 2)" "ucast (drop_bit 48 (get64 d i)) = d ! (4 * i + 3)"
    by (rule bit_word_eqI; simp add: bit_simps b)+
qed

text \<open>An operation on 64-bit words that works cell by cell.\<close>

definition cellwise :: "(u64 \<Rightarrow> u64 \<Rightarrow> u64) \<Rightarrow> (u16 \<Rightarrow> u16 \<Rightarrow> u16) \<Rightarrow> bool" where
  "cellwise f g \<longleftrightarrow> (\<forall>x y s. s \<le> 48 \<longrightarrow>
     ucast (drop_bit s (f x y)) = g (ucast (drop_bit s x)) (ucast (drop_bit s y)))"

lemma cellwise_ops: "cellwise (AND) (AND)" "cellwise (OR) (OR)" "cellwise (\<lambda>x _. NOT x) (\<lambda>x _. NOT x)"
  by (auto simp: cellwise_def intro!: bit_word_eqI simp: bit_simps)

lemma put64_cellwise:
  assumes "cellwise f g"
  shows "put64 d i (f (get64 d i) (get64 r i)) =
     d[4 * i := g (d ! (4 * i)) (r ! (4 * i)), 4 * i + 1 := g (d ! (4 * i + 1)) (r ! (4 * i + 1)),
       4 * i + 2 := g (d ! (4 * i + 2)) (r ! (4 * i + 2)), 4 * i + 3 := g (d ! (4 * i + 3)) (r ! (4 * i + 3))]"
proof -
  have c: "s \<le> 48 \<Longrightarrow> ucast (drop_bit s (f x y)) = g (ucast (drop_bit s x)) (ucast (drop_bit s y))" for s x y
    using assms by (simp add: cellwise_def)
  show ?thesis using c [of 0 "get64 d i" "get64 r i"] by (simp add: put64_def c get64_cells)
qed

lemma loop64_nth:
  assumes "cellwise f g" and "4 * (i + n) \<le> length d"
  shows "length (loop64 f r i n d) = length d \<and>
     (\<forall>k < length d. loop64 f r i n d ! k =
        (if 4 * i \<le> k \<and> k < 4 * (i + n) then g (d ! k) (r ! k) else d ! k))"
  using assms(2)
proof (induction n arbitrary: i d)
  case (Suc n)
  define d1 where "d1 = d[4 * i := g (d ! (4 * i)) (r ! (4 * i)), 4 * i + 1 := g (d ! (4 * i + 1)) (r ! (4 * i + 1)),
       4 * i + 2 := g (d ! (4 * i + 2)) (r ! (4 * i + 2)), 4 * i + 3 := g (d ! (4 * i + 3)) (r ! (4 * i + 3))]"
  have len: "length d1 = length d" by (simp add: d1_def)
  have d1: "d1 ! k = (if 4 * i \<le> k \<and> k < 4 * i + 4 then g (d ! k) (r ! k) else d ! k)"
    if "k < length d" for k
  proof -
    consider "k = 4 * i" | "k = 4 * i + 1" | "k = 4 * i + 2" | "k = 4 * i + 3"
      | "\<not> (4 * i \<le> k \<and> k < 4 * i + 4)" by linarith
    then show "d1 ! k = (if 4 * i \<le> k \<and> k < 4 * i + 4 then g (d ! k) (r ! k) else d ! k)"
      using that by cases (auto simp: d1_def nth_list_update)
  qed
  have l: "loop64 f r i (Suc n) d = loop64 f r (Suc i) n d1"
    using put64_cellwise [OF assms(1)] by (simp add: d1_def)
  have "4 * (Suc i + n) \<le> length d1" using Suc.prems len by simp
  from Suc.IH [OF this] show ?case unfolding l using d1 len by auto
qed auto

lemma loop16_nth:
  assumes "i + n \<le> length d"
  shows "length (loop16 g r i n d) = length d \<and>
     (\<forall>k < length d. loop16 g r i n d ! k = (if i \<le> k \<and> k < i + n then g (d ! k) (r ! k) else d ! k))"
  using assms
proof (induction n arbitrary: i d)
  case (Suc n)
  then have "Suc i + n \<le> length (d[i := g (d ! i) (r ! i)])" by simp
  note IH = Suc.IH [OF this]
  have "loop16 g r i (Suc n) d ! k = (if i \<le> k \<and> k < i + Suc n then g (d ! k) (r ! k) else d ! k)"
    if "k < length d" for k
    using IH that by (cases "k = i") (auto simp: nth_list_update)
  then show ?case using IH by simp
qed auto

lemma combine_nth:
  assumes "cellwise f g" and "bm_wf b"
  shows "bm_wf (combine f g b r)" and "m_size (combine f g b r) = m_size b"
    and "m_dataSize (combine f g b r) = m_dataSize b"
    and "k < m_dataSize b \<Longrightarrow> cells (combine f g b r) ! k = g (cells b ! k) (r ! k)"
proof -
  let ?n = "m_size b div 64"
  note wf = bm_wfD [OF assms(2)]
  have le: "4 * ?n \<le> m_dataSize b" using wf(3) by linarith
  note l64 = loop64_nth [OF assms(1), of 0 ?n "cells b" r]
  define d where "d = loop64 f r 0 ?n (cells b)"
  have d: "length d = m_dataSize b" "\<And>k. k < m_dataSize b \<Longrightarrow> d ! k = (if k < 4 * ?n then g (cells b ! k) (r ! k) else cells b ! k)"
    using l64 wf(1) le by (auto simp: d_def)
  note l16 = loop16_nth [of "?n * 4" "m_dataSize b - ?n * 4" d g r]
  define e where "e = loop16 g r (?n * 4) (m_dataSize b - ?n * 4) d"
  have e: "length e = m_dataSize b" "\<And>k. k < m_dataSize b \<Longrightarrow> e ! k = g (cells b ! k) (r ! k)"
    using l16 d le by (auto simp: e_def)
  have c: "combine f g b r = b\<lparr>m_data := Some e\<rparr>"
    using wf(2) by (simp add: combine_def Let_def e_def d_def)
  show "bm_wf (combine f g b r)" using e(1) wf(3) by (simp add: c bm_wf_def)
  show "m_size (combine f g b r) = m_size b" "m_dataSize (combine f g b r) = m_dataSize b" by (simp_all add: c)
  show "k < m_dataSize b \<Longrightarrow> cells (combine f g b r) ! k = g (cells b ! k) (r ! k)"
    using e(2) by (simp add: c cells_def)
qed

section \<open>Counting\<close>

abbreviation count :: "(nat \<Rightarrow> bool) \<Rightarrow> nat \<Rightarrow> nat \<Rightarrow> nat" where
  "count P a b \<equiv> length (filter P [a..<b])"

lemma count_split: "a \<le> b \<Longrightarrow> b \<le> c \<Longrightarrow> count P a c = count P a b + count P b c"
  by (metis filter_append length_append le_Suc_ex upt_add_eq_append)

lemma count_shift: "count P a (a + n) = count (\<lambda>k. P (a + k)) 0 n"
proof -
  have "[a..<a + n] = map (\<lambda>k. a + k) [0..<n]" by (simp add: map_add_upt add.commute)
  then show ?thesis by (simp add: filter_map comp_def)
qed

lemma count_cong: "(\<And>k. a \<le> k \<Longrightarrow> k < b \<Longrightarrow> P k = Q k) \<Longrightarrow> count P a b = count Q a b"
  by (intro arg_cong [of _ _ length] filter_cong) auto

lemma countBits_eq: "countBits v = count (bit v) 0 64"
proof -
  have "count (bit v) 0 64 = count (bit v) 0 32 + count (\<lambda>k. bit v (32 + k)) 0 32"
    using count_split [of 0 32 64 "bit v"] count_shift [of "bit v" 32 32] by simp
  moreover have "count (bit (ucast (v AND 0xFFFFFFFF) :: u32)) 0 32 = count (bit v) 0 32"
  proof (rule count_cong)
    fix k :: nat assume "k < 32"
    moreover have "(v AND 0xFFFFFFFF) = take_bit 32 v" by (simp add: take_bit_eq_mask mask_eq_exp_minus_1)
    ultimately show "bit (ucast (v AND 0xFFFFFFFF) :: u32) k = bit v k" by (simp add: bit_simps)
  qed
  moreover have "count (bit (ucast (drop_bit 32 v) :: u32)) 0 32 = count (\<lambda>k. bit v (32 + k)) 0 32"
    by (rule count_cong) (simp add: bit_simps)
  ultimately show ?thesis by (simp add: countBits_def popcount_def)
qed

lemma bit_get64: "k < 16 \<Longrightarrow> j < 4 \<Longrightarrow> bit (get64 d i) (16 * j + k) = bit (d ! (4 * i + j)) k"
proof -
  assume k: "k < 16" and "j < 4"
  then consider "j = 0" | "j = 1" | "j = 2" | "j = 3" by linarith
  then show ?thesis
    using k get64_cells [of d i, THEN arg_cong, of "\<lambda>w. bit w k"]
    by cases (simp_all add: bit_simps)
qed

lemma shift64: "(64 * i + n) div 16 = 4 * i + n div (16 :: nat)" "(64 * i + n) mod 16 = n mod (16 :: nat)"
proof -
  have e: "64 * i + n = n + 4 * i * 16" by simp
  show "(64 * i + n) div 16 = 4 * i + n div 16" unfolding e by (rule div_mult_self1) simp
  show "(64 * i + n) mod 16 = n mod 16" unfolding e by (rule mod_mult_self1)
qed

lemma count_get64:
  "countBits (get64 d i) = count (\<lambda>n. bit (d ! (n div 16)) (n mod 16)) (64 * i) (64 * i + 64)"
proof -
  have "bit (get64 d i) n = bit (d ! ((64 * i + n) div 16)) ((64 * i + n) mod 16)" if "n < 64" for n
  proof -
    note shift64 [of i n]
    moreover have "n = 16 * (n div 16) + n mod 16" "n div 16 < 4" using that by auto
    ultimately show ?thesis using bit_get64 [of "n mod 16" "n div 16" d i] by simp
  qed
  then show ?thesis unfolding countBits_eq count_shift by (intro count_cong) simp
qed

lemma count64_eq:
  "count64 d i n = count (\<lambda>k. bit (d ! (k div 16)) (k mod 16)) (64 * i) (64 * (i + n))"
proof (induction n arbitrary: i)
  case (Suc n)
  then show ?case
    using count_split [of "64 * i" "64 * i + 64" "64 * (i + Suc n)"] by (simp add: count_get64 ac_simps)
qed simp

lemma count_bits_of_eq:
  assumes "n \<le> 16"
  shows "count_bits_of tmp sz n p =
     (count (\<lambda>k. bit tmp k \<and> p + (k - n) < sz) n 16, max p (min sz (p + (16 - n))))"
  using assms
proof (induction tmp sz n p rule: count_bits_of.induct)
  case (1 tmp sz n p)
  show ?case
  proof (cases "n < 16 \<and> p < sz")
    case True
    have "count (\<lambda>k. bit tmp k \<and> Suc p + (k - Suc n) < sz) (Suc n) 16 =
        count (\<lambda>k. bit tmp k \<and> p + (k - n) < sz) (Suc n) 16"
      by (rule count_cong) (auto simp: Suc_diff_Suc)
    then show ?thesis using True 1 
      by (subst count_bits_of.simps) (auto simp: POS_bit upt_conv_Cons [of n] max_def min_def)
  next
    case False
    then have "n = 16 \<or> sz \<le> p" using 1(2) by auto
    then show ?thesis by (subst count_bits_of.simps) auto
  qed
qed

lemma count_tail_eq:
  assumes "sz \<le> p \<and> sz \<le> q \<or> p = q"
  shows "count_tail ts sz p =
    count (\<lambda>k. bit (ts ! (k div 16)) (k mod 16) \<and> q + k < sz) 0 (16 * length ts)"
  using assms
proof (induction ts arbitrary: p q)
  case (Cons t ts)
  let ?P = "\<lambda>k. bit ((t # ts) ! (k div 16)) (k mod 16) \<and> q + k < sz"
  have "count R 0 (16 * length (t # ts)) = count R 0 16 + count (\<lambda>k. R (16 + k)) 0 (16 * length ts)" for R
    using count_split [of 0 16 "16 * length (t # ts)" R] count_shift [of R 16 "16 * length ts"] by simp
  from this [of ?P]
  have "count ?P 0 (16 * length (t # ts)) = count ?P 0 16 + count (\<lambda>k. ?P (16 + k)) 0 (16 * length ts)" .
  moreover have "count (\<lambda>k. ?P (16 + k)) 0 (16 * length ts) =
      count (\<lambda>k. bit (ts ! (k div 16)) (k mod 16) \<and> (q + 16) + k < sz) 0 (16 * length ts)"
  proof (rule count_cong)
    fix k :: nat
    have "(16 + k) div 16 = Suc (k div 16)" "(16 + k) mod 16 = k mod 16" by (simp_all add: div_add_self1)
    then show "?P (16 + k) = (bit (ts ! (k div 16)) (k mod 16) \<and> (q + 16) + k < sz)" by (simp add: add.assoc)
  qed
  moreover have "count ?P 0 16 = count (\<lambda>k. bit t k \<and> p + k < sz) 0 16"
    using Cons.prems by (intro count_cong) auto
  moreover have "t = 0 \<Longrightarrow> count (\<lambda>k. bit t k \<and> p + k < sz) 0 16 = 0" by simp
  moreover have "count_tail (t # ts) sz p = count (\<lambda>k. bit t k \<and> p + k < sz) 0 16 +
      count (\<lambda>k. bit (ts ! (k div 16)) (k mod 16) \<and> (q + 16) + k < sz) 0 (16 * length ts)"
  proof (cases "t = 0")
    case True
    then show ?thesis using Cons.IH [of "p + 16" "q + 16"] Cons.prems by auto
  next
    case False
    then show ?thesis
      using Cons.IH [of "max p (min sz (p + 16))" "q + 16"] Cons.prems
      by (auto simp: count_bits_of_eq max_def min_def)
  qed
  ultimately show ?case by (simp only:)
qed simp

text \<open>What \<^verbatim>\<open>getCount\<close> counts.\<close>

lemma getCount_eq:
  assumes "bm_wf b"
  shows "getCount b = count (\<lambda>i. bm_bit b i \<and> (i < 64 * (m_dataSize b div 4) \<or> i < m_size b)) 0 (16 * m_dataSize b)"
proof -
  let ?len = "m_dataSize b div 4" and ?d = "cells b"
  let ?Q = "\<lambda>i. bm_bit b i \<and> (i < 64 * ?len \<or> i < m_size b)"
  have l: "length ?d = m_dataSize b" using bm_wfD(1) [OF assms] .
  have le: "64 * ?len \<le> 16 * m_dataSize b" by linarith
  have "count_tail (drop (?len * 4) ?d) (m_size b) (?len * 64) = count ?Q (64 * ?len) (16 * m_dataSize b)"
  proof -
    have n: "16 * m_dataSize b = 64 * ?len + 16 * length (drop (?len * 4) ?d)"
      using l by (simp add: algebra_simps)
    have "count ?Q (64 * ?len) (16 * m_dataSize b) =
        count (\<lambda>k. bit (drop (?len * 4) ?d ! (k div 16)) (k mod 16) \<and> ?len * 64 + k < m_size b) 0
          (16 * length (drop (?len * 4) ?d))"
      unfolding n count_shift
    proof (rule count_cong)
      fix k
      note shift64 [of ?len k]
      moreover have "?len * 4 \<le> length ?d" using l by simp
      ultimately show "?Q (64 * ?len + k) =
          (bit (drop (?len * 4) ?d ! (k div 16)) (k mod 16) \<and> ?len * 64 + k < m_size b)"
        by (simp add: bm_bit_def mult.commute)
    qed
    then show ?thesis using count_tail_eq [of "m_size b" "?len * 64" "?len * 64"] by simp
  qed
  moreover have "count64 ?d 0 ?len = count ?Q 0 (64 * ?len)"
    unfolding count64_eq by (auto intro!: count_cong simp: bm_bit_def)
  ultimately show ?thesis
    using count_split [of 0 "64 * ?len" "16 * m_dataSize b" ?Q] le l by (simp add: getCount_def Let_def)
qed

section \<open>What the bit sets guarantee\<close>

text \<open>C32: the union, intersection and complement, which work on four cells at a time and then on
  the rest, are the bit-by-bit operations on all cells; bitmaps of different sizes are refused.\<close>

theorem bitmap_operations:
  assumes "bm_wf a" and "bm_wf b" and "i < 16 * m_dataSize a"
  shows "(if m_size a \<noteq> m_size b then bm_and_assign a b = Inl BmLogicError \<and> bm_or_assign a b = Inl BmLogicError
     else \<exists>c d. bm_and_assign a b = Inr c \<and> bm_wf c \<and> bm_get i c = Inr (bm_bit a i \<and> bm_bit b i) \<and>
       bm_or_assign a b = Inr d \<and> bm_wf d \<and> bm_get i d = Inr (bm_bit a i \<or> bm_bit b i)) \<and>
     bm_wf (bm_not a) \<and> bm_get i (bm_not a) = Inr (\<not> bm_bit a i)"
proof -
  have k: "i div 16 < m_dataSize a" using assms(3) by (simp add: less_mult_imp_div_less mult.commute)
  note c = combine_nth [OF cellwise_ops(1) assms(1)] combine_nth [OF cellwise_ops(2) assms(1)]
    combine_nth [OF cellwise_ops(3) assms(1)]
  have get: "bm_get i x = Inr (bm_bit x i)" if "m_dataSize x = m_dataSize a" for x
    using that assms(3) bm_get_eq by simp
  show ?thesis
    using c k get by (simp add: bm_and_assign_def bm_or_assign_def bm_not_def bm_bit_def bit_simps)
qed

theorem bitmap_operations_witness:
  "\<exists>c. bm_and_assign (Bitmap_new 70 0xff) (Bitmap_new 70 0x0f) = Inr c \<and> bm_get 2 c = Inr True \<and>
     bm_get 69 (bm_not (Bitmap_new 70 0xff)) = Inr False"
proof -
  have bits: "bm_bit (Bitmap_new 70 0xff) 2" "bm_bit (Bitmap_new 70 0x0f) 2" "bm_bit (Bitmap_new 70 0xff) 69"
    by (simp_all add: bm_bit_def Bitmap_new_def cells_def bit_simps)
  have n: "m_dataSize (Bitmap_new 70 x) = 5" "m_size (Bitmap_new 70 x) = 70" for x
    by (simp_all add: Bitmap_new_def)
  show ?thesis
    using bitmap_operations [of "Bitmap_new 70 0xff" "Bitmap_new 70 0x0f" 2]
      bitmap_operations [of "Bitmap_new 70 0xff" "Bitmap_new 70 0x0f" 69] bits n bm_wf_new by auto
qed

text \<open>\<^verbatim>\<open>getCount\<close> counts the bits below the size, and also the padding bits behind the size that lie
  in a full group of four cells; so it is the number of elements only while no such bit is set.\<close>

lemma getCount_counts:
  assumes "bm_wf b"
  shows "getCount b = card {i. i < 16 * m_dataSize b \<and> bm_bit b i \<and>
     (i < 64 * (m_dataSize b div 4) \<or> i < m_size b)}"
proof -
  let ?Q = "\<lambda>i. bm_bit b i \<and> (i < 64 * (m_dataSize b div 4) \<or> i < m_size b)"
  have "length (filter ?Q [0..<16 * m_dataSize b]) = card (set (filter ?Q [0..<16 * m_dataSize b]))"
    by (intro distinct_card [symmetric]) simp
  also have "set (filter ?Q [0..<16 * m_dataSize b]) = {i. i < 16 * m_dataSize b \<and> ?Q i}" by auto
  finally show ?thesis using getCount_eq [OF assms] by simp
qed

lemma getCount_counts_example:
  "getCount (Bitmap_new 50 0xff) = 64 \<and> m_size (Bitmap_new 50 0xff) = 50"
proof -
  let ?b = "Bitmap_new 50 0xff"
  have n: "m_dataSize ?b = 4" "m_size ?b = 50" by (simp_all add: Bitmap_new_def)
  have "bm_bit ?b i" if "i < 64" for i
  proof -
    have "i div 16 < 4" using that by auto
    moreover have "(65535 :: u16) = - 1" by simp
    then have "bit (65535 :: u16) (i mod 16)" by (simp only: bit_minus_1_iff) simp
    ultimately show ?thesis by (simp add: bm_bit_def Bitmap_new_def cells_def)
  qed
  then have "{i. i < 16 * m_dataSize ?b \<and> bm_bit ?b i \<and> (i < 64 * (m_dataSize ?b div 4) \<or> i < m_size ?b)} = {..<64}"
    using n by auto
  then show ?thesis using getCount_counts [OF bm_wf_new [of 50 "0xff"]] n by simp
qed

text \<open>The Bloom filter answers the wrong way round: after any keys have been added, the answer for
  a key is \<^verbatim>\<open>true\<close> exactly when none of its bits is set.  So every added key gets \<^verbatim>\<open>false\<close>,
  whatever was added after it, and a new filter says \<^verbatim>\<open>true\<close> for every key.\<close>

lemma mayMatch_is_inverted:
  assumes "bf_size (BloomFilter_new bits n) \<noteq> 0"
  shows "\<exists>f. bf_add_all hash keys (BloomFilter_new bits n) = Inr f \<and>
     (\<forall>k. mayMatch hash k f =
        Inr (\<forall>p \<in> set (key_probes hash (BloomFilter_new bits n) k).
               \<forall>k' \<in> set keys. p \<notin> set (key_probes hash (BloomFilter_new bits n) k'))) \<and>
     (\<forall>k \<in> set keys. mayMatch hash k f = Inr False)"
proof -
  let ?f0 = "BloomFilter_new bits n"
  note new = bf_ok_new [OF assms]
  obtain f where f: "bf_add_all hash keys ?f0 = Inr f" "bf_ok f" "key_probes hash f = key_probes hash ?f0"
    "\<And>j. j < 16 * m_dataSize (bf_data ?f0) \<Longrightarrow>
        bm_bit (bf_data f) j \<longleftrightarrow> (\<exists>k \<in> set keys. j \<in> set (key_probes hash ?f0 k)) \<or> bm_bit (bf_data ?f0) j"
    using bf_add_all_eq [OF new(1)] by blast
  have bits: "bm_bit (bf_data f) p \<longleftrightarrow> (\<exists>k \<in> set keys. p \<in> set (key_probes hash ?f0 k))"
    if "p \<in> set (key_probes hash ?f0 k)" for k p
    using key_probes_bound [OF new(1) that] f(4) [of p] new(2) [of p] by auto
  have m: "mayMatch hash k f = Inr (\<forall>p \<in> set (key_probes hash ?f0 k).
      \<forall>k' \<in> set keys. p \<notin> set (key_probes hash ?f0 k'))" for k
    using mayMatch_eq [OF f(2)] bits f(3) by auto
  have "\<exists>p. p \<in> set (key_probes hash ?f0 k)" for k
    using new(1) by (cases "m_hashCnt ?f0") (auto simp: bf_ok_def key_probes_def)
  then have "mayMatch hash k f = Inr False" if "k \<in> set keys" for k
    unfolding m using that by (simp, blast)
  then show ?thesis using f(1) m by blast
qed

lemma mayMatch_is_inverted_example:
  "\<exists>f. bf_add_all (\<lambda>s. word_of_nat (length s)) [''ab'', ''abc''] (BloomFilter_new 10 100) = Inr f \<and>
     mayMatch (\<lambda>s. word_of_nat (length s)) ''ab'' f = Inr False"
  using mayMatch_is_inverted [of 10 100 "\<lambda>s. word_of_nat (length s)" "[''ab'', ''abc'']"]
  by (auto simp: BloomFilter_new_def Let_def)

end
