(* ===== verification/Fibers.thy ===== *)
theory Fibers
  imports Prelude
begin

text \<open>
  The fibers of a thread (\<^verbatim>\<open>fiber.h\<close>, \<^verbatim>\<open>fiber.cpp\<close>).  Fiber objects live in a store; the thread
  has the pointers \<^verbatim>\<open>t_fiber\<close> and \<^verbatim>\<open>t_mainFiber\<close>, and the process the two counters.

  What a fiber body does is, for this module, the sequence of its yields and how it ends: a
  \<open>script\<close>.  A saved \<^verbatim>\<open>ucontext_t\<close> is the point where the fiber goes on: at the entry of
  \<^verbatim>\<open>Coroutine\<close>, inside the body with the rest of the script, or behind the last yield of
  \<^verbatim>\<open>Coroutine\<close>.  A fiber is resumed by the main fiber only, as the header demands, so
  \<^verbatim>\<open>resume\<close> runs the fiber up to its next yield and comes back.  Failed assertions, null
  pointers and the end of the thread (a context that returns with a null \<^verbatim>\<open>uc_link\<close>) are errors.
\<close>

section \<open>State\<close>

datatype FiberState =
  FIBER_INIT | FIBER_RUNNING | FIBER_HOLD | FIBER_READY | FIBER_TERM | FIBER_EXCEPT

datatype script =
  Return | Throw
  | ToHold script   \<comment> \<open>\<^verbatim>\<open>YieldToHold\<close>, then the rest\<close>
  | ToReady script  \<comment> \<open>\<^verbatim>\<open>YieldToReady\<close>, then the rest\<close>
  | PlainYield script  \<comment> \<open>\<^verbatim>\<open>yield\<close> without a change of state\<close>

datatype ucontext = AtEntry | Within script | AfterEnd | OfThread

record Fiber =
  m_context :: ucontext
  m_stackSize :: u32
  m_stack :: bool
  m_cb :: "script option"
  m_fiberId :: u64
  m_state :: FiberState

datatype fiber_error = AssertFailed | NullFiber | ThreadExits

record fiber_thread =
  fibers :: "nat \<Rightarrow> Fiber option"
  t_fiber :: "nat option"
  t_mainFiber :: "nat option"
  s_fiberId :: u64
  s_fiberCount :: u64
  t_ran :: "script list"

text \<open>\<open>t_ran\<close> is what the fibers of the thread have done: every resume executes a body from the point where it
  stands to its next yield, and this point is recorded.\<close>

definition executing :: "script \<Rightarrow> fiber_thread \<Rightarrow> fiber_thread" where
  "executing s th = th\<lparr>t_ran := t_ran th @ [s]\<rparr>"

definition set_fiber :: "nat \<Rightarrow> Fiber \<Rightarrow> fiber_thread \<Rightarrow> fiber_thread" where
  "set_fiber p f th = th\<lparr>fibers := (fibers th)(p \<mapsto> f)\<rparr>"

section \<open>Operations\<close>

text \<open>The constructors; \<open>p\<close> is the address of the new object.\<close>

definition Fiber_new :: "nat \<Rightarrow> script option \<Rightarrow> u32 \<Rightarrow> fiber_thread \<Rightarrow> fiber_thread" where
  "Fiber_new p cb stackSize th =
     (let th = th\<lparr>s_fiberId := s_fiberId th + 1, s_fiberCount := s_fiberCount th + 1\<rparr>
      in set_fiber p \<lparr>m_context = AtEntry,
           m_stackSize = (if stackSize \<noteq> 0 then stackSize else 128 * 1024), m_stack = True,
           m_cb = cb, m_fiberId = s_fiberId th, m_state = FIBER_INIT\<rparr> th)"

definition Fiber_main :: "nat \<Rightarrow> fiber_thread \<Rightarrow> fiber_thread" where
  "Fiber_main p th =
     set_fiber p \<lparr>m_context = OfThread, m_stackSize = 0, m_stack = False, m_cb = None,
       m_fiberId = 0, m_state = FIBER_INIT\<rparr> (th\<lparr>s_fiberCount := s_fiberCount th + 1\<rparr>)"

definition SetThis :: "nat option \<Rightarrow> fiber_thread \<Rightarrow> fiber_thread" where
  "SetThis p th = th\<lparr>t_fiber := p\<rparr>"

definition Self :: "fiber_thread \<Rightarrow> nat option" where
  "Self th = t_fiber th"

definition Fiber_delete :: "nat \<Rightarrow> fiber_thread \<Rightarrow> fiber_error + fiber_thread" where
  "Fiber_delete p th =
     (case fibers th p of
        None \<Rightarrow> Inl NullFiber
      | Some f \<Rightarrow>
          let th = th\<lparr>s_fiberCount := s_fiberCount th - 1\<rparr> in
          if m_stack f then
            if m_state f \<in> {FIBER_INIT, FIBER_EXCEPT, FIBER_TERM}
            then Inr (th\<lparr>fibers := (fibers th)(p := None)\<rparr>)
            else Inl AssertFailed
          else if m_cb f \<noteq> None then Inl AssertFailed
          else let th = (if t_mainFiber th = Some p then SetThis None th else th)
               in Inr (th\<lparr>fibers := (fibers th)(p := None)\<rparr>))"

text \<open>A running fiber goes on with its script up to the next yield, which saves its context;
  \<^verbatim>\<open>Coroutine\<close> ends with a yield, too.\<close>

definition fiber_yield :: "ucontext \<Rightarrow> Fiber \<Rightarrow> Fiber" where
  [simp]: "fiber_yield here f = f\<lparr>m_context := here\<rparr>"

definition YieldToHold :: "script \<Rightarrow> Fiber \<Rightarrow> Fiber" where
  [simp]: "YieldToHold rest f = fiber_yield (Within rest) (f\<lparr>m_state := FIBER_HOLD\<rparr>)"

definition YieldToReady :: "script \<Rightarrow> Fiber \<Rightarrow> Fiber" where
  [simp]: "YieldToReady rest f = fiber_yield (Within rest) (f\<lparr>m_state := FIBER_READY\<rparr>)"

fun run_script :: "script \<Rightarrow> Fiber \<Rightarrow> Fiber" where
  "run_script Return f = fiber_yield AfterEnd (f\<lparr>m_cb := None, m_state := FIBER_TERM\<rparr>)"
| "run_script Throw f = fiber_yield AfterEnd (f\<lparr>m_state := FIBER_EXCEPT\<rparr>)"
| "run_script (ToHold s) f = YieldToHold s f"
| "run_script (ToReady s) f = YieldToReady s f"
| "run_script (PlainYield s) f = fiber_yield (Within s) f"

text \<open>\<^verbatim>\<open>Coroutine\<close>: calling an empty \<^verbatim>\<open>std::function\<close> throws.\<close>

definition cb_script :: "Fiber \<Rightarrow> script" where
  "cb_script f = (case m_cb f of None \<Rightarrow> Throw | Some s \<Rightarrow> s)"

definition Coroutine :: "Fiber \<Rightarrow> Fiber" where
  "Coroutine f = run_script (cb_script f) f"

definition resume :: "nat \<Rightarrow> fiber_thread \<Rightarrow> fiber_error + fiber_thread" where
  "resume p th =
     (case fibers th p of
        None \<Rightarrow> Inl NullFiber
      | Some f \<Rightarrow>
          let th = SetThis (Some p) th in
          if m_state f = FIBER_RUNNING then Inl AssertFailed
          else if t_mainFiber th = None then Inl NullFiber
          else let f = f\<lparr>m_state := FIBER_RUNNING\<rparr> in
          case m_context f of
            AtEntry \<Rightarrow> Inr (SetThis (t_mainFiber th) (set_fiber p (Coroutine f) (executing (cb_script f) th)))
          | Within s \<Rightarrow> Inr (SetThis (t_mainFiber th) (set_fiber p (run_script s f) (executing s th)))
          | AfterEnd \<Rightarrow> Inl ThreadExits
          | OfThread \<Rightarrow> Inr (set_fiber p f th))"

definition Fiber_reset :: "script option \<Rightarrow> nat \<Rightarrow> fiber_thread \<Rightarrow> fiber_error + fiber_thread" where
  "Fiber_reset cb p th =
     (case fibers th p of
        None \<Rightarrow> Inl NullFiber
      | Some f \<Rightarrow>
          if m_stackSize f = 0 then Inl AssertFailed
          else if m_state f \<notin> {FIBER_INIT, FIBER_EXCEPT, FIBER_TERM} then Inl AssertFailed
          else Inr (set_fiber p (f\<lparr>m_cb := cb, m_context := AtEntry, m_state := FIBER_INIT\<rparr>) th))"

definition EnableFiber :: "nat \<Rightarrow> fiber_thread \<Rightarrow> nat \<times> fiber_thread" where
  "EnableFiber p th =
     (case t_mainFiber th of
        Some q \<Rightarrow> (q, th)
      | None \<Rightarrow>
          let th = SetThis (Some p) (Fiber_main p th) in (p, th\<lparr>t_mainFiber := Some p\<rparr>))"

definition GetFiberId :: "fiber_thread \<Rightarrow> u64" where
  "GetFiberId th =
     (case t_fiber th of
        None \<Rightarrow> 0
      | Some p \<Rightarrow> (case fibers th p of None \<Rightarrow> 0 | Some f \<Rightarrow> m_fiberId f))"

definition TotalCount :: "fiber_thread \<Rightarrow> u64" where
  "TotalCount th = s_fiberCount th"

definition thread_new :: fiber_thread where
  "thread_new = \<lparr>fibers = \<lambda>_. None, t_fiber = None, t_mainFiber = None, s_fiberId = 0, s_fiberCount = 0,
     t_ran = []\<rparr>"

section \<open>The life of a fiber\<close>

text \<open>The states a fiber can be found in between two operations: the state says where its context
  stands.\<close>

definition fiber_ok :: "Fiber \<Rightarrow> bool" where
  "fiber_ok f \<longleftrightarrow>
     (case m_state f of
        FIBER_INIT \<Rightarrow> m_context f = (if m_stack f then AtEntry else OfThread)
      | FIBER_RUNNING \<Rightarrow> (\<exists>s. m_context f = Within s)
      | FIBER_HOLD \<Rightarrow> (\<exists>s. m_context f = Within s)
      | FIBER_READY \<Rightarrow> (\<exists>s. m_context f = Within s)
      | FIBER_TERM \<Rightarrow> m_context f = AfterEnd \<and> m_cb f = None
      | FIBER_EXCEPT \<Rightarrow> m_context f = AfterEnd) \<and>
     (m_stack f \<longleftrightarrow> m_stackSize f \<noteq> 0) \<and>
     (\<not> m_stack f \<longrightarrow> m_state f = FIBER_INIT \<and> m_cb f = None)"

definition mains :: "(nat \<Rightarrow> Fiber option) \<Rightarrow> nat set" where
  "mains fs = {p. \<exists>f. fs p = Some f \<and> \<not> m_stack f}"

definition thread_ok :: "fiber_thread \<Rightarrow> bool" where
  "thread_ok th \<longleftrightarrow> (\<forall>f \<in> ran (fibers th). fiber_ok f) \<and> t_fiber th = t_mainFiber th \<and>
     mains (fibers th) = set_option (t_mainFiber th) \<and>
     finite (dom (fibers th)) \<and> s_fiberCount th = word_of_nat (card (dom (fibers th)))"


lemma set_fiber_sel [simp]:
  "fibers (set_fiber p f th) = (fibers th)(p \<mapsto> f)" "t_fiber (set_fiber p f th) = t_fiber th"
  "t_mainFiber (set_fiber p f th) = t_mainFiber th" "s_fiberId (set_fiber p f th) = s_fiberId th"
  "s_fiberCount (set_fiber p f th) = s_fiberCount th"
  by (simp_all add: set_fiber_def)

lemma executing_sel [simp]:
  "fibers (executing s th) = fibers th" "t_fiber (executing s th) = t_fiber th"
  "t_mainFiber (executing s th) = t_mainFiber th" "s_fiberId (executing s th) = s_fiberId th"
  "s_fiberCount (executing s th) = s_fiberCount th" "t_ran (executing s th) = t_ran th @ [s]"
  by (simp_all add: executing_def)

lemma t_ran_kept [simp]:
  "t_ran (set_fiber p f th) = t_ran th" "t_ran (SetThis q th) = t_ran th" "t_ran (Fiber_new p cb sz th) = t_ran th"
  by (simp_all add: set_fiber_def SetThis_def Fiber_new_def Let_def)

lemma SetThis_sel [simp]:
  "fibers (SetThis q th) = fibers th" "t_fiber (SetThis q th) = q"
  "t_mainFiber (SetThis q th) = t_mainFiber th" "s_fiberId (SetThis q th) = s_fiberId th"
  "s_fiberCount (SetThis q th) = s_fiberCount th"
  by (simp_all add: SetThis_def)

lemma run_script_keeps [simp]:
  "m_stack (run_script s f) = m_stack f" "m_stackSize (run_script s f) = m_stackSize f"
  "m_fiberId (run_script s f) = m_fiberId f"
  by (cases s; simp)+

lemma run_script_ok:
  assumes "m_state f = FIBER_RUNNING" and "m_stack f" and "m_stackSize f \<noteq> 0"
  shows "fiber_ok (run_script s f)"
  using assms by (cases s) (simp_all add: fiber_ok_def)

lemma thread_okD:
  assumes "thread_ok th"
  shows "fibers th p = Some f \<Longrightarrow> fiber_ok f"
    and "t_fiber th = t_mainFiber th" and "mains (fibers th) = set_option (t_mainFiber th)"
    and "finite (dom (fibers th))"
    and "s_fiberCount th = word_of_nat (card (dom (fibers th)))"
  using assms by (simp_all add: thread_ok_def ranI)

lemma thread_ok_executing [simp]: "thread_ok (executing s th) = thread_ok th"
  by (simp add: thread_ok_def)

lemma mains_upd:
  "m_stack f' \<Longrightarrow> (\<And>f. fs p = Some f \<Longrightarrow> m_stack f) \<Longrightarrow> mains (fs(p \<mapsto> f')) = mains fs"
  by (auto simp: mains_def)

lemma ran_upd: "\<forall>f \<in> ran fs. fiber_ok f \<Longrightarrow> fiber_ok f' \<Longrightarrow> \<forall>f \<in> ran (fs(p \<mapsto> f')). fiber_ok f"
  by (auto simp: ran_def)

text \<open>Replacing a fiber by another one that is in order.\<close>

lemma thread_ok_update:
  assumes "thread_ok th" and "fibers th p = Some f" and "m_stack f" and "fiber_ok f'" and "m_stack f'"
  shows "thread_ok (set_fiber p f' th)"
proof -
  have "dom ((fibers th)(p \<mapsto> f')) = dom (fibers th)" using assms(2) by auto
  moreover have "mains ((fibers th)(p \<mapsto> f')) = mains (fibers th)"
    using assms(2,3,5) by (intro mains_upd) auto
  ultimately show ?thesis
    using assms(1,4) ran_upd unfolding thread_ok_def set_fiber_sel by metis
qed

lemma resume_eq:
  assumes "thread_ok th" and "fibers th p = Some f" and "m_stack f"
  shows "resume p th =
     (if m_state f = FIBER_RUNNING then Inl AssertFailed
      else if t_mainFiber th = None then Inl NullFiber
      else case m_context f of
        AtEntry \<Rightarrow> Inr (set_fiber p (Coroutine (f\<lparr>m_state := FIBER_RUNNING\<rparr>)) (executing (cb_script f) th))
      | Within s \<Rightarrow> Inr (set_fiber p (run_script s (f\<lparr>m_state := FIBER_RUNNING\<rparr>)) (executing s th))
      | AfterEnd \<Rightarrow> Inl ThreadExits
      | OfThread \<Rightarrow> resume p th)"
  using assms(2,3) thread_okD(2) [OF assms(1)]
  by (auto simp: resume_def Let_def SetThis_def set_fiber_def executing_def cb_script_def split: ucontext.splits)

lemma thread_ok_resume:
  assumes "thread_ok th" and "fibers th p = Some f" and "m_stack f" and "resume p th = Inr th'"
  shows "thread_ok th'"
proof -
  have f: "fiber_ok f" using thread_okD(1) assms(1,2) .
  then have "m_context f \<noteq> OfThread" using assms(3) by (auto simp: fiber_ok_def split: FiberState.splits)
  moreover have sz: "m_stackSize f \<noteq> 0" using f assms(3) by (simp add: fiber_ok_def)
  ultimately obtain s where "th' = set_fiber p (run_script s (f\<lparr>m_state := FIBER_RUNNING\<rparr>)) (executing s th)"
    using resume_eq [OF assms(1,2,3)] assms(4)
    by (auto simp: Coroutine_def cb_script_def split: if_splits ucontext.splits)
  moreover have "fiber_ok (run_script s (f\<lparr>m_state := FIBER_RUNNING\<rparr>))"
    using assms(3) sz by (intro run_script_ok) auto
  ultimately show ?thesis using thread_ok_update [of "executing s th" p f] assms(1-3) by simp
qed

lemma thread_ok_reset:
  assumes "thread_ok th" and "Fiber_reset cb p th = Inr th'"
  shows "thread_ok th'"
proof -
  obtain f where f: "fibers th p = Some f" "m_stackSize f \<noteq> 0"
    "th' = set_fiber p (f\<lparr>m_cb := cb, m_context := AtEntry, m_state := FIBER_INIT\<rparr>) th"
    using assms(2) by (auto simp: Fiber_reset_def split: option.splits if_splits)
  moreover have "m_stack f" using thread_okD(1) [OF assms(1) f(1)] f(2) by (simp add: fiber_ok_def)
  ultimately show ?thesis using thread_ok_update [OF assms(1) f(1)] by (simp add: fiber_ok_def)
qed

lemma thread_ok_new:
  assumes "thread_ok th" and "fibers th p = None"
  shows "thread_ok (Fiber_new p cb sz th)"
proof -
  let ?th = "Fiber_new p cb sz th"
  obtain f where f: "fibers ?th = (fibers th)(p \<mapsto> f)" "fiber_ok f" "m_stack f"
    by (simp add: Fiber_new_def Let_def fiber_ok_def)
  have "p \<notin> dom (fibers th)" using assms(2) by (simp add: domIff)
  then have "finite (dom (fibers ?th))" "s_fiberCount ?th = word_of_nat (card (dom (fibers ?th)))"
    using thread_okD(4,5) [OF assms(1)] by (simp_all add: f(1)) (simp add: Fiber_new_def Let_def)
  moreover have "mains (fibers ?th) = mains (fibers th)"
    unfolding f(1) using f(3) assms(2) by (intro mains_upd) auto
  moreover have "t_fiber ?th = t_fiber th" "t_mainFiber ?th = t_mainFiber th"
    by (simp_all add: Fiber_new_def Let_def)
  ultimately show ?thesis
    using assms(1) f ran_upd unfolding thread_ok_def by metis
qed

lemma thread_ok_enable:
  assumes "thread_ok th" and "fibers th p = None"
  shows "thread_ok (snd (EnableFiber p th))"
proof (cases "t_mainFiber th")
  case None
  let ?th = "snd (EnableFiber p th)"
  obtain f where f: "fibers ?th = (fibers th)(p \<mapsto> f)" "fiber_ok f" "\<not> m_stack f"
    using None by (simp add: EnableFiber_def Fiber_main_def Let_def fiber_ok_def)
  have "p \<notin> dom (fibers th)" using assms(2) by (simp add: domIff)
  then have "finite (dom (fibers ?th))" "s_fiberCount ?th = word_of_nat (card (dom (fibers ?th)))"
    using thread_okD(4,5) [OF assms(1)]
    by (simp_all add: f(1)) (simp add: EnableFiber_def Fiber_main_def Let_def None)
  moreover have "t_fiber ?th = Some p" "t_mainFiber ?th = Some p"
    using None by (simp_all add: EnableFiber_def Let_def)
  moreover have "mains (fibers ?th) = {p}"
    using thread_okD(3) [OF assms(1)] None f by (auto simp: mains_def)
  ultimately show ?thesis
    using assms(1) f(1,2) ran_upd unfolding thread_ok_def by (metis option.set(2))
qed (simp add: EnableFiber_def assms(1))

lemma thread_ok_delete:
  assumes "thread_ok th" and "fibers th p = Some f" and "m_stack f" and "Fiber_delete p th = Inr th'"
  shows "thread_ok th'"
proof -
  have th': "th' = th\<lparr>s_fiberCount := s_fiberCount th - 1, fibers := (fibers th)(p := None)\<rparr>"
    using assms(2-4) by (auto simp: Fiber_delete_def Let_def split: if_splits)
  have d: "p \<in> dom (fibers th)" using assms(2) by auto
  have "card (dom (fibers th)) = Suc (card (dom (fibers th) - {p}))"
    using card_Suc_Diff1 [OF thread_okD(4) [OF assms(1)] d] by simp
  moreover have "mains ((fibers th)(p := None)) = mains (fibers th)"
    using assms(2,3) by (auto simp: mains_def)
  moreover have "ran ((fibers th)(p := None)) \<subseteq> ran (fibers th)" by (auto simp: ran_def)
  ultimately show ?thesis using assms(1) th' by (auto simp: thread_ok_def)
qed

lemma thread_ok_start: "thread_ok thread_new"
  by (simp add: thread_new_def thread_ok_def mains_def)

section \<open>Reachable states\<close>

inductive fiber_reach :: "fiber_thread \<Rightarrow> bool" where
  fr_start: "fiber_reach thread_new"
| fr_enable: "fiber_reach th \<Longrightarrow> fibers th p = None \<Longrightarrow> fiber_reach (snd (EnableFiber p th))"
| fr_new: "fiber_reach th \<Longrightarrow> fibers th p = None \<Longrightarrow> fiber_reach (Fiber_new p cb sz th)"
| fr_resume: "fiber_reach th \<Longrightarrow> fibers th p = Some f \<Longrightarrow> m_stack f \<Longrightarrow> resume p th = Inr th' \<Longrightarrow> fiber_reach th'"
| fr_reset: "fiber_reach th \<Longrightarrow> Fiber_reset cb p th = Inr th' \<Longrightarrow> fiber_reach th'"
| fr_delete: "fiber_reach th \<Longrightarrow> fibers th p = Some f \<Longrightarrow> m_stack f \<Longrightarrow> Fiber_delete p th = Inr th' \<Longrightarrow> fiber_reach th'"

lemma fiber_reach_ok: "fiber_reach th \<Longrightarrow> thread_ok th"
  by (induction rule: fiber_reach.induct)
    (blast intro: thread_ok_enable thread_ok_new thread_ok_resume thread_ok_reset thread_ok_delete
      thread_ok_start)+

section \<open>Running a fiber to its end\<close>

fun resume_n :: "nat \<Rightarrow> nat \<Rightarrow> fiber_thread \<Rightarrow> fiber_error + fiber_thread" where
  "resume_n 0 p th = Inr th"
| "resume_n (Suc n) p th = rbind (resume p th) (resume_n n p)"

fun yields :: "script \<Rightarrow> nat" where
  "yields Return = 0"
| "yields Throw = 0"
| "yields (ToHold s) = Suc (yields s)"
| "yields (ToReady s) = Suc (yields s)"
| "yields (PlainYield s) = Suc (yields s)"

fun cooperative :: "script \<Rightarrow> bool" where
  "cooperative Return = True"
| "cooperative Throw = True"
| "cooperative (ToHold s) = cooperative s"
| "cooperative (ToReady s) = cooperative s"
| "cooperative (PlainYield s) = False"

fun outcome :: "script \<Rightarrow> FiberState" where
  "outcome Return = FIBER_TERM"
| "outcome Throw = FIBER_EXCEPT"
| "outcome (ToHold s) = outcome s"
| "outcome (ToReady s) = outcome s"
| "outcome (PlainYield s) = outcome s"

lemma resume_n_within:
  assumes "thread_ok th" and "t_mainFiber th \<noteq> None" and "fibers th p = Some f" and "m_stack f"
    and "m_state f \<noteq> FIBER_RUNNING" and "m_context f = Within s" and "cooperative s"
  shows "\<exists>th' f'. resume_n (Suc (yields s)) p th = Inr th' \<and> thread_ok th' \<and> fibers th' p = Some f' \<and>
     m_state f' = outcome s \<and> resume p th' = Inl ThreadExits"
  using assms
proof (induction s arbitrary: th f)
  case Return
  let ?f = "run_script Return (f\<lparr>m_state := FIBER_RUNNING\<rparr>)"
  have r: "resume p th = Inr (set_fiber p ?f (executing Return th))"
    using resume_eq [OF Return(1,3,4)] Return by auto
  then have "thread_ok (set_fiber p ?f (executing Return th))" using thread_ok_resume [OF Return(1,3,4)] by blast
  then show ?case using r Return resume_eq [of "set_fiber p ?f (executing Return th)" p ?f] by auto
next
  case Throw
  let ?f = "run_script Throw (f\<lparr>m_state := FIBER_RUNNING\<rparr>)"
  have r: "resume p th = Inr (set_fiber p ?f (executing Throw th))"
    using resume_eq [OF Throw(1,3,4)] Throw by auto
  then have "thread_ok (set_fiber p ?f (executing Throw th))" using thread_ok_resume [OF Throw(1,3,4)] by blast
  then show ?case using r Throw resume_eq [of "set_fiber p ?f (executing Throw th)" p ?f] by auto
next
  case (ToHold s)
  let ?f = "run_script (ToHold s) (f\<lparr>m_state := FIBER_RUNNING\<rparr>)"
  have r: "resume p th = Inr (set_fiber p ?f (executing (ToHold s) th))"
    using resume_eq [OF ToHold(2,4,5)] ToHold by auto
  then have "thread_ok (set_fiber p ?f (executing (ToHold s) th))" using thread_ok_resume [OF ToHold(2,4,5)] by blast
  then show ?case using r ToHold.IH [of "set_fiber p ?f (executing (ToHold s) th)" ?f] ToHold.prems by auto
next
  case (ToReady s)
  let ?f = "run_script (ToReady s) (f\<lparr>m_state := FIBER_RUNNING\<rparr>)"
  have r: "resume p th = Inr (set_fiber p ?f (executing (ToReady s) th))"
    using resume_eq [OF ToReady(2,4,5)] ToReady by auto
  then have "thread_ok (set_fiber p ?f (executing (ToReady s) th))" using thread_ok_resume [OF ToReady(2,4,5)] by blast
  then show ?case using r ToReady.IH [of "set_fiber p ?f (executing (ToReady s) th)" ?f] ToReady.prems by auto
qed simp

lemma run_script_context:
  "run_script s (f\<lparr>m_context := c, m_state := st\<rparr>) = run_script s (f\<lparr>m_state := st\<rparr>)"
  by (cases s) simp_all

lemma resume_n_from_entry:
  assumes "thread_ok th" and "t_mainFiber th \<noteq> None" and "fibers th p = Some f" and "m_stack f"
    and "m_state f = FIBER_INIT" and "m_cb f = Some s" and "cooperative s"
  shows "\<exists>th' f'. resume_n (Suc (yields s)) p th = Inr th' \<and> thread_ok th' \<and> fibers th' p = Some f' \<and>
     m_state f' = outcome s \<and> resume p th' = Inl ThreadExits"
proof -
  let ?f = "f\<lparr>m_state := FIBER_HOLD, m_context := Within s\<rparr>"
  let ?th = "set_fiber p ?f th"
  have entry: "m_context f = AtEntry" and sz: "m_stackSize f \<noteq> 0"
    using thread_okD(1) [OF assms(1,3)] assms(4,5) by (auto simp: fiber_ok_def)
  have ok: "thread_ok ?th"
    using assms(4) sz by (intro thread_ok_update [OF assms(1,3,4)]) (auto simp: fiber_ok_def)
  have "resume p th = resume p ?th"
    using resume_eq [OF assms(1,3,4)] resume_eq [OF ok, of p ?f] entry assms(2,4,5,6)
    by (simp add: Coroutine_def cb_script_def run_script_context set_fiber_def executing_def)
  then have "resume_n (Suc (yields s)) p th = resume_n (Suc (yields s)) p ?th" by simp
  then show ?thesis using resume_n_within [OF ok, of p ?f s] assms(2,4,7) by simp
qed

section \<open>What the fibers guarantee\<close>

text \<open>C7: whatever sequence of operations the main fiber performs, control is back at the main fiber
  after each, the state of every fiber says where its context stands (a terminated fiber has no
  callback left, a held or ready one stands inside its body), and the counter counts the fibers.\<close>

theorem fibers_invariant:
  assumes "fiber_reach th"
  shows "t_fiber th = t_mainFiber th \<and> (\<forall>f \<in> ran (fibers th). fiber_ok f) \<and>
     TotalCount th = word_of_nat (card (dom (fibers th)))"
  using fiber_reach_ok [OF assms] by (simp add: thread_ok_def TotalCount_def)

theorem fibers_invariant_witness:
  "TotalCount (Fiber_new 2 (Some Return) 0 (snd (EnableFiber 1 thread_new))) =
     word_of_nat (card (dom (fibers (Fiber_new 2 (Some Return) 0 (snd (EnableFiber 1 thread_new))))))"
proof -
  have "fiber_reach (Fiber_new 2 (Some Return) 0 (snd (EnableFiber 1 thread_new)))"
    by (intro fr_new fr_enable fr_start)
      (simp_all add: thread_new_def EnableFiber_def Fiber_main_def Let_def)
  from fibers_invariant [OF this] show ?thesis by simp
qed

text \<open>A new fiber whose body yields \<open>n\<close> times (to hold or ready) has ended after exactly \<open>n + 1\<close>
  resumes, terminated or failed as its body does; resuming it once more would end the thread.\<close>

lemma fiber_runs_to_its_end:
  assumes "fiber_reach th" and "t_mainFiber th \<noteq> None" and "fibers th p = Some f" and "m_stack f"
    and "m_state f = FIBER_INIT" and "m_cb f = Some s" and "cooperative s"
  shows "\<exists>th' f'. resume_n (Suc (yields s)) p th = Inr th' \<and> fibers th' p = Some f' \<and>
     m_state f' = outcome s \<and> resume p th' = Inl ThreadExits"
  using resume_n_from_entry [OF fiber_reach_ok [OF assms(1)] assms(2-)] by blast

lemma fiber_runs_to_its_end_example:
  "\<exists>th' f'. resume_n 3 2 (Fiber_new 2 (Some (ToHold (ToReady Throw))) 0 (snd (EnableFiber 1 thread_new))) =
      Inr th' \<and> fibers th' 2 = Some f' \<and> m_state f' = FIBER_EXCEPT \<and> resume 2 th' = Inl ThreadExits"
proof -
  let ?s = "ToHold (ToReady Throw)"
  let ?th = "Fiber_new 2 (Some ?s) 0 (snd (EnableFiber 1 thread_new))"
  have r: "fiber_reach ?th"
    by (intro fr_new fr_enable fr_start)
      (simp_all add: thread_new_def EnableFiber_def Fiber_main_def Let_def)
  obtain f where f: "fibers ?th 2 = Some f" "m_stack f" "m_state f = FIBER_INIT" "m_cb f = Some ?s"
    by (simp add: Fiber_new_def Let_def)
  have "t_mainFiber ?th \<noteq> None"
    by (simp add: Fiber_new_def EnableFiber_def thread_new_def Let_def)
  from fiber_runs_to_its_end [OF r this f] show ?thesis by (simp add: eval_nat_numeral)
qed

end
