(* ===== verification/Scheduling.thy ===== *)
theory Scheduling
  imports Fibers
begin

text \<open>
  The fiber scheduler (\<^verbatim>\<open>scheduler.h\<close>, \<^verbatim>\<open>scheduler.cpp\<close>): the shared task queue, the submission of
  tasks and the loop every scheduling thread runs.  The queue is only touched under the mutex, so
  a submission and the search for a task are atomic steps.  One round of the loop is a function on
  the scheduler and the thread's own state: its fibers, the fiber it reuses for callbacks and the
  state of its \<^verbatim>\<open>wait\<close> fiber, whose body is one test of \<^verbatim>\<open>canStop\<close> per resume.  The number of calls
  of \<^verbatim>\<open>notify\<close>, a virtual function, is recorded.  The release of fiber objects by the last shared
  pointer is not modelled.
\<close>

section \<open>State\<close>

record Task =
  fiber :: "nat option"
  taskCb :: "script option"
  threadId :: int

record Scheduler =
  m_task :: "Task list"
  m_thread_pool :: "nat list"
  m_thr_num :: nat
  m_active_thread_num :: nat
  m_idle_thread_num :: nat
  m_stopping :: bool
  notified :: nat

datatype FiberOrCb = OfFiber "nat option" | OfCb "script option"

fun Task_new :: "FiberOrCb \<Rightarrow> int \<Rightarrow> Task" where
  "Task_new (OfFiber p) thr = \<lparr>fiber = p, taskCb = None, threadId = thr\<rparr>"
| "Task_new (OfCb cb) thr = \<lparr>fiber = None, taskCb = cb, threadId = thr\<rparr>"

definition Task_reset :: "Task \<Rightarrow> Task" where
  "Task_reset t = \<lparr>fiber = None, taskCb = None, threadId = - 1\<rparr>"

definition Task_bool :: "Task \<Rightarrow> bool" where
  "Task_bool t \<longleftrightarrow> fiber t \<noteq> None \<or> taskCb t \<noteq> None"

definition Scheduler_new :: "nat \<Rightarrow> Scheduler" where
  "Scheduler_new thrNum = \<lparr>m_task = [], m_thread_pool = [], m_thr_num = thrNum,
     m_active_thread_num = 0, m_idle_thread_num = 0, m_stopping = True, notified = 0\<rparr>"

definition notify :: "Scheduler \<Rightarrow> Scheduler" where
  "notify s = s\<lparr>notified := Suc (notified s)\<rparr>"

section \<open>Submission\<close>

definition submitNoLock :: "FiberOrCb \<Rightarrow> int \<Rightarrow> Scheduler \<Rightarrow> bool \<times> Scheduler" where
  "submitNoLock fc thrNum s =
     (let needNotify = (m_task s = []); task = Task_new fc thrNum
      in (needNotify, if Task_bool task then s\<lparr>m_task := m_task s @ [task]\<rparr> else s))"

definition submit :: "FiberOrCb \<Rightarrow> int \<Rightarrow> Scheduler \<Rightarrow> Scheduler" where
  "submit fc thrNum s =
     (let (needNotify, s) = submitNoLock fc thrNum s in if needNotify then notify s else s)"

text \<open>The submission of a range: \<^verbatim>\<open>needNotify || submitNoLock(...)\<close> does not evaluate its second
  operand once the first is true.\<close>

fun submit_loop :: "FiberOrCb list \<Rightarrow> bool \<Rightarrow> Scheduler \<Rightarrow> bool \<times> Scheduler" where
  "submit_loop [] needNotify s = (needNotify, s)"
| "submit_loop (fc # fcs) needNotify s =
     (if needNotify then submit_loop fcs True s
      else let (n, s) = submitNoLock fc (- 1) s in submit_loop fcs n s)"

definition submit_range :: "FiberOrCb list \<Rightarrow> Scheduler \<Rightarrow> Scheduler" where
  "submit_range fcs s =
     (let (needNotify, s) = submit_loop fcs False s in if needNotify then notify s else s)"

section \<open>Starting and stopping\<close>

text \<open>The threads of the pool are numbered; \<^verbatim>\<open>stop\<close> joins them after notifying each.\<close>

definition start :: "Scheduler \<Rightarrow> fiber_error + Scheduler" where
  "start s =
     (if \<not> m_stopping s then Inr s
      else if m_thread_pool s \<noteq> [] then Inl AssertFailed
      else Inr (s\<lparr>m_stopping := False, m_thread_pool := [0..<m_thr_num s]\<rparr>))"

definition stop :: "Scheduler \<Rightarrow> nat list \<times> Scheduler" where
  "stop s =
     (m_thread_pool s, (notify ^^ m_thr_num s) (s\<lparr>m_stopping := True\<rparr>)\<lparr>m_thread_pool := []\<rparr>)"

definition canStop :: "Scheduler \<Rightarrow> bool" where
  "canStop s \<longleftrightarrow> m_stopping s \<and> m_active_thread_num s = 0 \<and> m_task s = []"

definition hasIdleThreads :: "Scheduler \<Rightarrow> bool" where
  "hasIdleThreads s \<longleftrightarrow> m_idle_thread_num s > 0"

section \<open>The loop of a scheduling thread\<close>

text \<open>The search for a task, under the lock: \<open>running\<close> says which fibers are in the state
  \<^verbatim>\<open>FIBER_RUNNING\<close>.  The result is \<^verbatim>\<open>notify_me\<close>, the task and what stays in the queue.\<close>

definition elsewhere :: "u64 \<Rightarrow> Task \<Rightarrow> bool" where
  "elsewhere tid t \<longleftrightarrow> threadId t \<noteq> - 1 \<and> word_of_int (threadId t) \<noteq> tid"

definition still_running :: "(nat \<Rightarrow> bool) \<Rightarrow> Task \<Rightarrow> bool" where
  "still_running running t \<longleftrightarrow> (case fiber t of None \<Rightarrow> False | Some p \<Rightarrow> running p)"

fun pick_loop ::
  "u64 \<Rightarrow> (nat \<Rightarrow> bool) \<Rightarrow> bool \<Rightarrow> Task list \<Rightarrow> Task list \<Rightarrow>
   fiber_error + bool \<times> Task option \<times> Task list" where
  "pick_loop tid running notify_me passed [] = Inr (notify_me, None, passed)"
| "pick_loop tid running notify_me passed (t # ts) =
     (if elsewhere tid t then pick_loop tid running True (passed @ [t]) ts
      else if \<not> Task_bool t then Inl AssertFailed
      else if still_running running t then pick_loop tid running True (passed @ [t]) ts
      else Inr (notify_me, Some t, passed @ ts))"

definition pick :: "u64 \<Rightarrow> (nat \<Rightarrow> bool) \<Rightarrow> Scheduler \<Rightarrow> fiber_error + Task option \<times> Scheduler" where
  "pick tid running s =
     rbind (pick_loop tid running False [] (m_task s)) (\<lambda>(notify_me, task, rest).
       let notify_me = (notify_me \<or> rest \<noteq> []); s = s\<lparr>m_task := rest\<rparr>
       in Inr (task, if notify_me then notify s else s))"

record worker =
  w_tid :: u64
  w_thread :: fiber_thread
  w_task_fb :: "nat option"
  w_wait :: FiberState
  w_fresh :: nat

definition state_of :: "fiber_thread \<Rightarrow> nat \<Rightarrow> FiberState option" where
  "state_of th p = map_option m_state (fibers th p)"

text \<open>The three branches of the loop: a fiber, a callback, nothing to do.  \<open>False\<close> is the
  \<^verbatim>\<open>break\<close>.\<close>

definition run_fiber :: "nat \<Rightarrow> Task \<Rightarrow> worker \<Rightarrow> Scheduler \<Rightarrow> fiber_error + worker \<times> Scheduler" where
  "run_fiber p task w s =
     (let s = s\<lparr>m_active_thread_num := Suc (m_active_thread_num s)\<rparr> in
      rbind (resume p (w_thread w)) (\<lambda>th.
      let s = s\<lparr>m_active_thread_num := m_active_thread_num s - 1\<rparr>;
          w = w\<lparr>w_thread := th\<rparr>
      in Inr (w, if state_of th p = Some FIBER_READY then submit (OfFiber (Some p)) (threadId task) s
                 else s)))"

definition task_fiber :: "script \<Rightarrow> worker \<Rightarrow> fiber_error + nat \<times> worker" where
  "task_fiber cb w =
     (case w_task_fb w of
        Some p \<Rightarrow> rbind (Fiber_reset (Some cb) p (w_thread w)) (\<lambda>th. Inr (p, w\<lparr>w_thread := th\<rparr>))
      | None \<Rightarrow> let p = w_fresh w in
          Inr (p, w\<lparr>w_thread := Fiber_new p (Some cb) 0 (w_thread w), w_task_fb := Some p,
                    w_fresh := Suc p\<rparr>))"

definition run_cb :: "script \<Rightarrow> Task \<Rightarrow> worker \<Rightarrow> Scheduler \<Rightarrow> fiber_error + worker \<times> Scheduler" where
  "run_cb cb task w s =
     (let s = s\<lparr>m_active_thread_num := Suc (m_active_thread_num s)\<rparr> in
      rbind (task_fiber cb w) (\<lambda>(p, w).
      let task = Task_reset task in
      rbind (resume p (w_thread w)) (\<lambda>th.
      let s = s\<lparr>m_active_thread_num := m_active_thread_num s - 1\<rparr>;
          w = w\<lparr>w_thread := th\<rparr>
      in if state_of th p = Some FIBER_READY then
           Inr (w\<lparr>w_task_fb := None\<rparr>, submit (OfFiber (Some p)) (threadId task) s)
         else if state_of th p = Some FIBER_TERM \<or> state_of th p = Some FIBER_EXCEPT then
           rbind (Fiber_reset None p th) (\<lambda>th. Inr (w\<lparr>w_thread := th\<rparr>, s))
         else Inr (w\<lparr>w_task_fb := None\<rparr>, s))))"

definition run_idle :: "worker \<Rightarrow> Scheduler \<Rightarrow> bool \<times> worker \<times> Scheduler" where
  "run_idle w s =
     (if w_wait w = FIBER_TERM then (False, w, s)
      else let s = s\<lparr>m_idle_thread_num := Suc (m_idle_thread_num s)\<rparr>;
               w = w\<lparr>w_wait := (if canStop s then FIBER_TERM else FIBER_HOLD)\<rparr>
           in (True, w, s\<lparr>m_idle_thread_num := m_idle_thread_num s - 1\<rparr>))"

definition run_round :: "worker \<Rightarrow> Scheduler \<Rightarrow> fiber_error + bool \<times> worker \<times> Scheduler" where
  "run_round w s =
     rbind (pick (w_tid w) (\<lambda>p. state_of (w_thread w) p = Some FIBER_RUNNING) s) (\<lambda>(task, s).
       case task of
         None \<Rightarrow> Inr (run_idle w s)
       | Some t \<Rightarrow>
           (case fiber t of
              Some p \<Rightarrow> rbind (run_fiber p t w s) (\<lambda>(w, s). Inr (True, w, s))
            | None \<Rightarrow>
                (case taskCb t of
                   Some cb \<Rightarrow> rbind (run_cb cb t w s) (\<lambda>(w, s). Inr (True, w, s))
                 | None \<Rightarrow> Inr (run_idle w s))))"

fun run_rounds :: "nat \<Rightarrow> worker \<Rightarrow> Scheduler \<Rightarrow> fiber_error + worker \<times> Scheduler" where
  "run_rounds 0 w s = Inr (w, s)"
| "run_rounds (Suc n) w s =
     rbind (run_round w s) (\<lambda>(go_on, w, s). if go_on then run_rounds n w s else Inr (w, s))"


section \<open>Submission and search\<close>

lemma notify_sel [simp]:
  "m_task (notify s) = m_task s" "m_active_thread_num (notify s) = m_active_thread_num s"
  "m_stopping (notify s) = m_stopping s" "notified (notify s) = Suc (notified s)"
  by (simp_all add: notify_def)

lemma submit_task:
  "m_task (submit fc thr s) = m_task s @ (if Task_bool (Task_new fc thr) then [Task_new fc thr] else [])"
  by (simp add: submit_def submitNoLock_def Let_def)

lemma submit_loop_notified: "submit_loop fcs True s = (True, s)"
  by (induction fcs) simp_all

lemma submit_loop_nonempty:
  "m_task s \<noteq> [] \<Longrightarrow> submit_loop fcs False s =
     (False, s\<lparr>m_task := m_task s @ filter Task_bool (map (\<lambda>fc. Task_new fc (- 1)) fcs)\<rparr>)"
  by (induction fcs arbitrary: s) (auto simp: submitNoLock_def Let_def)

lemma submit_range_task:
  "m_task (submit_range fcs s) =
     (if m_task s = [] then filter Task_bool (map (\<lambda>fc. Task_new fc (- 1)) (take 1 fcs))
      else m_task s @ filter Task_bool (map (\<lambda>fc. Task_new fc (- 1)) fcs))"
proof (cases "m_task s = []")
  case True
  then show ?thesis
    by (cases fcs) (auto simp: submit_range_def submitNoLock_def Let_def submit_loop_notified)
next
  case False
  then show ?thesis by (simp add: submit_range_def submit_loop_nonempty)
qed

definition eligible :: "u64 \<Rightarrow> (nat \<Rightarrow> bool) \<Rightarrow> Task \<Rightarrow> bool" where
  "eligible tid running t \<longleftrightarrow> \<not> elsewhere tid t \<and> \<not> still_running running t"

lemma pick_loop_none:
  "\<forall>t \<in> set ts. Task_bool t \<and> \<not> eligible tid running t \<Longrightarrow>
   pick_loop tid running n passed ts = Inr (n \<or> ts \<noteq> [], None, passed @ ts)"
  by (induction ts arbitrary: n passed) (auto simp: eligible_def)

lemma pick_loop_some:
  "\<forall>t \<in> set pre. Task_bool t \<and> \<not> eligible tid running t \<Longrightarrow> Task_bool t \<Longrightarrow> eligible tid running t \<Longrightarrow>
   pick_loop tid running n passed (pre @ t # post) = Inr (n \<or> pre \<noteq> [], Some t, passed @ pre @ post)"
  by (induction pre arbitrary: n passed) (auto simp: eligible_def)

lemma pick_none:
  assumes "\<forall>t \<in> set (m_task s). Task_bool t \<and> \<not> eligible tid running t"
  shows "\<exists>s'. pick tid running s = Inr (None, s') \<and> m_task s' = m_task s \<and>
     m_active_thread_num s' = m_active_thread_num s \<and> m_stopping s' = m_stopping s \<and>
     notified s' = notified s + (if m_task s' = [] then 0 else 1)"
  using pick_loop_none [OF assms] by (auto simp: pick_def Let_def)

lemma pick_some:
  assumes "m_task s = pre @ t # post" and "\<forall>u \<in> set pre. Task_bool u \<and> \<not> eligible tid running u"
    and "Task_bool t" and "eligible tid running t"
  shows "\<exists>s'. pick tid running s = Inr (Some t, s') \<and> m_task s' = pre @ post \<and>
     m_active_thread_num s' = m_active_thread_num s \<and> m_stopping s' = m_stopping s \<and>
     notified s' = notified s + (if m_task s' = [] then 0 else 1)"
  using pick_loop_some [OF assms(2-4)] assms(1) by (auto simp: pick_def Let_def)

section \<open>One scheduling thread\<close>

text \<open>The script a suspended fiber goes on with, what is left of a task that has been run once and is
  submitted again, and how often a task is run before it leaves the queue.\<close>

definition fscript :: "Fiber \<Rightarrow> script" where
  "fscript f = (case m_context f of
       AtEntry \<Rightarrow> cb_script f
     | Within s \<Rightarrow> s
     | _ \<Rightarrow> Return)"

fun bursts :: "script \<Rightarrow> nat" where
  "bursts (ToReady s) = Suc (bursts s)"
| "bursts Return = 1"
| "bursts Throw = 1"
| "bursts (ToHold s) = 1"
| "bursts (PlainYield s) = 1"

fun again :: "script \<Rightarrow> script list" where
  "again (ToReady s) = [s]"
| "again _ = []"

definition task_script :: "fiber_thread \<Rightarrow> Task \<Rightarrow> script" where
  "task_script th t = (case fiber t of
       Some p \<Rightarrow> (case fibers th p of None \<Rightarrow> Throw | Some f \<Rightarrow> fscript f)
     | None \<Rightarrow> (case taskCb t of None \<Rightarrow> Throw | Some s \<Rightarrow> s))"

definition scripts :: "worker \<Rightarrow> Scheduler \<Rightarrow> script list" where
  "scripts w s = map (task_script (w_thread w)) (m_task s)"

definition workload :: "worker \<Rightarrow> Scheduler \<Rightarrow> nat" where
  "workload w s = sum_list (map bursts (scripts w s))"

text \<open>The specification of a scheduling thread: round robin.  The first task is run to its next yield and goes
  to the end of the queue when it is ready to go on.\<close>

lemma bursts_again: "bursts s = Suc (sum_list (map bursts (again s)))"
  by (cases s) simp_all

function round_robin :: "script list \<Rightarrow> script list" where
  "round_robin [] = []"
| "round_robin (s # q) = s # round_robin (q @ again s)"
  by pat_completeness auto
termination
  by (relation "measure (\<lambda>q. sum_list (map bursts q))") (simp_all add: bursts_again)

definition runnable :: "Fiber \<Rightarrow> bool" where
  "runnable f \<longleftrightarrow> m_stack f \<and> m_state f \<in> {FIBER_INIT, FIBER_HOLD, FIBER_READY}"

definition queued :: "Scheduler \<Rightarrow> nat list" where
  "queued s = List.map_filter fiber (m_task s)"

text \<open>What a thread finds when it looks for work: tasks that are meant for it, and fibers that can
  be resumed, each queued once.\<close>

definition worker_ok :: "worker \<Rightarrow> Scheduler \<Rightarrow> bool" where
  "worker_ok w s \<longleftrightarrow> thread_ok (w_thread w) \<and> t_mainFiber (w_thread w) \<noteq> None \<and>
     (\<forall>t \<in> set (m_task s). Task_bool t \<and> \<not> elsewhere (w_tid w) t) \<and>
     (\<forall>p \<in> set (queued s). \<exists>f. fibers (w_thread w) p = Some f \<and> runnable f) \<and>
     distinct (queued s) \<and>
     (\<forall>p. w_task_fb w = Some p \<longrightarrow> p \<notin> set (queued s) \<and>
        (\<exists>f. fibers (w_thread w) p = Some f \<and> m_stack f \<and> m_state f = FIBER_INIT)) \<and>
     (\<forall>p \<ge> w_fresh w. fibers (w_thread w) p = None)"

lemma resume_runnable:
  assumes "thread_ok th" and "t_mainFiber th \<noteq> None" and "fibers th p = Some f" and "runnable f"
  shows "resume p th =
    Inr (set_fiber p (run_script (fscript f) (f\<lparr>m_state := FIBER_RUNNING\<rparr>)) (executing (fscript f) th))"
proof -
  have "fiber_ok f" using thread_okD(1) [OF assms(1,3)] .
  then show ?thesis using resume_eq [OF assms(1,3)] assms(2,4)
    by (auto simp: runnable_def fiber_ok_def fscript_def Coroutine_def cb_script_def)
qed

lemma run_script_ready:
  assumes "m_state f = FIBER_RUNNING"
  shows "m_state (run_script s f) = FIBER_READY \<longleftrightarrow> (\<exists>r. s = ToReady r)"
    and "s = ToReady r \<Longrightarrow> fscript (run_script s f) = r"
    and "m_state (run_script s f) = FIBER_TERM \<or> m_state (run_script s f) = FIBER_EXCEPT \<longleftrightarrow>
       s = Return \<or> s = Throw"
  using assms by (cases s; simp add: fscript_def)+

text \<open>What happens to the queue when the fiber \<open>p\<close>, which is not queued, has been resumed.\<close>

lemma state_of_set [simp]: "state_of (set_fiber p f th) p = Some (m_state f)"
  by (simp add: state_of_def)

lemma task_script_other:
  "fiber t \<noteq> Some p \<Longrightarrow> task_script (set_fiber p f th) t = task_script th t"
  by (auto simp: task_script_def split: option.splits)

lemma queued_iff: "p \<in> set (queued s) \<longleftrightarrow> (\<exists>t \<in> set (m_task s). fiber t = Some p)"
  by (force simp: queued_def map_filter_def)

lemma task_script_cong: "fibers th = fibers th' \<Longrightarrow> task_script th = task_script th'"
  by (simp add: task_script_def [abs_def] cong: option.case_cong)

lemma scripts_update:
  assumes "p \<notin> set (queued s)" and "fibers (w_thread w') = (fibers (w_thread w))(p \<mapsto> f)"
  shows "scripts w' s = scripts w s"
proof -
  have "task_script (w_thread w') = task_script (set_fiber p f (w_thread w))"
    using assms(2) by (intro task_script_cong) simp
  then show ?thesis
    using assms(1) by (auto simp: scripts_def queued_iff task_script_other)
qed

lemma worker_okD:
  assumes "worker_ok w s"
  shows "thread_ok (w_thread w)" "t_mainFiber (w_thread w) \<noteq> None"
    "\<And>t. t \<in> set (m_task s) \<Longrightarrow> Task_bool t \<and> \<not> elsewhere (w_tid w) t"
    "\<And>p. p \<in> set (queued s) \<Longrightarrow> \<exists>f. fibers (w_thread w) p = Some f \<and> runnable f"
    "distinct (queued s)"
    "\<And>p. w_task_fb w = Some p \<Longrightarrow> p \<notin> set (queued s) \<and>
        (\<exists>f. fibers (w_thread w) p = Some f \<and> m_stack f \<and> m_state f = FIBER_INIT)"
    "\<And>p. p \<ge> w_fresh w \<Longrightarrow> fibers (w_thread w) p = None"
  using assms unfolding worker_ok_def by blast+

lemma queued_append [simp]:
  "queued (s\<lparr>m_task := ts\<rparr>) = List.map_filter fiber ts"
  by (simp add: queued_def)

lemma worker_ok_same_queue:
  "worker_ok w s \<Longrightarrow> m_task s' = m_task s \<Longrightarrow> worker_ok w s'"
  by (simp add: worker_ok_def queued_def)

lemma worker_upd_commute [simp]:
  "w\<lparr>w_task_fb := x, w_thread := th\<rparr> = w\<lparr>w_thread := th, w_task_fb := x\<rparr>"
  by simp

lemma worker_ok_forget: "worker_ok w s \<Longrightarrow> worker_ok (w\<lparr>w_task_fb := None\<rparr>) s"
  by (simp add: worker_ok_def)

lemma worker_ok_update:
  assumes "worker_ok w s" and "p \<notin> set (queued s)" and "w_task_fb w \<noteq> Some p"
    and "p < n" and "w_fresh w \<le> n"
    and "thread_ok th" and "fibers th = (fibers (w_thread w))(p \<mapsto> f')"
    and "t_mainFiber th = t_mainFiber (w_thread w)"
  shows "worker_ok (w\<lparr>w_thread := th, w_fresh := n\<rparr>) s"
proof -
  note ok = worker_okD [OF assms(1)]
  have q: "\<exists>f. fibers th q = Some f \<and> runnable f" if "q \<in> set (queued s)" for q
    using ok(4) [OF that] that assms(2,7) by auto
  have fb: "q \<notin> set (queued s) \<and> (\<exists>f. fibers th q = Some f \<and> m_stack f \<and> m_state f = FIBER_INIT)"
    if "w_task_fb w = Some q" for q
    using ok(6) [OF that] that assms(3,7) by auto
  show ?thesis
    unfolding worker_ok_def using ok(2,3,5,7) assms(4,5,6,7,8) q fb by auto
qed

lemma worker_ok_set_fiber:
  assumes "worker_ok w s" and "p \<notin> set (queued s)" and "w_task_fb w \<noteq> Some p" and "p < w_fresh w"
    and "thread_ok (set_fiber p f' (w_thread w))"
  shows "worker_ok (w\<lparr>w_thread := set_fiber p f' (w_thread w)\<rparr>) s"
  using worker_ok_update [OF assms(1-4) order_refl assms(5), of f'] by simp

lemma worker_ok_submit:
  assumes "worker_ok w s" and "p \<notin> set (queued s)" and "w_task_fb w \<noteq> Some p"
    and "fibers (w_thread w) p = Some f" and "runnable f"
    and "\<not> elsewhere (w_tid w) (Task_new (OfFiber (Some p)) thr)"
  shows "worker_ok w (submit (OfFiber (Some p)) thr s)"
proof -
  note ok = worker_okD [OF assms(1)]
  let ?s = "submit (OfFiber (Some p)) thr s" and ?t = "Task_new (OfFiber (Some p)) thr"
  have t: "m_task ?s = m_task s @ [?t]" by (simp add: submit_task Task_bool_def)
  then have qs: "queued ?s = queued s @ [p]" by (simp add: queued_def map_filter_def)
  show ?thesis
    unfolding worker_ok_def qs t using ok(1,2,3,4,5,6,7) assms(2-6)
    by (auto simp: Task_bool_def)
qed

text \<open>A resumed fiber that was not in the queue: it is queued again exactly when it yielded to
  ready, with the rest of its script.\<close>

lemma resumed_ok:
  assumes "worker_ok w s" and "p \<notin> set (queued s)" and "w_task_fb w \<noteq> Some p" and "p < w_fresh w"
    and "fibers (w_thread w) p = Some f" and "runnable f"
    and "\<not> elsewhere (w_tid w) (Task_new (OfFiber (Some p)) thr)"
    and "th = set_fiber p (run_script (fscript f) (f\<lparr>m_state := FIBER_RUNNING\<rparr>)) (executing (fscript f) (w_thread w))"
    and "s' = (if state_of th p = Some FIBER_READY then submit (OfFiber (Some p)) thr s else s)"
  shows "worker_ok (w\<lparr>w_thread := th\<rparr>) s' \<and> scripts (w\<lparr>w_thread := th\<rparr>) s' = scripts w s @ again (fscript f)"
proof -
  let ?f = "run_script (fscript f) (f\<lparr>m_state := FIBER_RUNNING\<rparr>)"
  note ok = worker_okD [OF assms(1)]
  have "thread_ok th"
    using thread_ok_resume [OF ok(1) assms(5), of th] resume_runnable [OF ok(1,2) assms(5,6)]
      assms(6,8) by (simp add: runnable_def)
  then have w: "worker_ok (w\<lparr>w_thread := th\<rparr>) s"
    using worker_ok_update [OF assms(1-4) order_refl, of th ?f] assms(8) by simp
  have same: "scripts (w\<lparr>w_thread := th\<rparr>) s = scripts w s"
    using assms(8) by (intro scripts_update [OF assms(2), of _ _ ?f]) simp
  show ?thesis
  proof (cases "\<exists>r. fscript f = ToReady r")
    case True
    then obtain r where r: "fscript f = ToReady r" by blast
    then have st: "state_of th p = Some FIBER_READY" "fscript ?f = r" "runnable ?f"
      "fibers th p = Some ?f"
      using run_script_ready [of "f\<lparr>m_state := FIBER_RUNNING\<rparr>"] assms(6,8)
      by (auto simp: runnable_def fscript_def)
    then have s': "s' = submit (OfFiber (Some p)) thr s" using assms(9) by simp
    have "scripts (w\<lparr>w_thread := th\<rparr>) s' = scripts (w\<lparr>w_thread := th\<rparr>) s @ [r]"
      using st(2,4) by (simp add: s' scripts_def submit_task Task_bool_def task_script_def)
    then show ?thesis
      using worker_ok_submit [OF w assms(2), of ?f thr] assms(3,7) st same r s' by simp
  next
    case False
    then have "state_of th p \<noteq> Some FIBER_READY"
      using run_script_ready(1) [of "f\<lparr>m_state := FIBER_RUNNING\<rparr>"] assms(8) by simp
    then have "s' = s" using assms(9) by simp
    moreover have "again (fscript f) = []" using False by (cases "fscript f") auto
    ultimately show ?thesis using w same by simp
  qed
qed

lemma scripts_same_queue: "m_task s' = m_task s \<Longrightarrow> scripts w s' = scripts w s"
  by (simp add: scripts_def)

lemma submit_same_queue:
  "m_task s' = m_task s \<Longrightarrow> m_task (submit fc thr s') = m_task (submit fc thr s)"
  by (simp add: submit_task)

lemma run_fiber_step:
  assumes "worker_ok w s" and "p \<notin> set (queued s)" and "w_task_fb w \<noteq> Some p"
    and "fibers (w_thread w) p = Some f" and "runnable f" and "\<not> elsewhere (w_tid w) t"
  shows "\<exists>w' s'. run_fiber p t w s = Inr (w', s') \<and> worker_ok w' s' \<and>
     scripts w' s' = scripts w s @ again (fscript f) \<and> t_ran (w_thread w') = t_ran (w_thread w) @ [fscript f]"
proof -
  note ok = worker_okD [OF assms(1)]
  let ?th = "set_fiber p (run_script (fscript f) (f\<lparr>m_state := FIBER_RUNNING\<rparr>)) (executing (fscript f) (w_thread w))"
  let ?s = "s\<lparr>m_active_thread_num := Suc (m_active_thread_num s) - 1\<rparr>"
  have fresh: "p < w_fresh w" using ok(7) [of p] assms(4) by (metis leI option.distinct(1))
  have thr: "\<not> elsewhere (w_tid w) (Task_new (OfFiber (Some p)) (threadId t))"
    using assms(6) by (simp add: elsewhere_def)
  have "run_fiber p t w s = Inr (w\<lparr>w_thread := ?th\<rparr>,
      if state_of ?th p = Some FIBER_READY then submit (OfFiber (Some p)) (threadId t) ?s else ?s)"
    using resume_runnable [OF ok(1,2) assms(4,5)] by (simp add: run_fiber_def Let_def)
  then show ?thesis
    using resumed_ok [of w ?s p f "threadId t" ?th, OF _ _ assms(3) fresh assms(4,5) thr refl refl]
      assms(1,2) scripts_same_queue [of ?s s w] by simp
qed

lemma task_fiber_step:
  assumes "worker_ok w s"
  shows "\<exists>p w1 f. task_fiber cb w = Inr (p, w1) \<and> w_task_fb w1 = Some p \<and>
     worker_ok (w1\<lparr>w_task_fb := None\<rparr>) s \<and> p \<notin> set (queued s) \<and> p < w_fresh w1 \<and>
     fibers (w_thread w1) p = Some f \<and> runnable f \<and> fscript f = cb \<and>
     scripts (w1\<lparr>w_task_fb := None\<rparr>) s = scripts w s \<and> w_tid w1 = w_tid w \<and>
     t_ran (w_thread w1) = t_ran (w_thread w)"
proof -
  note ok = worker_okD [OF assms]
  note okN = worker_ok_forget [OF assms]
  show ?thesis
  proof (cases "w_task_fb w")
    case (Some p)
    then obtain f where f: "p \<notin> set (queued s)" "fibers (w_thread w) p = Some f" "m_stack f"
      "m_state f = FIBER_INIT" using ok(6) [OF Some] by blast
    let ?f = "f\<lparr>m_cb := Some cb, m_context := AtEntry, m_state := FIBER_INIT\<rparr>"
    let ?th = "set_fiber p ?f (w_thread w)"
    have "m_stackSize f \<noteq> 0" using thread_okD(1) [OF ok(1) f(2)] f(3) by (simp add: fiber_ok_def)
    then have r: "Fiber_reset (Some cb) p (w_thread w) = Inr ?th" using f by (simp add: Fiber_reset_def)
    have fresh: "p < w_fresh w" using ok(7) [of p] f(2) by (metis leI option.distinct(1))
    have "worker_ok (w\<lparr>w_task_fb := None, w_thread := ?th\<rparr>) s"
      using worker_ok_set_fiber [OF okN f(1)] fresh thread_ok_reset [OF ok(1) r] by simp
    then show ?thesis
      using Some r f fresh scripts_update [OF f(1), of "w\<lparr>w_thread := ?th, w_task_fb := None\<rparr>" w ?f]
      by (simp add: task_fiber_def runnable_def fscript_def cb_script_def)
  next
    case None
    let ?p = "w_fresh w"
    let ?th = "Fiber_new ?p (Some cb) 0 (w_thread w)"
    have new: "fibers (w_thread w) ?p = None" using ok(7) by simp
    then have q: "?p \<notin> set (queued s)" using ok(4) by fastforce
    obtain f where f: "fibers ?th = (fibers (w_thread w))(?p \<mapsto> f)" "runnable f" "fscript f = cb"
      "t_mainFiber ?th = t_mainFiber (w_thread w)"
      by (simp add: Fiber_new_def Let_def runnable_def fscript_def cb_script_def)
    have "worker_ok (w\<lparr>w_thread := ?th, w_fresh := Suc ?p\<rparr>) s"
      using worker_ok_update [OF assms q _ _ _ thread_ok_new [OF ok(1) new] f(1,4), of "Suc ?p"] None
      by simp
    moreover have "scripts (w\<lparr>w_thread := ?th, w_fresh := Suc ?p, w_task_fb := None\<rparr>) s = scripts w s"
      using scripts_update [OF q] f(1) by simp
    ultimately show ?thesis
      using None q f worker_ok_forget by (fastforce simp: task_fiber_def Let_def)
  qed
qed

lemma run_cb_step:
  assumes "worker_ok w s"
  shows "\<exists>w' s'. run_cb cb t w s = Inr (w', s') \<and> worker_ok w' s' \<and>
     scripts w' s' = scripts w s @ again cb \<and> t_ran (w_thread w') = t_ran (w_thread w) @ [cb]"
proof -
  let ?s = "s\<lparr>m_active_thread_num := Suc (m_active_thread_num s) - 1\<rparr>"
  obtain p w1 f where tf: "task_fiber cb w = Inr (p, w1)" "w_task_fb w1 = Some p"
    "worker_ok (w1\<lparr>w_task_fb := None\<rparr>) s" "p \<notin> set (queued s)" "p < w_fresh w1"
    "fibers (w_thread w1) p = Some f" "runnable f" "fscript f = cb"
    "scripts (w1\<lparr>w_task_fb := None\<rparr>) s = scripts w s" "t_ran (w_thread w1) = t_ran (w_thread w)"
    using task_fiber_step [OF assms, of cb] by blast
  let ?f = "run_script cb (f\<lparr>m_state := FIBER_RUNNING\<rparr>)"
  let ?th = "set_fiber p ?f (executing cb (w_thread w1))"
  let ?s' = "if state_of ?th p = Some FIBER_READY then submit (OfFiber (Some p)) (- 1) ?s else ?s"
  let ?w0 = "w1\<lparr>w_task_fb := None\<rparr>"
  note ok = worker_okD(1,2) [OF tf(3)]
  have res: "resume p (w_thread w1) = Inr ?th"
    using resume_runnable [OF _ _ tf(6,7)] ok tf(8) by simp
  have thr: "\<not> elsewhere (w_tid ?w0) (Task_new (OfFiber (Some p)) (- 1))" by (simp add: elsewhere_def)
  have done_ok: "worker_ok (?w0\<lparr>w_thread := ?th\<rparr>) ?s'"
    "scripts (?w0\<lparr>w_thread := ?th\<rparr>) ?s' = scripts w s @ again cb"
    using resumed_ok [of ?w0 ?s p f "- 1" ?th, OF _ _ _ _ _ tf(7) thr _ refl] tf
      scripts_same_queue [of ?s s ?w0] by simp_all
  show ?thesis
  proof (cases "cb = Return \<or> cb = Throw")
    case True
    then have st: "m_state ?f = FIBER_TERM \<or> m_state ?f = FIBER_EXCEPT" by auto
    then have s': "?s' = ?s" by auto
    let ?g = "?f\<lparr>m_cb := None, m_context := AtEntry, m_state := FIBER_INIT\<rparr>"
    let ?th' = "set_fiber p ?g ?th"
    have sz: "m_stackSize f \<noteq> 0" "m_stack f"
      using thread_okD(1) [of "w_thread w1" p f] ok(1) tf(6,7) by (auto simp: runnable_def fiber_ok_def)
    have ft: "fibers ?th p = Some ?f" by simp
    have r: "Fiber_reset None p ?th = Inr ?th'" using st sz(1) by (auto simp: Fiber_reset_def)
    have run: "run_cb cb t w s = Inr (w1\<lparr>w_thread := ?th'\<rparr>, ?s)"
      using tf(1) res r st by (auto simp: run_cb_def Let_def)
    have okth: "thread_ok ?th" using worker_okD(1) [OF done_ok(1)] by simp
    have w: "worker_ok (?w0\<lparr>w_thread := ?th'\<rparr>) ?s"
      using worker_ok_set_fiber [OF done_ok(1), of p ?g] thread_ok_reset [OF okth r] tf(4,5) s' by simp
    then have "worker_ok (w1\<lparr>w_thread := ?th'\<rparr>) ?s"
      using tf(2,4) sz(2) by (simp add: worker_ok_def)
    moreover have "scripts (w1\<lparr>w_thread := ?th'\<rparr>) ?s = scripts (?w0\<lparr>w_thread := ?th\<rparr>) ?s"
      using tf(4) by (intro scripts_update [of p _ _ _ ?g]) (simp_all add: queued_def)
    ultimately show ?thesis using run done_ok(2) s' tf(10) by auto
  next
    case False
    then have "\<not> (m_state ?f = FIBER_TERM \<or> m_state ?f = FIBER_EXCEPT)"
      using run_script_ready(3) [of "f\<lparr>m_state := FIBER_RUNNING\<rparr>" cb] by simp
    then have "run_cb cb t w s = Inr (?w0\<lparr>w_thread := ?th\<rparr>, ?s')"
      using tf(1) res by (auto simp: run_cb_def Let_def Task_reset_def)
    then show ?thesis using done_ok tf(10) by auto
  qed
qed

text \<open>A round with work to do takes the first task, runs it once and keeps the invariant: it is a round of the
  specification.\<close>

lemma run_round_step:
  assumes "worker_ok w s" and "m_task s \<noteq> []"
  shows "\<exists>w' s' x q. run_round w s = Inr (True, w', s') \<and> worker_ok w' s' \<and>
     scripts w s = x # q \<and> scripts w' s' = q @ again x \<and> t_ran (w_thread w') = t_ran (w_thread w) @ [x]"
proof -
  note ok = worker_okD [OF assms(1)]
  let ?run = "\<lambda>p. state_of (w_thread w) p = Some FIBER_RUNNING"
  obtain t ts where q: "m_task s = t # ts" using assms(2) by (cases "m_task s") auto
  then have t: "Task_bool t" "\<not> elsewhere (w_tid w) t" using ok(3) by auto
  have "\<not> ?run p" if p: "fiber t = Some p" for p
  proof -
    have "p \<in> set (queued s)" using p q by (auto simp: queued_iff)
    then show ?thesis using ok(4) by (fastforce simp: state_of_def runnable_def)
  qed
  then have "eligible (w_tid w) ?run t"
    using t(2) by (auto simp: eligible_def still_running_def split: option.splits)
  then obtain s1 where pk: "pick (w_tid w) ?run s = Inr (Some t, s1)" "m_task s1 = ts"
    using pick_some [of s "[]" t ts] q t(1) by auto
  have qs: "queued s = (case fiber t of None \<Rightarrow> queued s1 | Some p \<Rightarrow> p # queued s1)"
    using q pk(2) by (simp add: queued_def map_filter_simps split: option.splits)
  have ok1: "worker_ok w s1"
    unfolding worker_ok_def using ok q pk(2) qs by (auto split: option.splits)
  have load: "scripts w s = task_script (w_thread w) t # scripts w s1"
    using q pk(2) by (simp add: scripts_def)
  show ?thesis
  proof (cases "fiber t")
    case (Some p)
    then have p: "p \<in> set (queued s)" "p \<notin> set (queued s1)" using qs ok(5) by auto
    then obtain f where f: "fibers (w_thread w) p = Some f" "runnable f" using ok(4) by blast
    have "w_task_fb w \<noteq> Some p" using ok(6) p(1) by blast
    then show ?thesis
      using run_fiber_step [OF ok1 p(2) _ f t(2)] pk(1) Some f load
      by (fastforce simp: run_round_def task_script_def)
  next
    case None
    then obtain cb where "taskCb t = Some cb" using t(1) by (auto simp: Task_bool_def)
    then show ?thesis
      using run_cb_step [OF ok1, of cb t] pk(1) None load
      by (fastforce simp: run_round_def task_script_def)
  qed
qed

lemma run_rounds_spec:
  assumes "worker_ok w s" and "n \<le> workload w s"
  shows "\<exists>w' s'. run_rounds n w s = Inr (w', s') \<and> worker_ok w' s' \<and> workload w' s' = workload w s - n \<and>
    t_ran (w_thread w') @ round_robin (scripts w' s') = t_ran (w_thread w) @ round_robin (scripts w s)"
  using assms
proof (induction n arbitrary: w s)
  case (Suc n)
  have "m_task s \<noteq> []" using Suc.prems(2) by (auto simp: workload_def scripts_def)
  then obtain w1 s1 x q where r: "run_round w s = Inr (True, w1, s1)" "worker_ok w1 s1" "scripts w s = x # q"
      "scripts w1 s1 = q @ again x" "t_ran (w_thread w1) = t_ran (w_thread w) @ [x]"
    using run_round_step [OF Suc.prems(1)] by blast
  have "workload w s = Suc (workload w1 s1)" using r(3,4) by (simp add: workload_def bursts_again [of x])
  then show ?case using Suc.IH [of w1 s1] Suc.prems(2) r by simp
qed simp

lemma workload_zero: "workload w s = 0 \<longleftrightarrow> m_task s = []"
  by (cases "m_task s") (simp_all add: workload_def scripts_def bursts_again)

section \<open>What the scheduler guarantees\<close>

text \<open>C2: a scheduling thread whose queue holds tasks meant for it (callbacks and suspended fibers, each
  fiber once) executes them round robin: it runs the first task to its next yield, which puts it at the end of
  the queue again when it yields to ready, and so on until every task has ended or put itself on hold.
  What is executed and in which order is exactly that of the specification; the queue is empty after as many
  rounds as the tasks have runs and not before, no round is idle, and no assertion of the fibers fails.\<close>

theorem scheduler_drains_queue:
  assumes "worker_ok w s"
  shows "(\<exists>w' s'. run_rounds (workload w s) w s = Inr (w', s') \<and> worker_ok w' s' \<and> m_task s' = [] \<and>
      t_ran (w_thread w') = t_ran (w_thread w) @ round_robin (scripts w s)) \<and>
    (\<forall>n < workload w s. \<exists>w' s'. run_rounds n w s = Inr (w', s') \<and> m_task s' \<noteq> [])"
proof (intro conjI allI impI)
  obtain w' s' where r: "run_rounds (workload w s) w s = Inr (w', s')" "worker_ok w' s'" "m_task s' = []"
      "t_ran (w_thread w') @ round_robin (scripts w' s') = t_ran (w_thread w) @ round_robin (scripts w s)"
    using run_rounds_spec [OF assms order_refl] by (auto simp: workload_zero)
  then show "\<exists>w' s'. run_rounds (workload w s) w s = Inr (w', s') \<and> worker_ok w' s' \<and> m_task s' = [] \<and>
      t_ran (w_thread w') = t_ran (w_thread w) @ round_robin (scripts w s)"
    by (auto simp: scripts_def)
next
  fix n assume "n < workload w s"
  then obtain w' s' where "run_rounds n w s = Inr (w', s')" "workload w' s' \<noteq> 0"
    using run_rounds_spec [OF assms, of n] by auto
  then show "\<exists>w' s'. run_rounds n w s = Inr (w', s') \<and> m_task s' \<noteq> []" by (auto simp: workload_zero)
qed

theorem scheduler_drains_queue_witness:
  "\<exists>w' s'. run_rounds 3
      \<lparr>w_tid = 7, w_thread = snd (EnableFiber 0 thread_new), w_task_fb = None, w_wait = FIBER_INIT,
       w_fresh = 1\<rparr>
      (submit (OfCb (Some Throw)) 7 (submit (OfCb (Some (ToReady Return))) (- 1) (Scheduler_new 1))) =
    Inr (w', s') \<and> m_task s' = [] \<and> t_ran (w_thread w') = [ToReady Return, Throw, Return]"
proof -
  let ?w = "\<lparr>w_tid = 7, w_thread = snd (EnableFiber 0 thread_new), w_task_fb = None,
    w_wait = FIBER_INIT, w_fresh = 1\<rparr>"
  let ?s = "submit (OfCb (Some Throw)) 7 (submit (OfCb (Some (ToReady Return))) (- 1) (Scheduler_new 1))"
  have th: "thread_ok (snd (EnableFiber 0 thread_new))"
    using thread_ok_enable [OF thread_ok_start, of 0] by (simp add: thread_new_def)
  have q: "m_task ?s = [\<lparr>fiber = None, taskCb = Some (ToReady Return), threadId = - 1\<rparr>,
      \<lparr>fiber = None, taskCb = Some Throw, threadId = 7\<rparr>]"
    by (simp add: submit_task Scheduler_new_def Task_bool_def)
  have "worker_ok ?w ?s"
    unfolding worker_ok_def using th q
    by (auto simp: queued_def map_filter_simps Task_bool_def elsewhere_def
        EnableFiber_def Fiber_main_def thread_new_def Let_def)
  moreover have sc: "scripts ?w ?s = [ToReady Return, Throw]" using q by (simp add: scripts_def task_script_def)
  moreover have "workload ?w ?s = 3" unfolding workload_def sc by simp
  moreover have "t_ran (w_thread ?w) = []"
    by (simp add: EnableFiber_def Fiber_main_def thread_new_def Let_def)
  ultimately show ?thesis using scheduler_drains_queue [of ?w ?s] by auto
qed

text \<open>The search takes the first task of the queue that is not bound to another thread and whose
  fiber is not running, removes exactly it and keeps the order of the others; it finds nothing
  only when there is no such task; and others are notified exactly when tasks are left.\<close>

lemma pick_takes_first_eligible:
  assumes "\<forall>t \<in> set (m_task s). Task_bool t"
  shows "\<exists>r s'. pick tid running s = Inr (r, s') \<and>
     (case r of
        None \<Rightarrow> m_task s' = m_task s \<and> (\<forall>t \<in> set (m_task s). \<not> eligible tid running t)
      | Some t \<Rightarrow> \<exists>pre post. m_task s = pre @ t # post \<and> m_task s' = pre @ post \<and>
          (\<forall>u \<in> set pre. \<not> eligible tid running u) \<and> eligible tid running t) \<and>
     notified s' = notified s + (if m_task s' = [] then 0 else 1)"
proof (cases "\<exists>t \<in> set (m_task s). eligible tid running t")
  case True
  then obtain pre t post where p: "m_task s = pre @ t # post" "eligible tid running t"
    "\<forall>u \<in> set pre. \<not> eligible tid running u"
    using split_list_first_prop [of "m_task s" "eligible tid running"] by blast
  then have "\<forall>u \<in> set pre. Task_bool u \<and> \<not> eligible tid running u" "Task_bool t" using assms by auto
  from pick_some [OF p(1) this p(2)] obtain s' where "pick tid running s = Inr (Some t, s')"
    "m_task s' = pre @ post" "notified s' = notified s + (if m_task s' = [] then 0 else 1)" by blast
  then show ?thesis using p by (intro exI [of _ "Some t"] exI [of _ s']) auto
next
  case False
  then have "\<forall>t \<in> set (m_task s). Task_bool t \<and> \<not> eligible tid running t" using assms by blast
  from pick_none [OF this] obtain s' where "pick tid running s = Inr (None, s')"
    "m_task s' = m_task s" "notified s' = notified s + (if m_task s' = [] then 0 else 1)" by blast
  then show ?thesis using False by (intro exI [of _ None] exI [of _ s']) auto
qed

lemma pick_takes_first_eligible_example:
  "\<exists>r s'. pick 7 (\<lambda>_. False)
      (submit (OfCb (Some Throw)) 7 (submit (OfCb (Some Return)) 9 (Scheduler_new 2))) = Inr (r, s') \<and>
      notified s' = 1 + (if m_task s' = [] then 0 else 1)"
proof -
  let ?s = "submit (OfCb (Some Throw)) 7 (submit (OfCb (Some Return)) 9 (Scheduler_new 2))"
  have n: "notified ?s = 1"
    by (simp add: submit_def submitNoLock_def Scheduler_new_def Task_bool_def Let_def)
  have "\<forall>t \<in> set (m_task ?s). Task_bool t"
    by (simp add: submit_task Scheduler_new_def Task_bool_def)
  from pick_takes_first_eligible [OF this, of 7 "\<lambda>_. False"] show ?thesis unfolding n by blast
qed

end
