(* ===== verification/Fiber_Sync.thy ===== *)
theory Fiber_Sync
  imports Scheduling
begin

text \<open>
  Synchronisation between fibers: \<^verbatim>\<open>FiberMutex\<close>, \<^verbatim>\<open>FiberCondvar\<close>, \<^verbatim>\<open>Channel\<close> (\<^verbatim>\<open>sync/\<close>) and the
  \<^verbatim>\<open>ds::CircleBuffer\<close> inside a channel.  An operation that may put the fiber on hold runs up to the
  hold or its end and says which; waking a waiter submits its fiber to the scheduler.  The spin
  locks protect single queue operations only and are not modelled; \<^verbatim>\<open>m_lock\<close> is the lock the mutex
  hands out.
\<close>

section \<open>FiberMutex\<close>

record FiberMutex =
  m_wait_queue :: "nat list"
  m_lock :: bool
  m_fiber_id :: u64

datatype lock_result = Acquired | Waits

definition FiberMutex_new :: FiberMutex where
  "FiberMutex_new = \<lparr>m_wait_queue = [], m_lock = False, m_fiber_id = - 1\<rparr>"

definition tryLock :: "FiberMutex \<Rightarrow> bool \<times> FiberMutex" where
  "tryLock m = (\<not> m_lock m, m\<lparr>m_lock := True\<rparr>)"

text \<open>\<^verbatim>\<open>lock\<close>: \<open>fid\<close> and \<open>self\<close> are the identifier and the address of the calling fiber;
  \<open>freed\<close> says whether another thread releases the lock between the first attempt, if that
  fails, and the four that follow.\<close>

definition fm_lock :: "bool \<Rightarrow> u64 \<Rightarrow> nat \<Rightarrow> FiberMutex \<Rightarrow> lock_result \<times> FiberMutex" where
  "fm_lock freed fid self m =
     (if fid = m_fiber_id m then (Acquired, m)
      else let (got, m) = tryLock m in
      if got then (Acquired, m)
      else let m = (if freed then m\<lparr>m_lock := False\<rparr> else m); (got, m) = tryLock m in
      if got then (Acquired, m\<lparr>m_fiber_id := fid\<rparr>)
      else (Waits, m\<lparr>m_wait_queue := m_wait_queue m @ [self]\<rparr>))"

definition fm_unlock :: "FiberMutex \<Rightarrow> Scheduler \<Rightarrow> FiberMutex \<times> Scheduler" where
  "fm_unlock m s =
     (case m_wait_queue m of
        [] \<Rightarrow> (m, s)
      | f # fs \<Rightarrow> (m\<lparr>m_wait_queue := fs, m_lock := False\<rparr>, submit (OfFiber (Some f)) (- 1) s))"

section \<open>FiberCondvar\<close>

type_synonym FiberCondvar = "nat list"

definition cv_wait :: "nat \<Rightarrow> FiberCondvar \<Rightarrow> FiberMutex \<Rightarrow> Scheduler \<Rightarrow>
    FiberCondvar \<times> FiberMutex \<times> Scheduler" where
  "cv_wait self q m s = (let (m, s) = fm_unlock m s in (q @ [self], m, s))"

definition cv_notify :: "FiberCondvar \<Rightarrow> Scheduler \<Rightarrow> FiberCondvar \<times> Scheduler" where
  "cv_notify q s = (case q of [] \<Rightarrow> (q, s) | f # fs \<Rightarrow> (fs, submit (OfFiber (Some f)) (- 1) s))"

fun cv_notifyAll :: "FiberCondvar \<Rightarrow> Scheduler \<Rightarrow> FiberCondvar \<times> Scheduler" where
  "cv_notifyAll [] s = ([], s)"
| "cv_notifyAll (f # fs) s = cv_notifyAll fs (submit (OfFiber (Some f)) (- 1) s)"

section \<open>CircleBuffer\<close>

datatype chan_error = ChanNull | ChanOutOfBounds

record 'a CircleBuffer =
  m_container :: "'a list"
  m_r_idx :: nat
  m_w_idx :: nat
  cb_size :: nat
  cb_capacity :: nat

definition CircleBuffer_new :: "'a CircleBuffer" where
  "CircleBuffer_new = \<lparr>m_container = [], m_r_idx = 0, m_w_idx = 0, cb_size = 0, cb_capacity = 0\<rparr>"

definition cb_empty :: "'a CircleBuffer \<Rightarrow> bool" where
  "cb_empty b \<longleftrightarrow> m_r_idx b = m_w_idx b"

definition cb_full :: "'a CircleBuffer \<Rightarrow> bool" where
  "cb_full b \<longleftrightarrow> cb_size b = cb_capacity b"

definition cb_push :: "'a \<Rightarrow> 'a CircleBuffer \<Rightarrow> chan_error + bool \<times> 'a CircleBuffer" where
  "cb_push v b =
     (if cb_full b then Inr (False, b)
      else if m_w_idx b \<ge> length (m_container b) then Inl ChanOutOfBounds
      else Inr (True, b\<lparr>m_container := (m_container b)[m_w_idx b := v],
                       m_w_idx := Suc (m_w_idx b), cb_size := Suc (cb_size b)\<rparr>))"

definition cb_pop :: "'a CircleBuffer \<Rightarrow> chan_error + 'a option \<times> 'a CircleBuffer" where
  "cb_pop b =
     (if cb_empty b then Inr (None, b)
      else if m_r_idx b \<ge> length (m_container b) then Inl ChanOutOfBounds
      else Inr (Some (m_container b ! m_r_idx b),
                b\<lparr>m_r_idx := Suc (m_r_idx b), cb_size := szsub (cb_size b) 1\<rparr>))"

section \<open>Channel\<close>

record 'a Rep =
  m_isClosed :: bool
  m_capacity :: u64
  ch_size :: u64
  ch_data :: "'a CircleBuffer"
  m_mutex :: FiberMutex
  m_empty_cond :: FiberCondvar
  m_full_cond :: FiberCondvar

text \<open>A channel is its pointer to the representation, which the default constructor leaves null;
  \<open>closed\<close> is the value the constructor of \<^verbatim>\<open>Rep\<close> leaves uninitialised.\<close>

type_synonym 'a Channel = "'a Rep option"

definition Channel_new :: "'a Channel" where
  "Channel_new = None"

definition Rep_new :: "bool \<Rightarrow> 'a Rep" where
  "Rep_new closed = \<lparr>m_isClosed = closed, m_capacity = 0, ch_size = 0, ch_data = CircleBuffer_new,
     m_mutex = FiberMutex_new, m_empty_cond = [], m_full_cond = []\<rparr>"

datatype 'v outcome = Finished 'v | OnHold

text \<open>\<^verbatim>\<open>tryPush\<close> and \<^verbatim>\<open>tryPop\<close> with the mutex already taken; \<^verbatim>\<open>push\<close> and \<^verbatim>\<open>pop\<close> from the point
  where the mutex is held, at first (\<open>woken\<close> false) or when a wait has come back.\<close>

definition ch_tryPush :: "'a \<Rightarrow> 'a Channel \<Rightarrow> chan_error + bool \<times> 'a Channel" where
  "ch_tryPush v ch =
     (case ch of
        None \<Rightarrow> Inl ChanNull
      | Some r \<Rightarrow>
          if m_isClosed r then Inr (False, ch)
          else rbind (cb_push v (ch_data r)) (\<lambda>(b, d). Inr (b, Some (r\<lparr>ch_data := d\<rparr>))))"

definition ch_tryPop :: "'a Channel \<Rightarrow> chan_error + 'a option \<times> 'a Channel" where
  "ch_tryPop ch =
     (case ch of
        None \<Rightarrow> Inl ChanNull
      | Some r \<Rightarrow>
          if m_isClosed r then Inr (None, ch)
          else rbind (cb_pop (ch_data r)) (\<lambda>(v, d). Inr (v, Some (r\<lparr>ch_data := d\<rparr>))))"

definition ch_push :: "bool \<Rightarrow> nat \<Rightarrow> 'a \<Rightarrow> 'a Channel \<Rightarrow> Scheduler \<Rightarrow>
    chan_error + bool outcome \<times> 'a Channel \<times> Scheduler" where
  "ch_push woken self v ch s =
     (case ch of
        None \<Rightarrow> Inl ChanNull
      | Some r \<Rightarrow>
          if woken \<and> m_isClosed r then
            let (m, s) = fm_unlock (m_mutex r) s in Inr (Finished False, Some (r\<lparr>m_mutex := m\<rparr>), s)
          else rbind (cb_push v (ch_data r)) (\<lambda>(b, d).
            let r = r\<lparr>ch_data := d\<rparr> in
            if b then
              let (q, s) = cv_notify (m_full_cond r) s; (m, s) = fm_unlock (m_mutex r) s
              in Inr (Finished True, Some (r\<lparr>m_full_cond := q, m_mutex := m\<rparr>), s)
            else
              let (q, m, s) = cv_wait self (m_empty_cond r) (m_mutex r) s
              in Inr (OnHold, Some (r\<lparr>m_empty_cond := q, m_mutex := m\<rparr>), s)))"

definition ch_pop :: "bool \<Rightarrow> nat \<Rightarrow> 'a Channel \<Rightarrow> Scheduler \<Rightarrow>
    chan_error + 'a option outcome \<times> 'a Channel \<times> Scheduler" where
  "ch_pop woken self ch s =
     (case ch of
        None \<Rightarrow> Inl ChanNull
      | Some r \<Rightarrow>
          if woken \<and> m_isClosed r then
            let (m, s) = fm_unlock (m_mutex r) s in Inr (Finished None, Some (r\<lparr>m_mutex := m\<rparr>), s)
          else rbind (cb_pop (ch_data r)) (\<lambda>(v, d).
            let r = r\<lparr>ch_data := d\<rparr> in
            if v \<noteq> None then
              let (q, s) = cv_notify (m_empty_cond r) s; (m, s) = fm_unlock (m_mutex r) s
              in Inr (Finished v, Some (r\<lparr>m_empty_cond := q, m_mutex := m\<rparr>), s)
            else
              let (q, m, s) = cv_wait self (m_full_cond r) (m_mutex r) s
              in Inr (OnHold, Some (r\<lparr>m_full_cond := q, m_mutex := m\<rparr>), s)))"

definition ch_close :: "'a Channel \<Rightarrow> Scheduler \<Rightarrow> chan_error + 'a Channel \<times> Scheduler" where
  "ch_close ch s =
     (case ch of
        None \<Rightarrow> Inl ChanNull
      | Some r \<Rightarrow>
          if m_isClosed r then let (m, s) = fm_unlock (m_mutex r) s in Inr (Some (r\<lparr>m_mutex := m\<rparr>), s)
          else let (e, s) = cv_notify (m_empty_cond r) s; (f, s) = cv_notify (m_full_cond r) s;
                   (m, s) = fm_unlock (m_mutex r) s
               in Inr (Some (r\<lparr>m_isClosed := True, m_empty_cond := e, m_full_cond := f, m_mutex := m\<rparr>), s))"

section \<open>Waking waiters\<close>

lemma submit_fiber_task:
  "m_task (submit (OfFiber (Some f)) (- 1) s) = m_task s @ [\<lparr>fiber = Some f, taskCb = None, threadId = - 1\<rparr>]"
  by (simp add: submit_task Task_bool_def)

abbreviation fiber_task :: "nat \<Rightarrow> Task" where
  "fiber_task f \<equiv> \<lparr>fiber = Some f, taskCb = None, threadId = - 1\<rparr>"

text \<open>\<^verbatim>\<open>notifyAll\<close> wakes all waiters of a condition variable, in the order in which they came;
  \<^verbatim>\<open>notify\<close> wakes the first one.\<close>

lemma notify_wakes_in_order:
  "fst (cv_notifyAll q s) = [] \<and> m_task (snd (cv_notifyAll q s)) = m_task s @ map fiber_task q \<and>
   fst (cv_notify q s) = tl q \<and> m_task (snd (cv_notify q s)) = m_task s @ map fiber_task (take 1 q)"
proof -
  have "fst (cv_notifyAll q s) = [] \<and> m_task (snd (cv_notifyAll q s)) = m_task s @ map fiber_task q"
    by (induction q s rule: cv_notifyAll.induct) (simp_all add: submit_fiber_task)
  then show ?thesis by (cases q) (simp_all add: cv_notify_def submit_fiber_task)
qed

text \<open>\<^verbatim>\<open>unlock\<close> releases the mutex only when someone is waiting.  After a fiber has taken a free
  mutex and released it again, the mutex is still taken: every other fiber that locks it is put
  on hold, and nobody has woken it.\<close>

lemma unlock_without_waiters_keeps_lock:
  assumes "m_lock m = False" and "m_wait_queue m = []" and "fid \<noteq> m_fiber_id m" and "fid' \<noteq> m_fiber_id m"
  shows "\<exists>m1 m2 m3. fm_lock False fid self m = (Acquired, m1) \<and> fm_unlock m1 s = (m2, s) \<and>
     m_lock m2 \<and> fm_lock False fid' self' m2 = (Waits, m3) \<and> m_wait_queue m3 = [self']"
  using assms by (simp add: fm_lock_def fm_unlock_def tryLock_def Let_def)

lemma unlock_without_waiters_keeps_lock_example:
  "\<exists>m1 m2 m3. fm_lock False 1 11 FiberMutex_new = (Acquired, m1) \<and>
     fm_unlock m1 (Scheduler_new 1) = (m2, Scheduler_new 1) \<and>
     fm_lock False 2 12 m2 = (Waits, m3) \<and> m_wait_queue m3 = [12]"
  using unlock_without_waiters_keeps_lock [of FiberMutex_new 1 2 11 "Scheduler_new 1" 12]
  by (auto simp: FiberMutex_new_def)

text \<open>No channel ever transports a value: every operation on a new channel dereferences its null
  representation, and even with a representation in place the buffer has capacity zero, so a push
  or a pop that is not ended by closing goes on hold, whatever happened before.\<close>

lemma channel_never_transports:
  "ch_push w self v (Channel_new :: 'a Channel) s = Inl ChanNull \<and>
   ch_pop w self (Channel_new :: 'a Channel) s = Inl ChanNull \<and>
   ch_tryPush v (Channel_new :: 'a Channel) = Inl ChanNull \<and>
   ch_tryPop (Channel_new :: 'a Channel) = Inl ChanNull \<and>
   ch_close (Channel_new :: 'a Channel) s = Inl ChanNull \<and>
   (\<forall>r :: 'a Rep. ch_data r = CircleBuffer_new \<longrightarrow>
     (\<exists>r' s'. ch_push w self v (Some r) s =
        Inr (if w \<and> m_isClosed r then Finished False else OnHold, Some r', s') \<and> ch_data r' = CircleBuffer_new) \<and>
     (\<exists>r' s'. ch_pop w self (Some r) s =
        Inr (if w \<and> m_isClosed r then Finished None else OnHold, Some r', s') \<and> ch_data r' = CircleBuffer_new))"
proof -
  have push: "cb_push v (CircleBuffer_new :: 'a CircleBuffer) = Inr (False, CircleBuffer_new)"
    by (simp add: cb_push_def cb_full_def CircleBuffer_new_def)
  have pop: "cb_pop (CircleBuffer_new :: 'a CircleBuffer) = Inr (None, CircleBuffer_new)"
    by (simp add: cb_pop_def cb_empty_def CircleBuffer_new_def)
  show ?thesis
    by (auto simp: Channel_new_def ch_push_def ch_pop_def ch_tryPush_def ch_tryPop_def ch_close_def
        push pop Let_def cv_wait_def split: prod.splits)
qed

lemma channel_never_transports_example:
  "\<exists>r' s'. ch_push False 3 (5 :: nat) (Some (Rep_new False)) (Scheduler_new 1) = Inr (OnHold, Some r', s') \<and>
     ch_data r' = CircleBuffer_new"
  using channel_never_transports [of False 3 "5 :: nat" "Scheduler_new 1"] by (auto simp: Rep_new_def)

end
