(* ===== verification/Ordered_Set.thy ===== *)
theory Ordered_Set
  imports Prelude
begin

text \<open>
  \<^verbatim>\<open>std::set\<close> and \<^verbatim>\<open>std::map\<close> with a comparison object, as the timers, the HTTP headers and the
  listeners use them.  A container is the list of its elements in iteration order; the operations
  search the way a search tree does, by comparisons only.  The comparison object has to be a strict
  weak ordering, which is the locale: the components instantiate it with their own comparisons.
\<close>

definition set_find :: "('a \<Rightarrow> 'a \<Rightarrow> bool) \<Rightarrow> 'a \<Rightarrow> 'a list \<Rightarrow> 'a option" where
  "set_find lt x xs =
     (case dropWhile (\<lambda>y. lt y x) xs of
        [] \<Rightarrow> None
      | y # ys \<Rightarrow> if lt x y then None else Some y)"

text \<open>\<^verbatim>\<open>insert\<close> does nothing when an equivalent element is present.\<close>

definition set_insert :: "('a \<Rightarrow> 'a \<Rightarrow> bool) \<Rightarrow> 'a \<Rightarrow> 'a list \<Rightarrow> 'a list" where
  "set_insert lt x xs =
     (case set_find lt x xs of
        None \<Rightarrow> takeWhile (\<lambda>y. lt y x) xs @ x # dropWhile (\<lambda>y. lt y x) xs
      | Some y \<Rightarrow> xs)"

definition set_erase :: "('a \<Rightarrow> 'a \<Rightarrow> bool) \<Rightarrow> 'a \<Rightarrow> 'a list \<Rightarrow> 'a list" where
  "set_erase lt x xs =
     (case set_find lt x xs of
        None \<Rightarrow> xs
      | Some y \<Rightarrow> takeWhile (\<lambda>y. lt y x) xs @ tl (dropWhile (\<lambda>y. lt y x) xs))"

definition same_key :: "('a \<Rightarrow> 'a \<Rightarrow> bool) \<Rightarrow> 'a \<Rightarrow> 'a \<Rightarrow> bool" where
  "same_key lt x y \<longleftrightarrow> \<not> lt x y \<and> \<not> lt y x"

locale strict_weak_order =
  fixes lt :: "'a \<Rightarrow> 'a \<Rightarrow> bool"
  assumes irrefl: "\<not> lt x x"
    and trans: "lt x y \<Longrightarrow> lt y z \<Longrightarrow> lt x z"
    and incomp_trans: "\<not> lt x y \<Longrightarrow> \<not> lt y x \<Longrightarrow> \<not> lt y z \<Longrightarrow> \<not> lt z y \<Longrightarrow>
      \<not> lt x z \<and> \<not> lt z x"
begin

lemma asym: "lt x y \<Longrightarrow> \<not> lt y x"
  using irrefl trans by blast

lemma not_lt_trans:
  assumes "\<not> lt x y" and "\<not> lt y z"
  shows "\<not> lt x z"
proof
  assume "lt x z"
  with assms have a: "\<not> lt x y" "\<not> lt y z" "lt x z" by simp_all
  have "\<not> lt y x" using a(2,3) trans [of y x z] by fast
  moreover have "\<not> lt z y" using a(1,3) trans [of x z y] by fast
  ultimately show False using incomp_trans [of x y z] a by simp
qed

lemma dropWhile_ge:
  assumes "sorted_wrt lt xs" and "y \<in> set (dropWhile (\<lambda>y. lt y x) xs)"
  shows "\<not> lt y x"
  using assms
proof (induction xs)
  case (Cons a xs)
  show ?case
  proof (cases "lt a x")
    case True
    then show ?thesis using Cons by simp
  next
    case False
    then have "y = a \<or> lt a y" using Cons.prems by auto
    then show ?thesis using False asym [of a y] not_lt_trans [of a x y] trans [of a y x] by metis
  qed
qed simp

lemma in_set_iff:
  assumes "sorted_wrt lt xs" and "\<not> lt y x"
  shows "y \<in> set xs \<longleftrightarrow> y \<in> set (dropWhile (\<lambda>y. lt y x) xs)"
  using assms by (metis set_dropWhileD set_takeWhileD takeWhile_dropWhile_id Un_iff set_append)

text \<open>Searching finds the element that is equivalent to the key, if there is one.\<close>

lemma set_find_Some:
  assumes "sorted_wrt lt xs"
  shows "set_find lt x xs = Some y \<longleftrightarrow> y \<in> set xs \<and> same_key lt x y"
proof
  assume "set_find lt x xs = Some y"
  then obtain ys where ys: "dropWhile (\<lambda>y. lt y x) xs = y # ys" "\<not> lt x y"
    by (auto simp: set_find_def split: list.splits if_splits)
  then have "y \<in> set (dropWhile (\<lambda>y. lt y x) xs)" by simp
  then show "y \<in> set xs \<and> same_key lt x y"
    using dropWhile_ge [OF assms] set_dropWhileD ys(2) by (metis same_key_def)
next
  assume y: "y \<in> set xs \<and> same_key lt x y"
  then have mem: "y \<in> set (dropWhile (\<lambda>y. lt y x) xs)"
    using in_set_iff [OF assms, of y x] by (simp add: same_key_def)
  then obtain z zs where z: "dropWhile (\<lambda>y. lt y x) xs = z # zs" by (cases "dropWhile (\<lambda>y. lt y x) xs") auto
  have "\<not> lt z x" using dropWhile_ge [OF assms, of z x] z by simp
  moreover have "sorted_wrt lt (z # zs)"
    using assms z by (metis sorted_wrt_append takeWhile_dropWhile_id)
  then have "y = z \<or> lt z y" using mem z by auto
  ultimately have "y = z" using y not_lt_trans [of z x y] by (auto simp: same_key_def)
  then show "set_find lt x xs = Some y" using z y by (simp add: set_find_def same_key_def)
qed

lemma set_find_None:
  assumes "sorted_wrt lt xs"
  shows "set_find lt x xs = None \<longleftrightarrow> (\<forall>y \<in> set xs. \<not> same_key lt x y)"
  using set_find_Some [OF assms] by (metis not_None_eq option.exhaust)

lemma sorted_insert:
  assumes "sorted_wrt lt xs"
  shows "sorted_wrt lt (set_insert lt x xs)"
proof (cases "set_find lt x xs")
  case None
  define p q where pq: "p = takeWhile (\<lambda>y. lt y x) xs" "q = dropWhile (\<lambda>y. lt y x) xs"
  have "sorted_wrt lt (p @ q)" using assms by (simp add: pq)
  then have s: "sorted_wrt lt p" "sorted_wrt lt q" "\<forall>a \<in> set p. \<forall>b \<in> set q. lt a b"
    unfolding sorted_wrt_append by auto
  have "lt x b" if b: "b \<in> set q" for b
  proof -
    have "b \<in> set xs" using b unfolding pq by (rule set_dropWhileD)
    then have "\<not> same_key lt x b" using set_find_None [OF assms, of x] None by simp
    moreover have "\<not> lt b x" using b unfolding pq by (rule dropWhile_ge [OF assms])
    ultimately show ?thesis by (simp add: same_key_def)
  qed
  moreover have "lt a x" if "a \<in> set p" for a using that unfolding pq by (metis set_takeWhileD)
  moreover have "set_insert lt x xs = p @ x # q" using None by (simp add: set_insert_def pq)
  ultimately show ?thesis using s by (simp add: sorted_wrt_append)
qed (simp add: set_insert_def assms)

lemma set_set_insert:
  assumes "set_find lt x xs = None"
  shows "set (set_insert lt x xs) = insert x (set xs)"
proof -
  have "set xs = set (takeWhile (\<lambda>y. lt y x) xs) \<union> set (dropWhile (\<lambda>y. lt y x) xs)"
    by (metis set_append takeWhile_dropWhile_id)
  then show ?thesis using assms by (simp add: set_insert_def)
qed

lemma distinct_sorted: "sorted_wrt lt xs \<Longrightarrow> distinct xs"
  by (induction xs) (auto simp: irrefl)

lemma set_erase_eq:
  assumes "set_find lt x xs = Some y"
  obtains p q where "xs = p @ y # q" "set_erase lt x xs = p @ q"
proof -
  obtain ys where ys: "dropWhile (\<lambda>y. lt y x) xs = y # ys"
    using assms by (auto simp: set_find_def split: list.splits if_splits)
  then have "xs = takeWhile (\<lambda>y. lt y x) xs @ y # ys" by (metis takeWhile_dropWhile_id)
  then show ?thesis using that assms ys by (simp add: set_erase_def)
qed

lemma sorted_erase:
  assumes "sorted_wrt lt xs"
  shows "sorted_wrt lt (set_erase lt x xs)"
proof (cases "set_find lt x xs")
  case (Some y)
  then obtain p q where "xs = p @ y # q" "set_erase lt x xs = p @ q" by (rule set_erase_eq)
  then show ?thesis using assms by (simp add: sorted_wrt_append)
qed (simp add: set_erase_def assms)

lemma set_set_erase:
  assumes "sorted_wrt lt xs" and "set_find lt x xs = Some y"
  shows "set (set_erase lt x xs) = set xs - {y}"
proof -
  obtain p q where pq: "xs = p @ y # q" "set_erase lt x xs = p @ q"
    using assms(2) by (rule set_erase_eq)
  moreover have "distinct xs" using assms(1) by (rule distinct_sorted)
  ultimately show ?thesis by auto
qed

end

end
