(* ===== verification/Ordered_Map.thy ===== *)
theory Ordered_Map
  imports Ordered_Set
begin

text \<open>
  \<^verbatim>\<open>std::map\<close> with a comparison object: a list of key-value pairs in iteration order.  The
  operations walk along the comparisons.  Under the same contract as the sets (a strict weak
  ordering of the keys) the usual laws of maps hold, with equivalence of keys in the place of
  equality.
\<close>

type_synonym ('k, 'v) omap = "('k \<times> 'v) list"

text \<open>\<^verbatim>\<open>find\<close>, \<^verbatim>\<open>m[k] = v\<close>, \<^verbatim>\<open>insert\<close> (which keeps a present value) and \<^verbatim>\<open>erase\<close>.\<close>

fun map_find :: "('k \<Rightarrow> 'k \<Rightarrow> bool) \<Rightarrow> 'k \<Rightarrow> ('k, 'v) omap \<Rightarrow> 'v option" where
  "map_find lt k [] = None"
| "map_find lt k ((k', v') # m) =
     (if lt k' k then map_find lt k m else if lt k k' then None else Some v')"

fun map_set :: "('k \<Rightarrow> 'k \<Rightarrow> bool) \<Rightarrow> 'k \<Rightarrow> 'v \<Rightarrow> ('k, 'v) omap \<Rightarrow> ('k, 'v) omap" where
  "map_set lt k v [] = [(k, v)]"
| "map_set lt k v ((k', v') # m) =
     (if lt k' k then (k', v') # map_set lt k v m
      else if lt k k' then (k, v) # (k', v') # m else (k', v) # m)"

fun map_insert :: "('k \<Rightarrow> 'k \<Rightarrow> bool) \<Rightarrow> 'k \<Rightarrow> 'v \<Rightarrow> ('k, 'v) omap \<Rightarrow> ('k, 'v) omap" where
  "map_insert lt k v [] = [(k, v)]"
| "map_insert lt k v ((k', v') # m) =
     (if lt k' k then (k', v') # map_insert lt k v m
      else if lt k k' then (k, v) # (k', v') # m else (k', v') # m)"

fun map_erase :: "('k \<Rightarrow> 'k \<Rightarrow> bool) \<Rightarrow> 'k \<Rightarrow> ('k, 'v) omap \<Rightarrow> ('k, 'v) omap" where
  "map_erase lt k [] = []"
| "map_erase lt k ((k', v') # m) =
     (if lt k' k then (k', v') # map_erase lt k m
      else if lt k k' then (k', v') # m else m)"

definition map_ok :: "('k \<Rightarrow> 'k \<Rightarrow> bool) \<Rightarrow> ('k, 'v) omap \<Rightarrow> bool" where
  "map_ok lt m \<longleftrightarrow> sorted_wrt lt (map fst m)"

lemma map_ok_Nil [simp]: "map_ok lt []"
  by (simp add: map_ok_def)

lemma map_ok_Cons:
  "map_ok lt ((k, v) # m) \<longleftrightarrow> map_ok lt m \<and> (\<forall>x \<in> set m. lt k (fst x))"
  by (auto simp: map_ok_def)

lemma keys_map_set: "fst ` set (map_set lt k v m) \<subseteq> insert k (fst ` set m)"
  by (induction lt k v m rule: map_set.induct) auto

lemma keys_map_insert: "fst ` set (map_insert lt k v m) \<subseteq> insert k (fst ` set m)"
  by (induction lt k v m rule: map_insert.induct) auto

lemma set_map_erase: "set (map_erase lt k m) \<subseteq> set m"
  by (induction lt k m rule: map_erase.induct) auto

context strict_weak_order
begin

lemma same_key_cong:
  assumes "same_key lt k k'"
  shows "lt k x = lt k' x" and "lt x k = lt x k'"
  using assms not_lt_trans unfolding same_key_def by blast+

lemma map_find_skip:
  assumes "\<forall>x \<in> set m. lt k (fst x)"
  shows "map_find lt k m = None"
  using assms by (cases m) (auto dest: asym)

lemma map_find_same:
  assumes "same_key lt k k'"
  shows "map_find lt k m = map_find lt k' m"
  by (induction m) (auto simp: same_key_cong [OF assms])

lemma map_find_mem:
  assumes "map_ok lt m"
  shows "map_find lt k m \<noteq> None \<longleftrightarrow> (\<exists>(k', v) \<in> set m. same_key lt k' k)"
  using assms
proof (induction m)
  case (Cons p m)
  obtain a b where p: "p = (a, b)" by (cases p)
  have "\<not> same_key lt k' k" if "(k', v) \<in> set m" "\<not> lt a k" for k' v
  proof -
    have "lt a k'" using that Cons.prems by (auto simp: p map_ok_Cons)
    then show ?thesis using that(2) not_lt_trans [of a k k'] by (auto simp: same_key_def)
  qed
  then show ?case using Cons by (auto simp: p map_ok_Cons same_key_def)
qed simp

lemma map_ok_set:
  assumes "map_ok lt m"
  shows "map_ok lt (map_set lt k v m)"
  using assms
proof (induction m)
  case (Cons p m)
  obtain k' v' where p: "p = (k', v')" by (cases p)
  have "\<forall>x \<in> set (map_set lt k v m). lt k' (fst x)" if "lt k' k"
    using keys_map_set [of lt k v m] Cons.prems that by (fastforce simp: p map_ok_Cons)
  then show ?case using Cons by (auto simp: p map_ok_Cons intro: trans)
qed (simp add: map_ok_Cons)

lemma map_ok_insert:
  assumes "map_ok lt m"
  shows "map_ok lt (map_insert lt k v m)"
  using assms
proof (induction m)
  case (Cons p m)
  obtain k' v' where p: "p = (k', v')" by (cases p)
  have "\<forall>x \<in> set (map_insert lt k v m). lt k' (fst x)" if "lt k' k"
    using keys_map_insert [of lt k v m] Cons.prems that by (fastforce simp: p map_ok_Cons)
  then show ?case using Cons by (auto simp: p map_ok_Cons intro: trans)
qed (simp add: map_ok_Cons)

lemma map_ok_erase:
  assumes "map_ok lt m"
  shows "map_ok lt (map_erase lt k m)"
  using assms
proof (induction m)
  case (Cons p m)
  then show ?case using set_map_erase [of lt k m] by (cases p) (auto simp: map_ok_Cons)
qed simp

text \<open>What a search finds after each operation.\<close>

lemma map_find_set:
  assumes "map_ok lt m"
  shows "map_find lt k' (map_set lt k v m) = (if same_key lt k k' then Some v else map_find lt k' m)"
  using assms
proof (induction m)
  case (Cons p m)
  obtain a b where p: "p = (a, b)" by (cases p)
  have ok: "map_ok lt m" "\<forall>x \<in> set m. lt a (fst x)" using Cons.prems by (auto simp: p map_ok_Cons)
  show ?case
  proof (cases "same_key lt k k'")
    case True
    then show ?thesis using Cons.IH [OF ok(1)] same_key_cong [OF True]
      by (auto simp: p irrefl dest: asym)
  next
    case False
    show ?thesis
      using Cons.IH [OF ok(1)] False trans [of a k' k] trans [of k k' a] trans [of k' k a] trans [of a k k']
        not_lt_trans [of k a k'] not_lt_trans [of k' a k]
      by (auto simp: p same_key_def)
  qed
qed (auto simp: same_key_def)

lemma map_find_insert:
  assumes "map_ok lt m"
  shows "map_find lt k' (map_insert lt k v m) =
    (if same_key lt k k' \<and> map_find lt k' m = None then Some v else map_find lt k' m)"
  using assms
proof (induction m)
  case (Cons p m)
  obtain a b where p: "p = (a, b)" by (cases p)
  have ok: "map_ok lt m" "\<forall>x \<in> set m. lt a (fst x)" using Cons.prems by (auto simp: p map_ok_Cons)
  show ?case
  proof (cases "same_key lt k k'")
    case True
    then show ?thesis using Cons.IH [OF ok(1)] same_key_cong [OF True]
      by (auto simp: p irrefl dest: asym)
  next
    case False
    show ?thesis
      using Cons.IH [OF ok(1)] False trans [of a k' k] trans [of k k' a] trans [of k' k a] trans [of a k k']
        not_lt_trans [of k a k'] not_lt_trans [of k' a k]
      by (auto simp: p same_key_def)
  qed
qed (auto simp: same_key_def)

lemma map_find_erase:
  assumes "map_ok lt m"
  shows "map_find lt k' (map_erase lt k m) = (if same_key lt k k' then None else map_find lt k' m)"
  using assms
proof (induction m)
  case (Cons p m)
  obtain a b where p: "p = (a, b)" by (cases p)
  have ok: "map_ok lt m" "\<forall>x \<in> set m. lt a (fst x)" using Cons.prems by (auto simp: p map_ok_Cons)
  show ?case
  proof (cases "same_key lt k k'")
    case True
    have "map_find lt k' m = None" if "\<not> lt a k" "\<not> lt k a"
    proof (rule map_find_skip)
      have "same_key lt k' a" using that True same_key_cong [OF True] by (simp add: same_key_def)
      then show "\<forall>x \<in> set m. lt k' (fst x)" using ok(2) same_key_cong(1) by blast
    qed
    then show ?thesis using Cons.IH [OF ok(1)] True by (simp add: p same_key_cong [OF True])
  next
    case False
    have "map_find lt k' m = None" if "lt k' a"
      by (rule map_find_skip) (use that ok(2) trans [of k' a] in auto)
    moreover have "lt a k' \<or> lt k' a" if "\<not> lt a k" "\<not> lt k a"
      using that False incomp_trans [of k a k'] by (auto simp: same_key_def)
    ultimately show ?thesis
      using Cons.IH [OF ok(1)] False trans [of a k' k] trans [of k k' a] trans [of k' k a] trans [of a k k']
      by (auto simp: p same_key_def)
  qed
qed simp

lemmas map_ok_ops = map_ok_set map_ok_insert map_ok_erase
lemmas map_find_ops = map_find_set map_find_insert map_find_erase

end

end
