(* ===== verification/Util_Text.thy ===== *)
theory Util_Text
  imports Prelude
begin

text \<open>
  The text utilities of \<^verbatim>\<open>util.cpp\<close>: base64, percent-encoding of URLs, trimming and the
  splitting of path names.  Text is a \<open>string\<close>, whose characters are the 256 values of
  \<^verbatim>\<open>unsigned char\<close>; binary data are bytes.  \<^verbatim>\<open>std::string::npos\<close> is \<open>None\<close>.
\<close>

section \<open>Base64\<close>

definition base64 :: string where
  "base64 = ''ABCDEFGHIJKLMNOPQRSTUVWXYZabcdefghijklmnopqrstuvwxyz0123456789+/''"

text \<open>The inner loop of the encoder packs up to three bytes; \<open>i\<close> counts them.\<close>

fun enc_pack :: "nat \<Rightarrow> u32 \<Rightarrow> byte list \<Rightarrow> nat \<times> u32 \<times> byte list" where
  "enc_pack i packed [] = (i, packed, [])"
| "enc_pack i packed (b # bs) =
     (if i < 3 then enc_pack (Suc i) (push_bit 8 packed OR ucast b) bs else (i, packed, b # bs))"

function enc_fill :: "nat \<Rightarrow> u32 \<Rightarrow> u32" where
  "enc_fill i packed = (if i < 3 then enc_fill (Suc i) (push_bit 8 packed) else packed)"
  by pat_completeness auto
termination
  by (relation "measure (\<lambda>(i, packed). 3 - i)") auto

lemma enc_pack_shorter:
  "enc_pack i packed bs = (j, packed', rest) \<Longrightarrow> length rest \<le> length bs"
  by (induction i packed bs rule: enc_pack.induct) (auto split: if_splits)

function base64encode :: "byte list \<Rightarrow> string" where
  "base64encode [] = []"
| "base64encode (b # bs) =
     (let (i, packed, rest) = enc_pack 0 0 (b # bs);
          padding = (if i = 2 then 1 else if i = 1 then 2 else 0 :: nat);
          packed = enc_fill i packed
      in [base64 ! unat (drop_bit 18 packed), base64 ! unat (drop_bit 12 packed AND 0x3f)] @
         (if padding \<noteq> 2 then [base64 ! unat (drop_bit 6 packed AND 0x3f)] else []) @
         (if padding = 0 then [base64 ! unat (packed AND 0x3f)] else []) @
         replicate padding (CHR ''='') @ base64encode rest)"
  by pat_completeness auto
termination
  by (relation "measure length") (auto dest!: sym [THEN enc_pack_shorter] split: if_splits)

text \<open>The value of a character, \<open>None\<close> for an invalid one.\<close>

definition b64_val :: "char \<Rightarrow> nat option" where
  "b64_val c =
     (let n = of_char c :: nat in
      if 65 \<le> n \<and> n \<le> 90 then Some (n - 65)
      else if 97 \<le> n \<and> n \<le> 122 then Some (n - 97 + 26)
      else if 48 \<le> n \<and> n \<le> 57 then Some (n - 48 + 52)
      else if c = CHR ''+'' then Some 62
      else if c = CHR ''/'' then Some 63
      else None)"

text \<open>The inner loop of the decoder: \<open>None\<close> is \<^verbatim>\<open>return ""\<close>, else the number of characters, the
  number of paddings, the packed value and what is left of the text.\<close>

fun dec_pack :: "nat \<Rightarrow> nat \<Rightarrow> u32 \<Rightarrow> string \<Rightarrow> (nat \<times> nat \<times> u32 \<times> string) option" where
  "dec_pack i padding packed [] = Some (i, padding, packed, [])"
| "dec_pack i padding packed (c # cs) =
     (if \<not> i < 4 then Some (i, padding, packed, c # cs)
      else if c = CHR ''='' then dec_pack (Suc i) (Suc padding) (push_bit 6 packed) cs
      else if padding > 0 then None
      else (case b64_val c of
              None \<Rightarrow> None
            | Some val \<Rightarrow> dec_pack (Suc i) padding (push_bit 6 packed OR word_of_nat val) cs))"

lemma dec_pack_shorter:
  "dec_pack i padding packed cs = Some (j, padding', packed', rest) \<Longrightarrow>
   length rest + j = length cs + i"
  by (induction i padding packed cs rule: dec_pack.induct) (auto split: if_splits option.splits)

function dec_loop :: "string \<Rightarrow> byte list option" where
  "dec_loop cs =
     (if cs = [] then Some []
      else case dec_pack 0 0 0 cs of
        None \<Rightarrow> None
      | Some (i, padding, packed, rest) \<Rightarrow>
          if i \<noteq> 4 then None
          else if padding > 0 \<and> rest \<noteq> [] then None
          else if padding > 2 then None
          else case dec_loop rest of
            None \<Rightarrow> None
          | Some out \<Rightarrow>
              Some ([ucast (drop_bit 16 packed AND 0xff)] @
                    (if padding \<noteq> 2 then [ucast (drop_bit 8 packed AND 0xff)] else []) @
                    (if padding = 0 then [ucast (packed AND 0xff)] else []) @ out))"
  by pat_completeness auto
termination
  by (relation "measure length") (auto dest!: dec_pack_shorter)

definition base64decode :: "string \<Rightarrow> byte list" where
  "base64decode cs = (case dec_loop cs of None \<Rightarrow> [] | Some out \<Rightarrow> out)"

section \<open>Percent-encoding\<close>

definition uri_chars :: "nat list" where
  "uri_chars =
    [0, 0, 0, 0, 0, 0, 0, 0, 0, 0, 0, 0, 0, 0, 0, 0, 0, 0, 0, 0, 0, 0, 0, 0, 0, 0, 0, 0, 0, 0, 0, 0,
     0, 0, 0, 0, 0, 0, 0, 0, 0, 0, 0, 0, 0, 1, 1, 0, 1, 1, 1, 1, 1, 1, 1, 1, 1, 1, 0, 0, 0, 1, 0, 0,
     0, 1, 1, 1, 1, 1, 1, 1, 1, 1, 1, 1, 1, 1, 1, 1, 1, 1, 1, 1, 1, 1, 1, 1, 1, 1, 1, 0, 0, 0, 0, 1,
     0, 1, 1, 1, 1, 1, 1, 1, 1, 1, 1, 1, 1, 1, 1, 1, 1, 1, 1, 1, 1, 1, 1, 1, 1, 1, 1, 0, 0, 0, 1, 0,
     0, 0, 0, 0, 0, 0, 0, 0, 0, 0, 0, 0, 0, 0, 0, 0, 0, 0, 0, 0, 0, 0, 0, 0, 0, 0, 0, 0, 0, 0, 0, 0,
     0, 0, 0, 0, 0, 0, 0, 0, 0, 0, 0, 0, 0, 0, 0, 0, 0, 0, 0, 0, 0, 0, 0, 0, 0, 0, 0, 0, 0, 0, 0, 0,
     0, 0, 0, 0, 0, 0, 0, 0, 0, 0, 0, 0, 0, 0, 0, 0, 0, 0, 0, 0, 0, 0, 0, 0, 0, 0, 0, 0, 0, 0, 0, 0,
     0, 0, 0, 0, 0, 0, 0, 0, 0, 0, 0, 0, 0, 0, 0, 0, 0, 0, 0, 0, 0, 0, 0, 0, 0, 0, 0, 0, 0, 0, 0, 0]"

definition xdigit_chars :: "nat list" where
  "xdigit_chars =
    [0, 0, 0, 0, 0, 0, 0, 0, 0, 0, 0, 0, 0, 0, 0, 0, 0, 0, 0, 0, 0, 0, 0, 0, 0, 0, 0, 0, 0, 0, 0, 0,
     0, 0, 0, 0, 0, 0, 0, 0, 0, 0, 0, 0, 0, 0, 0, 0, 0, 1, 2, 3, 4, 5, 6, 7, 8, 9, 0, 0, 0, 0, 0, 0,
     0, 10, 11, 12, 13, 14, 15, 0, 0, 0, 0, 0, 0, 0, 0, 0, 0, 0, 0, 0, 0, 0, 0, 0, 0, 0, 0, 0, 0, 0, 0, 0,
     0, 10, 11, 12, 13, 14, 15, 0, 0, 0, 0, 0, 0, 0, 0, 0, 0, 0, 0, 0, 0, 0, 0, 0, 0, 0, 0, 0, 0, 0, 0, 0,
     0, 0, 0, 0, 0, 0, 0, 0, 0, 0, 0, 0, 0, 0, 0, 0, 0, 0, 0, 0, 0, 0, 0, 0, 0, 0, 0, 0, 0, 0, 0, 0,
     0, 0, 0, 0, 0, 0, 0, 0, 0, 0, 0, 0, 0, 0, 0, 0, 0, 0, 0, 0, 0, 0, 0, 0, 0, 0, 0, 0, 0, 0, 0, 0,
     0, 0, 0, 0, 0, 0, 0, 0, 0, 0, 0, 0, 0, 0, 0, 0, 0, 0, 0, 0, 0, 0, 0, 0, 0, 0, 0, 0, 0, 0, 0, 0,
     0, 0, 0, 0, 0, 0, 0, 0, 0, 0, 0, 0, 0, 0, 0, 0, 0, 0, 0, 0, 0, 0, 0, 0, 0, 0, 0, 0, 0, 0, 0, 0]"

definition CHAR_IS_UNRESERVED :: "char \<Rightarrow> bool" where
  "CHAR_IS_UNRESERVED c \<longleftrightarrow> uri_chars ! of_char c \<noteq> 0"

definition hexdigits :: string where
  "hexdigits = ''0123456789ABCDEF''"

definition isxdigit :: "char \<Rightarrow> bool" where
  "isxdigit c \<longleftrightarrow> (let n = of_char c :: nat in
     48 \<le> n \<and> n \<le> 57 \<or> 65 \<le> n \<and> n \<le> 70 \<or> 97 \<le> n \<and> n \<le> 102)"

text \<open>What is appended for one reserved character.  The output string \<open>ss\<close> is created only when
  the first reserved character is met, with a copy of the characters passed so far.\<close>

definition url_escape :: "bool \<Rightarrow> char \<Rightarrow> string" where
  "url_escape space_as_plus c =
     (if c = CHR '' '' \<and> space_as_plus then ''+''
      else [CHR ''%'', hexdigits ! (of_char c div 16), hexdigits ! (of_char c mod 16)])"

fun urlencode_loop :: "bool \<Rightarrow> string \<Rightarrow> string option \<Rightarrow> string \<Rightarrow> string option" where
  "urlencode_loop sp passed ss [] = ss"
| "urlencode_loop sp passed ss (c # cs) =
     (if \<not> CHAR_IS_UNRESERVED c then
        let s = (case ss of None \<Rightarrow> passed | Some s \<Rightarrow> s)
        in urlencode_loop sp (passed @ [c]) (Some (s @ url_escape sp c)) cs
      else urlencode_loop sp (passed @ [c]) (map_option (\<lambda>s. s @ [c]) ss) cs)"

definition UrlEncode :: "string \<Rightarrow> bool \<Rightarrow> string" where
  "UrlEncode str space_as_plus =
     (case urlencode_loop space_as_plus [] None str of None \<Rightarrow> str | Some ss \<Rightarrow> ss)"

definition url_unescape :: "char \<Rightarrow> char \<Rightarrow> char" where
  "url_unescape h l = char_of (xdigit_chars ! of_char h * 16 + xdigit_chars ! of_char l)"

function urldecode_loop :: "bool \<Rightarrow> string \<Rightarrow> string option \<Rightarrow> string \<Rightarrow> string option" where
  "urldecode_loop sp passed ss [] = ss"
| "urldecode_loop sp passed ss (c # cs) =
     (let s = (case ss of None \<Rightarrow> passed | Some s \<Rightarrow> s) in
      if c = CHR ''+'' \<and> sp then
        urldecode_loop sp (passed @ [c]) (Some (s @ '' '')) cs
      else if c = CHR ''%'' \<and> 2 \<le> length cs \<and> isxdigit (cs ! 0) \<and> isxdigit (cs ! 1) then
        urldecode_loop sp (passed @ c # take 2 cs)
          (Some (s @ [url_unescape (cs ! 0) (cs ! 1)])) (drop 2 cs)
      else urldecode_loop sp (passed @ [c]) (map_option (\<lambda>s. s @ [c]) ss) cs)"
  by pat_completeness auto
termination
  by (relation "measure (\<lambda>(sp, passed, ss, cs). length cs)") auto

definition UrlDecode :: "string \<Rightarrow> bool \<Rightarrow> string" where
  "UrlDecode str space_as_plus =
     (case urldecode_loop space_as_plus [] None str of None \<Rightarrow> str | Some ss \<Rightarrow> ss)"

section \<open>Trimming and path names\<close>

fun find_first_not_of :: "string \<Rightarrow> string \<Rightarrow> nat option" where
  "find_first_not_of [] delimit = None"
| "find_first_not_of (c # cs) delimit =
     (if c \<in> set delimit then map_option Suc (find_first_not_of cs delimit) else Some 0)"

fun find_last_not_of :: "string \<Rightarrow> string \<Rightarrow> nat option" where
  "find_last_not_of [] delimit = None"
| "find_last_not_of (c # cs) delimit =
     (case find_last_not_of cs delimit of
        Some n \<Rightarrow> Some (Suc n)
      | None \<Rightarrow> if c \<in> set delimit then None else Some 0)"

fun rfind :: "string \<Rightarrow> char \<Rightarrow> nat option" where
  "rfind [] x = None"
| "rfind (c # cs) x =
     (case rfind cs x of Some n \<Rightarrow> Some (Suc n) | None \<Rightarrow> if c = x then Some 0 else None)"

definition substr :: "string \<Rightarrow> nat \<Rightarrow> nat \<Rightarrow> string" where
  "substr s pos n = take n (drop pos s)"

definition Trim :: "string \<Rightarrow> string \<Rightarrow> string" where
  "Trim str delimit =
     (case find_first_not_of str delimit of
        None \<Rightarrow> []
      | Some beg \<Rightarrow>
          (case find_last_not_of str delimit of
             None \<Rightarrow> substr str beg (length str)
           | Some fin \<Rightarrow> substr str beg (fin - beg + 1)))"

definition TrimLeft :: "string \<Rightarrow> string \<Rightarrow> string" where
  "TrimLeft str delimit =
     (case find_first_not_of str delimit of None \<Rightarrow> [] | Some beg \<Rightarrow> drop beg str)"

definition TrimRight :: "string \<Rightarrow> string \<Rightarrow> string" where
  "TrimRight str delimit =
     (case find_last_not_of str delimit of None \<Rightarrow> [] | Some fin \<Rightarrow> substr str 0 fin)"

definition Dirname :: "string \<Rightarrow> string" where
  "Dirname filename =
     (if filename = [] then ''.''
      else case rfind filename (CHR ''/'') of
        None \<Rightarrow> ''.''
      | Some pos \<Rightarrow> if pos = 0 then ''/'' else substr filename 0 pos)"

definition Basename :: "string \<Rightarrow> string" where
  "Basename filename =
     (if filename = [] then filename
      else case rfind filename (CHR ''/'') of
        None \<Rightarrow> filename
      | Some pos \<Rightarrow> drop (pos + 1) filename)"

declare enc_fill.simps [simp del] dec_loop.simps [simp del]


section \<open>Base64 is inverted by decoding\<close>

lemma map_b64_val: "map b64_val base64 = map Some [0..<64]"
  by (simp add: base64_def b64_val_def upt_conv_Cons)

lemma length_base64: "length base64 = 64"
  by (simp add: base64_def)

lemma b64_val_base64: "n < 64 \<Longrightarrow> b64_val (base64 ! n) = Some n"
  using arg_cong [OF map_b64_val, of "\<lambda>xs. xs ! n"] by (simp add: length_base64)

lemma base64_not_pad: "n < 64 \<Longrightarrow> base64 ! n \<noteq> CHR ''=''"
proof -
  have "CHR ''='' \<notin> set base64" by (simp add: base64_def)
  then show "n < 64 \<Longrightarrow> ?thesis" using length_base64 by (metis nth_mem)
qed

lemma masks: "(w AND 0x3f :: u32) = take_bit 6 w" "(w AND 0xff :: u32) = take_bit 8 w"
  by (simp_all add: take_bit_eq_mask mask_eq_exp_minus_1)

lemma unat_take6: "unat (take_bit 6 w :: u32) < 64"
  using take_bit_nat_less_exp [of 6 "unat w"] by (simp add: unsigned_take_bit_eq)

lemma glue: "push_bit k (drop_bit k p) OR take_bit k p = (p :: u32)"
  by (rule bit_word_eqI) (auto simp: bit_simps)

lemma glue6: "push_bit 6 (drop_bit (k + 6) p) OR take_bit 6 (drop_bit k p) = (drop_bit k p :: u32)"
  using glue [of 6 "drop_bit k p"] by (simp add: add.commute)

definition pack3 :: "byte \<Rightarrow> byte \<Rightarrow> byte \<Rightarrow> u32" where
  "pack3 a b c = push_bit 8 (push_bit 8 (ucast a) OR ucast b) OR ucast c"

lemma bit_pack3: "bit (pack3 a b c) k = 
  (if k < 8 then bit c k else if k < 16 then bit b (k - 8) else bit a (k - 16))"
  by (auto simp: pack3_def bit_simps dest: bit_imp_le_length)

lemma pack3_top: "take_bit 6 (drop_bit 18 (pack3 a b c)) = drop_bit 18 (pack3 a b c)"
  by (rule bit_word_eqI) (auto simp: bit_simps bit_pack3 dest: bit_imp_le_length)

lemma pack3_bytes:
  "ucast (take_bit 8 (drop_bit 16 (pack3 a b c))) = a"
  "ucast (take_bit 8 (drop_bit 8 (pack3 a b c))) = b"
  "ucast (take_bit 8 (pack3 a b c)) = c"
  by (auto intro!: bit_word_eqI simp: bit_simps bit_pack3)

lemma push_pack3: "push_bit 16 (ucast a) = pack3 a 0 0" "push_bit 8 (push_bit 8 (ucast a) OR ucast b) = pack3 a b 0"
  "pack3 a b 0 OR ucast c = pack3 a b c"
  by (simp_all add: pack3_def)
lemma repack3:
  "push_bit 6 (push_bit 6 (push_bit 6 (take_bit 6 (drop_bit 18 (pack3 a b c))) OR
      take_bit 6 (drop_bit 12 (pack3 a b c))) OR take_bit 6 (drop_bit 6 (pack3 a b c))) OR
    take_bit 6 (pack3 a b c) = pack3 a b c"
  using glue6 [of 12 "pack3 a b c"] glue6 [of 6 "pack3 a b c"] glue6 [of 0 "pack3 a b c"]
  by (simp add: pack3_top)
lemma pack3_zero: "take_bit 6 (pack3 a b 0) = 0" "take_bit 6 (drop_bit 6 (pack3 a 0 0)) = 0"
  by (auto intro!: bit_word_eqI simp: bit_simps bit_pack3 split: if_splits)

lemma repack2:
  "push_bit 6 (push_bit 6 (push_bit 6 (take_bit 6 (drop_bit 18 (pack3 a b 0))) OR
      take_bit 6 (drop_bit 12 (pack3 a b 0))) OR take_bit 6 (drop_bit 6 (pack3 a b 0)))
     = pack3 a b 0"
  using repack3 [of a b 0] by (simp add: pack3_zero)

lemma repack1:
  "push_bit 12 (push_bit 6 (take_bit 6 (drop_bit 18 (pack3 a 0 0))) OR
      take_bit 6 (drop_bit 12 (pack3 a 0 0))) = pack3 a 0 0"
  using repack2 [of a 0] by (simp add: pack3_zero)

definition sextet :: "u32 \<Rightarrow> char" where "sextet w = base64 ! unat (take_bit 6 w)"
lemma b64_val_sextet [simp]: "b64_val (sextet w) = Some (unat (take_bit 6 w))" "sextet w \<noteq> CHR ''=''"
   by (simp_all add: sextet_def b64_val_base64 base64_not_pad unat_take6)

lemma base64encode_steps:
  shows "base64encode [a] = [sextet (drop_bit 18 (pack3 a 0 0)), sextet (drop_bit 12 (pack3 a 0 0)), CHR ''='', CHR ''='']" (is ?A)
    and "base64encode [a, b] = [sextet (drop_bit 18 (pack3 a b 0)), sextet (drop_bit 12 (pack3 a b 0)),
     sextet (drop_bit 6 (pack3 a b 0)), CHR ''='']" (is ?B)
    and "base64encode (a # b # c # bs) = [sextet (drop_bit 18 (pack3 a b c)), sextet (drop_bit 12 (pack3 a b c)),
     sextet (drop_bit 6 (pack3 a b c)), sextet (pack3 a b c)] @ base64encode bs" (is ?C)
proof -
  note simps = enc_fill.simps sextet_def masks pack3_top push_pack3 numeral_2_eq_2 Let_def
  show "?A" "?B" by (simp_all add: simps del: push_bit_or take_bit_or drop_bit_or)
  show "?C" by (cases bs)
      (simp_all add: simps pack3_def [symmetric] del: push_bit_or take_bit_or drop_bit_or)
qed

declare base64encode.simps(2) [simp del]

lemma dec_pack_groups:
  "dec_pack 0 0 0 (sextet (drop_bit 18 (pack3 a b c)) # sextet (drop_bit 12 (pack3 a b c)) #
     sextet (drop_bit 6 (pack3 a b c)) # sextet (pack3 a b c) # cs) = Some (4, 0, pack3 a b c, cs)"
  "dec_pack 0 0 0 [sextet (drop_bit 18 (pack3 a b 0)), sextet (drop_bit 12 (pack3 a b 0)),
     sextet (drop_bit 6 (pack3 a b 0)), CHR ''=''] = Some (4, 1, pack3 a b 0, [])"
  "dec_pack 0 0 0 [sextet (drop_bit 18 (pack3 a 0 0)), sextet (drop_bit 12 (pack3 a 0 0)),
     CHR ''='', CHR ''=''] = Some (4, 2, pack3 a 0 0, [])"
  using repack3 [of a b c] repack2 [of a b] repack1 [of a]
  by (cases cs; simp; simp)+

declare dec_pack.simps [simp del]

lemma dec_loop_base64encode: "dec_loop (base64encode bs) = Some bs"
proof (induction bs rule: length_induct)
  case (1 bs)
  note steps = base64encode_steps dec_pack_groups masks pack3_bytes Let_def
  consider "bs = []" | a where "bs = [a]" | a b where "bs = [a, b]"
    | a b c cs where "bs = a # b # c # cs"
    by (metis list.exhaust)
  then show ?case
    using 1 by cases (subst dec_loop.simps, simp add: steps)+
qed

section \<open>Percent-encoding is inverted by decoding\<close>

text \<open>The reference: every character on its own, no lazily created output.\<close>

definition url_encoded :: "bool \<Rightarrow> string \<Rightarrow> string" where
  "url_encoded sp cs = concat (map (\<lambda>c. if CHAR_IS_UNRESERVED c then [c] else url_escape sp c) cs)"

lemma urlencode_loop_spec:
  "urlencode_loop sp passed ss cs =
     (case ss of
        None \<Rightarrow> if list_all CHAR_IS_UNRESERVED cs then None else Some (passed @ url_encoded sp cs)
      | Some s \<Rightarrow> Some (s @ url_encoded sp cs))"
  by (induction sp passed ss cs rule: urlencode_loop.induct)
    (auto simp: url_encoded_def Let_def split: option.splits)

lemma url_encoded_unreserved: "list_all CHAR_IS_UNRESERVED cs \<Longrightarrow> url_encoded sp cs = cs"
  by (induction cs) (auto simp: url_encoded_def)

lemma UrlEncode_eq: "UrlEncode s sp = url_encoded sp s"
  by (simp add: UrlEncode_def urlencode_loop_spec url_encoded_unreserved)

fun url_decoded :: "bool \<Rightarrow> string \<Rightarrow> string" where
  "url_decoded sp [] = []"
| "url_decoded sp (c # cs) =
     (if c = CHR ''+'' \<and> sp then CHR '' '' # url_decoded sp cs
      else if c = CHR ''%'' \<and> 2 \<le> length cs \<and> isxdigit (cs ! 0) \<and> isxdigit (cs ! 1) then
        url_unescape (cs ! 0) (cs ! 1) # url_decoded sp (drop 2 cs)
      else c # url_decoded sp cs)"

lemma urldecode_loop_spec:
  "(case urldecode_loop sp passed ss cs of None \<Rightarrow> passed @ cs | Some r \<Rightarrow> r) =
     (case ss of None \<Rightarrow> passed | Some s \<Rightarrow> s) @ url_decoded sp cs \<and>
   (ss \<noteq> None \<longrightarrow> urldecode_loop sp passed ss cs \<noteq> None)"
proof (induction sp passed ss cs rule: urldecode_loop.induct)
  case (2 sp passed ss c cs)
  consider "c = CHR ''+'' \<and> sp"
    | "\<not> (c = CHR ''+'' \<and> sp)" "c = CHR ''%'' \<and> 2 \<le> length cs \<and> isxdigit (cs ! 0) \<and> isxdigit (cs ! 1)"
    | "\<not> (c = CHR ''+'' \<and> sp)" "\<not> (c = CHR ''%'' \<and> 2 \<le> length cs \<and> isxdigit (cs ! 0) \<and> isxdigit (cs ! 1))"
    by blast
  then show ?case
  proof cases
    case 1
    then show ?thesis using 2(1) [OF refl 1] by (cases ss) (simp_all add: Let_def split: option.splits)
  next
    case c: 2
    then show ?thesis using 2(2) [OF refl c] by (cases ss) (simp_all add: Let_def split: option.splits)
  next
    case c: 3
    then show ?thesis using 2(3) [OF refl c]
      by (cases ss) (simp_all only: urldecode_loop.simps url_decoded.simps Let_def if_False append_assoc
          append.simps option.simps option.map simp_thms split: option.splits)
  qed
qed (auto split: option.splits)

lemma UrlDecode_eq: "UrlDecode s sp = url_decoded sp s"
  using urldecode_loop_spec [where sp = sp and passed = "[]" and ss = None and cs = s] by (simp add: UrlDecode_def split: option.splits)

lemma length_hexdigits: "length hexdigits = 16" by (simp add: hexdigits_def)

lemma hexdigits_values:
  assumes "n < 16"
  shows "isxdigit (hexdigits ! n)" and "xdigit_chars ! of_char (hexdigits ! n) = n"
proof -
  have "list_all isxdigit hexdigits" by (simp add: hexdigits_def isxdigit_def)
  then show "isxdigit (hexdigits ! n)" using assms by (simp add: list_all_length hexdigits_def)
  have "map (\<lambda>c. xdigit_chars ! of_char c) hexdigits = [0..<16]"
    by (simp add: hexdigits_def xdigit_chars_def upt_conv_Cons)
  from arg_cong [OF this, of "\<lambda>xs. xs ! n"] show "xdigit_chars ! of_char (hexdigits ! n) = n"
    using assms length_hexdigits by simp
qed

lemma url_unescape_hex:
  "url_unescape (hexdigits ! (of_char c div 16)) (hexdigits ! (of_char c mod 16)) = c"
proof -
  have "of_char c < (256 :: nat)" by simp
  then show ?thesis by (simp add: url_unescape_def hexdigits_values less_mult_imp_div_less div_mult_mod_eq)
qed

lemma special_reserved: "\<not> CHAR_IS_UNRESERVED (CHR ''%'')" "\<not> CHAR_IS_UNRESERVED (CHR ''+'')"
  by (simp_all add: CHAR_IS_UNRESERVED_def uri_chars_def)

lemma url_decoded_escape: "url_decoded sp (url_escape sp c @ cs) = c # url_decoded sp cs"
proof -
  have "of_char c < (256 :: nat)" by simp
  then show ?thesis
    by (simp add: url_escape_def hexdigits_values url_unescape_hex less_mult_imp_div_less)
qed

lemma url_decoded_encoded: "url_decoded sp (url_encoded sp cs) = cs"
proof (induction cs)
  case (Cons c cs)
  then show ?case
  proof (cases "CHAR_IS_UNRESERVED c")
    case True
    then have "c \<noteq> CHR ''%''" "c \<noteq> CHR ''+''" using special_reserved by auto
    then show ?thesis using Cons True by (simp add: url_encoded_def)
  next
    case False
    then show ?thesis using Cons url_decoded_escape [of sp c] by (simp add: url_encoded_def)
  qed
qed (simp add: url_encoded_def)


section \<open>Trimming and splitting\<close>

lemma find_first_dropWhile:
  "(case find_first_not_of s d of None \<Rightarrow> [] | Some n \<Rightarrow> drop n s) = dropWhile (\<lambda>c. c \<in> set d) s"
  by (induction s) (auto split: option.splits)

lemma find_first_None: "find_first_not_of s d = None \<longleftrightarrow> set s \<subseteq> set d"
  by (induction s) auto

lemma find_last_None: "find_last_not_of s d = None \<longleftrightarrow> set s \<subseteq> set d"
  by (induction s) (auto split: option.splits)

lemma find_last_Some:
  "find_last_not_of s d = Some n \<Longrightarrow>
   n < length s \<and> s ! n \<notin> set d \<and> set (drop (Suc n) s) \<subseteq> set d"
proof (induction s arbitrary: n)
  case (Cons c s)
  then show ?case using find_last_None [of s d] by (cases n) (auto split: option.splits if_splits)
qed simp

lemma find_first_le_last:
  "find_first_not_of s d = Some b \<Longrightarrow> find_last_not_of s d = Some e \<Longrightarrow> b \<le> e"
  by (induction s arbitrary: b e) (auto split: option.splits if_splits simp: find_last_None)

abbreviation rstrip :: "char set \<Rightarrow> string \<Rightarrow> string" where
  "rstrip D s \<equiv> rev (dropWhile (\<lambda>c. c \<in> D) (rev s))"

lemma rstrip_last:
  assumes "find_last_not_of s d = Some n"
  shows "rstrip (set d) s = take (Suc n) s"
proof -
  note n = find_last_Some [OF assms]
  have "s = take (Suc n) s @ drop (Suc n) s" by simp
  then have "rev s = rev (drop (Suc n) s) @ s ! n # rev (take n s)"
    using n by (metis rev_append rev_rev_ident take_Suc_conv_app_nth rev.simps(2) append_Cons rev_eq_Cons_iff) 
  then show ?thesis using n by (auto simp: dropWhile_append take_Suc_conv_app_nth)
qed

lemma Trim_spec: "Trim s d = rstrip (set d) (dropWhile (\<lambda>c. c \<in> set d) s)"
proof (cases "find_first_not_of s d")
  case None
  then have "dropWhile (\<lambda>c. c \<in> set d) s = []" using find_first_None by (auto simp: dropWhile_eq_Nil_conv)
  then show ?thesis by (simp only: Trim_def None option.case rev.simps dropWhile.simps)
next
  case (Some b)
  then obtain e where e: "find_last_not_of s d = Some e"
    using find_first_None [of s d] find_last_None [of s d] by fastforce
  have le: "b \<le> e" using find_first_le_last [OF Some e] .
  note le' = find_last_Some [OF e]
  have dw: "dropWhile (\<lambda>c. c \<in> set d) s = drop b s" using find_first_dropWhile [of s d] Some by simp
  have "s ! e \<in> set (rev (drop b s))"
    using le le' nth_mem [of "e - b" "drop b s"] by (simp add: diff_less_mono)
  then have "dropWhile (\<lambda>c. c \<in> set d) (rev (drop b s) @ rev (take b s)) =
      dropWhile (\<lambda>c. c \<in> set d) (rev (drop b s)) @ rev (take b s)"
    using le' by (intro dropWhile_append1) auto
  then have "take (Suc e) s = take b s @ rstrip (set d) (drop b s)"
    using rstrip_last [OF e] by (metis append_take_drop_id rev_append rev_rev_ident)
  then have "rstrip (set d) (drop b s) = drop b (take (Suc e) s)"
    using le le' by simp
  then show ?thesis using Some e le dw by (simp add: Trim_def substr_def drop_take Suc_diff_le)
qed

lemma TrimLeft_spec: "TrimLeft s d = dropWhile (\<lambda>c. c \<in> set d) s"
  using find_first_dropWhile [of s d] by (simp add: TrimLeft_def)

lemma TrimRight_spec: "TrimRight s d = butlast (rstrip (set d) s)"
proof (cases "find_last_not_of s d")
  case None
  then have "dropWhile (\<lambda>c. c \<in> set d) (rev s) = []"
    using find_last_None [of s d] by auto
  then show ?thesis by (simp only: TrimRight_def None option.case rev.simps butlast.simps)
next
  case (Some n)
  then show ?thesis using rstrip_last [OF Some] find_last_Some [OF Some]
    by (simp add: TrimRight_def substr_def butlast_take)
qed

lemma rfind_None: "rfind s x = None \<longleftrightarrow> x \<notin> set s"
  by (induction s) (auto split: option.splits)

lemma rfind_Some:
  "rfind s x = Some n \<Longrightarrow> n < length s \<and> s ! n = x \<and> x \<notin> set (drop (Suc n) s)"
proof (induction s arbitrary: n)
  case (Cons c s)
  then show ?case using rfind_None [of s x] by (cases n) (auto split: option.splits if_splits)
qed simp

lemma rfind_split:
  "rfind s x = Some n \<Longrightarrow> s = take n s @ x # drop (Suc n) s"
  using rfind_Some [of s x n] id_take_nth_drop [of n s] by simp

section \<open>What the text utilities guarantee\<close>

text \<open>C33: decoding inverts the base64 encoding of every byte sequence, and the encoding has four
  characters for every three bytes or part of three.\<close>

theorem base64_round_trip:
  "base64decode (base64encode bs) = bs \<and> length (base64encode bs) = 4 * ((length bs + 2) div 3)"
proof
  show "base64decode (base64encode bs) = bs" by (simp add: base64decode_def dec_loop_base64encode)
  show "length (base64encode bs) = 4 * ((length bs + 2) div 3)"
  proof (induction bs rule: length_induct)
    case (1 bs)
    consider "bs = []" | a where "bs = [a]" | a b where "bs = [a, b]"
      | a b c cs where "bs = a # b # c # cs"
      by (metis list.exhaust)
    then show ?case
      using 1 div_add_self1 [of 3 "length bs - 1"] by cases (simp_all add: base64encode_steps)
  qed
qed

lemma UrlEncode_chars:
  "list_all (\<lambda>c. CHAR_IS_UNRESERVED c \<or> c = CHR ''%'' \<or> c = CHR ''+'') (UrlEncode s sp)"
proof -
  have hex: "list_all CHAR_IS_UNRESERVED hexdigits"
    by (simp add: hexdigits_def CHAR_IS_UNRESERVED_def uri_chars_def)
  have "CHAR_IS_UNRESERVED (hexdigits ! n)" if "n < 16" for n
    using hex that by (simp add: list_all_length length_hexdigits)
  then show ?thesis
    by (auto simp: UrlEncode_eq url_encoded_def url_escape_def list_all_iff less_mult_imp_div_less)
qed

lemma UrlDecode_UrlEncode: "UrlDecode (UrlEncode s sp) sp = s"
  by (simp add: UrlEncode_eq UrlDecode_eq url_decoded_encoded)

text \<open>Decoding inverts the percent-encoding of every string, with and without spaces as plus
  signs, and the encoding has only unreserved characters, percent and plus signs.\<close>

lemma url_round_trip:
  "UrlDecode (UrlEncode s sp) sp = s \<and>
   list_all (\<lambda>c. CHAR_IS_UNRESERVED c \<or> c = CHR ''%'' \<or> c = CHR ''+'') (UrlEncode s sp)"
  by (simp add: UrlDecode_UrlEncode UrlEncode_chars)

text \<open>\<^verbatim>\<open>Trim\<close> strips the delimiters at both ends and \<^verbatim>\<open>TrimLeft\<close> those at the beginning;
  \<^verbatim>\<open>TrimRight\<close> strips those at the end and one character too many.\<close>

lemma trim_strips:
  "Trim s d = rstrip (set d) (dropWhile (\<lambda>c. c \<in> set d) s) \<and>
   TrimLeft s d = dropWhile (\<lambda>c. c \<in> set d) s \<and>
   TrimRight s d = butlast (rstrip (set d) s)"
  by (simp add: Trim_spec TrimLeft_spec TrimRight_spec)

text \<open>\<^verbatim>\<open>Dirname\<close> and \<^verbatim>\<open>Basename\<close> split a path name at its last slash and lose nothing.\<close>

lemma dirname_basename:
  "if CHR ''/'' \<notin> set f then Dirname f = ''.'' \<and> Basename f = f
   else CHR ''/'' \<notin> set (Basename f) \<and>
     (if CHR ''/'' \<in> set (tl f) then Dirname f @ CHR ''/'' # Basename f = f
      else Dirname f = ''/'' \<and> CHR ''/'' # Basename f = f)"
proof (cases "rfind f (CHR ''/'')")
  case None
  then show ?thesis using rfind_None [of f "CHR ''/''"] by (simp add: Dirname_def Basename_def)
next
  case (Some n)
  note r = rfind_Some [OF Some] and split = rfind_split [OF Some]
  have "CHR ''/'' \<in> set (tl f) \<longleftrightarrow> n \<noteq> 0"
    using r split by (cases n) (auto simp: drop_Suc, metis in_set_conv_decomp tl_append2 list.sel(3) neq_Nil_conv append_Nil length_0_conv take_eq_Nil Zero_not_Suc list.size(3) not_less_zero)
  moreover have "f \<noteq> []" "CHR ''/'' \<in> set f" using r by auto (metis nth_mem)
  ultimately show ?thesis using r split Some by (auto simp: Dirname_def Basename_def substr_def)
qed

end
