(* ===== verification/Http_Message.thy ===== *)
theory Http_Message
  imports Ordered_Map Util_Text "HOL-Library.List_Lexorder"
begin

text \<open>
  HTTP messages, from \<^verbatim>\<open>http.h\<close> and \<^verbatim>\<open>http.cpp\<close>: the tables of methods and status codes, the maps
  of headers, parameters and cookies, which compare their keys with \<^verbatim>\<open>strcasecmp\<close>, the lazy parsing
  of parameters and cookies, and the printing of messages.  The enumerations are C++ enumerations
  whose values the parser casts from integers, so a method and a status are integers and the tables
  are lists of entries \<open>(number, name, description)\<close>.  \<^verbatim>\<open>boost::lexical_cast\<close> and
  \<^verbatim>\<open>Time2Str\<close> (which formats a time in the local zone) are parameters.
\<close>

section \<open>Methods and status codes\<close>

type_synonym HttpMethod = int
type_synonym HttpStatus = int

definition HTTP_METHOD_MAP :: "(int \<times> string \<times> string) list" where
  "HTTP_METHOD_MAP =
     [(0, ''DELETE'', ''DELETE''), (1, ''GET'', ''GET''), (2, ''HEAD'', ''HEAD''),
      (3, ''POST'', ''POST''), (4, ''PUT'', ''PUT''), (5, ''CONNECT'', ''CONNECT''),
      (6, ''OPTIONS'', ''OPTIONS''), (7, ''TRACE'', ''TRACE''), (8, ''COPY'', ''COPY''),
      (9, ''LOCK'', ''LOCK''), (10, ''MKCOL'', ''MKCOL''), (11, ''MOVE'', ''MOVE''),
      (12, ''PROPFIND'', ''PROPFIND''), (13, ''PROPPATCH'', ''PROPPATCH''),
      (14, ''SEARCH'', ''SEARCH''), (15, ''UNLOCK'', ''UNLOCK''), (16, ''BIND'', ''BIND''),
      (17, ''REBIND'', ''REBIND''), (18, ''UNBIND'', ''UNBIND''), (19, ''ACL'', ''ACL''),
      (20, ''REPORT'', ''REPORT''), (21, ''MKACTIVITY'', ''MKACTIVITY''),
      (22, ''CHECKOUT'', ''CHECKOUT''), (23, ''MERGE'', ''MERGE''),
      (24, ''MSEARCH'', ''M - SEARCH''), (25, ''NOTIFY'', ''NOTIFY''),
      (26, ''SUBSCRIBE'', ''SUBSCRIBE''), (27, ''UNSUBSCRIBE'', ''UNSUBSCRIBE''),
      (28, ''PATCH'', ''PATCH''), (29, ''PURGE'', ''PURGE''),
      (30, ''MKCALENDAR'', ''MKCALENDAR''), (31, ''LINK'', ''LINK''),
      (32, ''UNLINK'', ''UNLINK''), (33, ''SOURCE'', ''SOURCE'')]"

definition HTTP_STATUS_MAP :: "(int \<times> string \<times> string) list" where
  "HTTP_STATUS_MAP =
     [(100, ''CONTINUE'', ''Continue''), (101, ''SWITCHING_PROTOCOLS'', ''Switching Protocols''),
      (102, ''PROCESSING'', ''Processing''), (200, ''OK'', ''OK''),
      (201, ''CREATED'', ''Created''), (202, ''ACCEPTED'', ''Accepted''),
      (203, ''NON_AUTHORITATIVE_INFORMATION'', ''Non - Authoritative Information''),
      (204, ''NO_CONTENT'', ''No Content''), (205, ''RESET_CONTENT'', ''Reset Content''),
      (206, ''PARTIAL_CONTENT'', ''Partial Content''),
      (207, ''MULTI_STATUS'', ''Multi - Status''),
      (208, ''ALREADY_REPORTED'', ''Already Reported''), (226, ''IM_USED'', ''IM Used''),
      (300, ''MULTIPLE_CHOICES'', ''Multiple Choices''),
      (301, ''MOVED_PERMANENTLY'', ''Moved Permanently''), (302, ''FOUND'', ''Found''),
      (303, ''SEE_OTHER'', ''See Other''), (304, ''NOT_MODIFIED'', ''Not Modified''),
      (305, ''USE_PROXY'', ''Use Proxy''), (307, ''TEMPORARY_REDIRECT'', ''Temporary Redirect''),
      (308, ''PERMANENT_REDIRECT'', ''Permanent Redirect''),
      (400, ''BAD_REQUEST'', ''Bad Request''), (401, ''UNAUTHORIZED'', ''Unauthorized''),
      (402, ''PAYMENT_REQUIRED'', ''Payment Required''), (403, ''FORBIDDEN'', ''Forbidden''),
      (404, ''NOT_FOUND'', ''Not Found''), (405, ''METHOD_NOT_ALLOWED'', ''Method Not Allowed''),
      (406, ''NOT_ACCEPTABLE'', ''Not Acceptable''),
      (407, ''PROXY_AUTHENTICATION_REQUIRED'', ''Proxy Authentication Required''),
      (408, ''REQUEST_TIMEOUT'', ''Request Timeout''), (409, ''CONFLICT'', ''Conflict''),
      (410, ''GONE'', ''Gone''), (411, ''LENGTH_REQUIRED'', ''Length Required''),
      (412, ''PRECONDITION_FAILED'', ''Precondition Failed''),
      (413, ''PAYLOAD_TOO_LARGE'', ''Payload Too Large''),
      (414, ''URI_TOO_LONG'', ''URI Too Long''),
      (415, ''UNSUPPORTED_MEDIA_TYPE'', ''Unsupported Media Type''),
      (416, ''RANGE_NOT_SATISFIABLE'', ''Range Not Satisfiable''),
      (417, ''EXPECTATION_FAILED'', ''Expectation Failed''),
      (421, ''MISDIRECTED_REQUEST'', ''Misdirected Request''),
      (422, ''UNPROCESSABLE_ENTITY'', ''Unprocessable Entity''), (423, ''LOCKED'', ''Locked''),
      (424, ''FAILED_DEPENDENCY'', ''Failed Dependency''),
      (426, ''UPGRADE_REQUIRED'', ''Upgrade Required''),
      (428, ''PRECONDITION_REQUIRED'', ''Precondition Required''),
      (429, ''TOO_MANY_REQUESTS'', ''Too Many Requests''),
      (431, ''REQUEST_HEADER_FIELDS_TOO_LARGE'', ''Request Header Fields Too Large''),
      (451, ''UNAVAILABLE_FOR_LEGAL_REASONS'', ''Unavailable For Legal Reasons''),
      (500, ''INTERNAL_SERVER_ERROR'', ''Internal Server Error''),
      (501, ''NOT_IMPLEMENTED'', ''Not Implemented''), (502, ''BAD_GATEWAY'', ''Bad Gateway''),
      (503, ''SERVICE_UNAVAILABLE'', ''Service Unavailable''),
      (504, ''GATEWAY_TIMEOUT'', ''Gateway Timeout''),
      (505, ''HTTP_VERSION_NOT_SUPPORTED'', ''HTTP Version Not Supported''),
      (506, ''VARIANT_ALSO_NEGOTIATES'', ''Variant Also Negotiates''),
      (507, ''INSUFFICIENT_STORAGE'', ''Insufficient Storage''),
      (508, ''LOOP_DETECTED'', ''Loop Detected''), (510, ''NOT_EXTENDED'', ''Not Extended''),
      (511, ''NETWORK_AUTHENTICATION_REQUIRED'', ''Network Authentication Required'')]"

text \<open>The enumerators the code names; the last enumerator follows the one before it.\<close>

definition GET :: HttpMethod where "GET = 1"
definition INVAILD_METHOD :: HttpMethod where "INVAILD_METHOD = 34"
definition OK :: HttpStatus where "OK = 200"
definition FOUND :: HttpStatus where "FOUND = 302"
definition NOT_FOUND :: HttpStatus where "NOT_FOUND = 404"

definition strcmp_eq :: "string \<Rightarrow> string \<Rightarrow> bool" where
  "strcmp_eq a b \<longleftrightarrow> c_str a = c_str b"

definition StringToHttpMethod :: "string \<Rightarrow> HttpMethod" where
  "StringToHttpMethod m =
     (case find (\<lambda>(num, nm, description). strcmp_eq m description) HTTP_METHOD_MAP of
        Some (num, nm, description) \<Rightarrow> num
      | None \<Rightarrow> INVAILD_METHOD)"

definition HttpMethodToString :: "HttpMethod \<Rightarrow> string" where
  "HttpMethodToString m =
     (case find (\<lambda>(num, nm, description). num = m) HTTP_METHOD_MAP of
        Some (num, nm, description) \<Rightarrow> description
      | None \<Rightarrow> ''<unknown>'')"

definition HttpStatusToString :: "HttpStatus \<Rightarrow> string" where
  "HttpStatusToString s =
     (case find (\<lambda>(code, nm, msg). code = s) HTTP_STATUS_MAP of
        Some (code, nm, msg) \<Rightarrow> msg
      | None \<Rightarrow> ''<unknown>'')"

section \<open>Case-insensitive comparison\<close>

definition tolower :: "char \<Rightarrow> int" where
  "tolower c = (let n = of_char c :: int in if 65 \<le> n \<and> n \<le> 90 then n + 32 else n)"

fun casecmp :: "string \<Rightarrow> string \<Rightarrow> int" where
  "casecmp [] [] = 0"
| "casecmp [] (b # bs) = 0 - tolower b"
| "casecmp (a # as) [] = tolower a"
| "casecmp (a # as) (b # bs) =
     (if tolower a = tolower b then casecmp as bs else tolower a - tolower b)"

definition strcasecmp :: "string \<Rightarrow> string \<Rightarrow> int" where
  "strcasecmp a b = casecmp (c_str a) (c_str b)"

definition CaseInsensitiveLess :: "string \<Rightarrow> string \<Rightarrow> bool" where
  "CaseInsensitiveLess lhs rhs \<longleftrightarrow> strcasecmp lhs rhs < 0"

fun case_prefix :: "string \<Rightarrow> string \<Rightarrow> bool" where
  "case_prefix [] s = True"
| "case_prefix (n # ns) [] = False"
| "case_prefix (n # ns) (c # cs) \<longleftrightarrow> tolower n = tolower c \<and> case_prefix ns cs"

text \<open>Whether \<^verbatim>\<open>strcasestr\<close> finds the needle.\<close>

fun strcasestr :: "string \<Rightarrow> string \<Rightarrow> bool" where
  "strcasestr [] needle = case_prefix needle []"
| "strcasestr (c # cs) needle \<longleftrightarrow> case_prefix needle (c # cs) \<or> strcasestr cs needle"

section \<open>Requests\<close>

type_synonym MapType = "(string, string) omap"

record HttpRequest =
  m_method :: HttpMethod
  m_version :: byte
  m_close :: bool
  m_websocket :: bool
  m_parserParamFlag :: byte
  m_path :: string
  m_query :: string
  m_fragment :: string
  m_body :: string
  m_headers :: MapType
  m_params :: MapType
  m_cookies :: MapType

record HttpResponse =
  rsp_status :: HttpStatus
  rsp_version :: byte
  rsp_close :: bool
  rsp_websocket :: bool
  rsp_body :: string
  rsp_header :: MapType
  rsp_cookies :: "string list"
  rsp_reason :: string

definition new_HttpRequest :: "byte \<Rightarrow> bool \<Rightarrow> HttpRequest" where
  "new_HttpRequest version cl =
     \<lparr>m_method = GET, m_version = version, m_close = cl, m_websocket = False,
      m_parserParamFlag = 0, m_path = ''/'', m_query = [], m_fragment = [], m_body = [],
      m_headers = [], m_params = [], m_cookies = []\<rparr>"

definition new_HttpResponse :: "byte \<Rightarrow> bool \<Rightarrow> HttpResponse" where
  "new_HttpResponse version cl =
     \<lparr>rsp_status = OK, rsp_version = version, rsp_close = cl, rsp_websocket = False,
      rsp_body = [], rsp_header = [], rsp_cookies = [], rsp_reason = []\<rparr>"

definition createResponse :: "HttpRequest \<Rightarrow> HttpResponse" where
  "createResponse req = new_HttpResponse (m_version req) (m_close req)"

definition map_value :: "MapType \<Rightarrow> string \<Rightarrow> string \<Rightarrow> string" where
  "map_value m key def = (case map_find CaseInsensitiveLess key m of None \<Rightarrow> def | Some v \<Rightarrow> v)"

definition req_getHeader :: "HttpRequest \<Rightarrow> string \<Rightarrow> string \<Rightarrow> string" where
  "req_getHeader req key def = map_value (m_headers req) key def"

definition req_setHeader :: "string \<Rightarrow> string \<Rightarrow> HttpRequest \<Rightarrow> HttpRequest" where
  "req_setHeader key val req = req\<lparr>m_headers := map_set CaseInsensitiveLess key val (m_headers req)\<rparr>"

definition req_setParam :: "string \<Rightarrow> string \<Rightarrow> HttpRequest \<Rightarrow> HttpRequest" where
  "req_setParam key val req = req\<lparr>m_params := map_set CaseInsensitiveLess key val (m_params req)\<rparr>"

definition req_setCookie :: "string \<Rightarrow> string \<Rightarrow> HttpRequest \<Rightarrow> HttpRequest" where
  "req_setCookie key val req = req\<lparr>m_cookies := map_set CaseInsensitiveLess key val (m_cookies req)\<rparr>"

definition req_delHeader :: "string \<Rightarrow> HttpRequest \<Rightarrow> HttpRequest" where
  "req_delHeader key req = req\<lparr>m_headers := map_erase CaseInsensitiveLess key (m_headers req)\<rparr>"

definition req_delParam :: "string \<Rightarrow> HttpRequest \<Rightarrow> HttpRequest" where
  "req_delParam key req = req\<lparr>m_params := map_erase CaseInsensitiveLess key (m_params req)\<rparr>"

definition req_delCookie :: "string \<Rightarrow> HttpRequest \<Rightarrow> HttpRequest" where
  "req_delCookie key req = req\<lparr>m_cookies := map_erase CaseInsensitiveLess key (m_cookies req)\<rparr>"

text \<open>The \<open>has\<close> functions also write through a pointer that may be null: \<open>None\<close>, else \<open>Some\<close> of
  what it points to.\<close>

definition map_has :: "MapType \<Rightarrow> string \<Rightarrow> string option \<Rightarrow> bool \<times> string option" where
  "map_has m key val =
     (case map_find CaseInsensitiveLess key m of
        None \<Rightarrow> (False, val)
      | Some v \<Rightarrow> (True, if val \<noteq> None then Some v else val))"

definition hasHeader :: "HttpRequest \<Rightarrow> string \<Rightarrow> string option \<Rightarrow> bool \<times> string option" where
  "hasHeader req key val = map_has (m_headers req) key val"

definition hasParam :: "HttpRequest \<Rightarrow> string \<Rightarrow> string option \<Rightarrow> bool \<times> string option" where
  "hasParam req key val = map_has (m_params req) key val"

definition hasCookie :: "HttpRequest \<Rightarrow> string \<Rightarrow> string option \<Rightarrow> bool \<times> string option" where
  "hasCookie req key val = map_has (m_cookies req) key val"

section \<open>Parameters and cookies\<close>

fun index_of :: "char \<Rightarrow> string \<Rightarrow> nat option" where
  "index_of c [] = None"
| "index_of c (x # xs) = (if x = c then Some 0 else map_option Suc (index_of c xs))"

text \<open>\<^verbatim>\<open>std::string::find(c, pos)\<close>; \<open>None\<close> is \<^verbatim>\<open>npos\<close>.\<close>

definition str_find :: "string \<Rightarrow> char \<Rightarrow> nat \<Rightarrow> nat option" where
  "str_find s c pos = map_option (\<lambda>i. pos + i) (index_of c (drop pos s))"

lemma index_of_Some: "index_of c s = Some i \<Longrightarrow> i < length s \<and> s ! i = c \<and> c \<notin> set (take i s)"
  by (induction c s arbitrary: i rule: index_of.induct) (auto split: if_splits)

lemma str_find_bounds: "str_find s c pos = Some i \<Longrightarrow> pos \<le> i \<and> i < length s"
  by (auto simp: str_find_def dest!: index_of_Some)

text \<open>The loop of \<^verbatim>\<open>PARSE_PARAM\<close> from position \<open>pos\<close>.  \<^verbatim>\<open>substr\<close> with a length computed from
  \<^verbatim>\<open>npos\<close> delivers the rest of the string.\<close>

function param_loop :: "string \<Rightarrow> char \<Rightarrow> (string \<Rightarrow> string) \<Rightarrow> nat \<Rightarrow> MapType \<Rightarrow> MapType" where
  "param_loop str flag trim pos m =
     (let last_pos = pos in
      case str_find str (CHR ''='') pos of
        None \<Rightarrow> m
      | Some key \<Rightarrow>
          let name = trim (substr str last_pos (key - last_pos)) in
          (case str_find str flag key of
             None \<Rightarrow> map_insert CaseInsensitiveLess name (UrlDecode (drop (key + 1) str) True) m
           | Some pos' \<Rightarrow>
               param_loop str flag trim (pos' + 1)
                 (map_insert CaseInsensitiveLess name
                   (UrlDecode (substr str (key + 1) (pos' - key - 1)) True) m)))"
  by pat_completeness auto
termination
  by (relation "measure (\<lambda>(str, flag, trim, pos, m). Suc (length str) - pos)")
    (auto dest!: str_find_bounds)

declare param_loop.simps [simp del]

definition PARSE_PARAM :: "string \<Rightarrow> char \<Rightarrow> (string \<Rightarrow> string) \<Rightarrow> MapType \<Rightarrow> MapType" where
  "PARSE_PARAM str flag trim m = param_loop str flag trim 0 m"

definition initQueryParam :: "HttpRequest \<Rightarrow> HttpRequest" where
  "initQueryParam req =
     (if m_parserParamFlag req AND 1 \<noteq> 0 then req
      else req\<lparr>m_params := PARSE_PARAM (m_query req) (CHR ''&'') (\<lambda>s. s) (m_params req),
               m_parserParamFlag := m_parserParamFlag req OR 1\<rparr>)"

definition initBodyParam :: "HttpRequest \<Rightarrow> HttpRequest" where
  "initBodyParam req =
     (if m_parserParamFlag req AND 2 \<noteq> 0 then req
      else
        let content_type = req_getHeader req ''content-type'' [] in
        if \<not> strcasestr (c_str content_type) ''application/x-www-form-urlencoded'' then
          req\<lparr>m_parserParamFlag := m_parserParamFlag req OR 2\<rparr>
        else
          req\<lparr>m_params := PARSE_PARAM (m_body req) (CHR ''&'') (\<lambda>s. s) (m_params req),
              m_parserParamFlag := m_parserParamFlag req OR 2\<rparr>)"

text \<open>The default delimiters of \<^verbatim>\<open>Trim\<close> are space, tab, carriage return and newline.\<close>

definition blanks :: string where
  "blanks = [CHR '' '', CHR 0x09, CHR 0x0D, CHR 0x0A]"

definition initCookies :: "HttpRequest \<Rightarrow> HttpRequest" where
  "initCookies req =
     (if m_parserParamFlag req AND 4 \<noteq> 0 then req
      else
        let cookie = req_getHeader req ''cookie'' [] in
        if cookie = [] then req\<lparr>m_parserParamFlag := m_parserParamFlag req OR 4\<rparr>
        else
          req\<lparr>m_cookies := PARSE_PARAM cookie (CHR '';'') (\<lambda>s. Trim s blanks) (m_cookies req),
              m_parserParamFlag := m_parserParamFlag req OR 4\<rparr>)"

definition initParam :: "HttpRequest \<Rightarrow> HttpRequest" where
  "initParam req = initCookies (initBodyParam (initQueryParam req))"

definition req_init :: "HttpRequest \<Rightarrow> HttpRequest" where
  "req_init req =
     (let conn = req_getHeader req ''connection'' [] in
      if conn \<noteq> [] then
        (if strcasecmp conn ''keep-alive'' = 0 then req\<lparr>m_close := False\<rparr> else req\<lparr>m_close := True\<rparr>)
      else req)"

text \<open>The getters that parse first return the parsed request too.\<close>

definition getParam :: "HttpRequest \<Rightarrow> string \<Rightarrow> string \<Rightarrow> HttpRequest \<times> string" where
  "getParam req key def =
     (let req = initQueryParam (initBodyParam req) in (req, map_value (m_params req) key def))"

definition getCookie :: "HttpRequest \<Rightarrow> string \<Rightarrow> string \<Rightarrow> HttpRequest \<times> string" where
  "getCookie req key def =
     (let req = initCookies req in (req, map_value (m_cookies req) key def))"

text \<open>Typed access; \<open>cast\<close> is \<^verbatim>\<open>boost::lexical_cast\<close>, \<open>None\<close> when it throws.\<close>

definition checkGetAs :: "(string \<Rightarrow> 't option) \<Rightarrow> MapType \<Rightarrow> string \<Rightarrow> 't \<Rightarrow> bool \<times> 't" where
  "checkGetAs cast m key def =
     (case map_find CaseInsensitiveLess key m of
        None \<Rightarrow> (False, def)
      | Some v \<Rightarrow> (case cast v of Some x \<Rightarrow> (True, x) | None \<Rightarrow> (False, def)))"

definition getAs :: "(string \<Rightarrow> 't option) \<Rightarrow> MapType \<Rightarrow> string \<Rightarrow> 't \<Rightarrow> 't" where
  "getAs cast m key def =
     (case map_find CaseInsensitiveLess key m of
        None \<Rightarrow> def
      | Some v \<Rightarrow> (case cast v of Some x \<Rightarrow> x | None \<Rightarrow> def))"

definition checkGetHeaderAs :: "(string \<Rightarrow> 't option) \<Rightarrow> HttpRequest \<Rightarrow> string \<Rightarrow> 't \<Rightarrow> bool \<times> 't" where
  "checkGetHeaderAs cast req key def = checkGetAs cast (m_headers req) key def"

definition getHeaderAs :: "(string \<Rightarrow> 't option) \<Rightarrow> HttpRequest \<Rightarrow> string \<Rightarrow> 't \<Rightarrow> 't" where
  "getHeaderAs cast req key def = getAs cast (m_headers req) key def"

definition checkGetParamAs ::
    "(string \<Rightarrow> 't option) \<Rightarrow> HttpRequest \<Rightarrow> string \<Rightarrow> 't \<Rightarrow> HttpRequest \<times> bool \<times> 't" where
  "checkGetParamAs cast req key def =
     (let req = initBodyParam (initQueryParam req) in (req, checkGetAs cast (m_params req) key def))"

definition getParamAs :: "(string \<Rightarrow> 't option) \<Rightarrow> HttpRequest \<Rightarrow> string \<Rightarrow> 't \<Rightarrow> HttpRequest \<times> 't" where
  "getParamAs cast req key def =
     (let req = initBodyParam (initQueryParam req) in (req, getAs cast (m_params req) key def))"

definition checkGetCookieAs ::
    "(string \<Rightarrow> 't option) \<Rightarrow> HttpRequest \<Rightarrow> string \<Rightarrow> 't \<Rightarrow> HttpRequest \<times> bool \<times> 't" where
  "checkGetCookieAs cast req key def =
     (let req = initCookies req in (req, checkGetAs cast (m_cookies req) key def))"

definition getCookieAs :: "(string \<Rightarrow> 't option) \<Rightarrow> HttpRequest \<Rightarrow> string \<Rightarrow> 't \<Rightarrow> HttpRequest \<times> 't" where
  "getCookieAs cast req key def =
     (let req = initCookies req in (req, getAs cast (m_cookies req) key def))"

section \<open>Printing\<close>

definition crlf :: string where
  "crlf = [CHR 0x0D, CHR 0x0A]"

definition print_version :: "byte \<Rightarrow> string" where
  "print_version v = dec (unat (drop_bit 4 v)) @ ''.'' @ dec (unat (v AND 0x0f))"

definition print_headers :: "bool \<Rightarrow> MapType \<Rightarrow> string" where
  "print_headers websocket m =
     concat (map (\<lambda>(k, v). if \<not> websocket \<and> strcasecmp k ''connection'' = 0 then []
                          else k @ '': '' @ v @ crlf) m)"

definition print_connection :: "bool \<Rightarrow> bool \<Rightarrow> string" where
  "print_connection websocket cl =
     (if \<not> websocket then ''connection: '' @ (if cl then ''close'' else ''keep-alive'') @ crlf else [])"

definition print_body :: "string \<Rightarrow> string" where
  "print_body body =
     (if body \<noteq> [] then ''content-length: '' @ dec (length body) @ crlf @ crlf @ body else crlf)"

definition req_dump :: "HttpRequest \<Rightarrow> string \<Rightarrow> string" where
  "req_dump req os =
     os @ HttpMethodToString (m_method req) @ '' '' @ m_path req @
     (if m_query req = [] then [] else ''?'') @ m_query req @
     (if m_fragment req = [] then [] else ''#'') @ m_fragment req @ '' HTTP/'' @
     print_version (m_version req) @ crlf @
     print_connection (m_websocket req) (m_close req) @
     print_headers (m_websocket req) (m_headers req) @ print_body (m_body req)"

definition req_toString :: "HttpRequest \<Rightarrow> string" where
  "req_toString req = req_dump req []"

section \<open>Responses\<close>

definition rsp_getHeader :: "HttpResponse \<Rightarrow> string \<Rightarrow> string \<Rightarrow> string" where
  "rsp_getHeader rsp key def = map_value (rsp_header rsp) key def"

definition rsp_setHeader :: "string \<Rightarrow> string \<Rightarrow> HttpResponse \<Rightarrow> HttpResponse" where
  "rsp_setHeader key val rsp =
     rsp\<lparr>rsp_header := map_set CaseInsensitiveLess key val (rsp_header rsp)\<rparr>"

definition rsp_delHeader :: "string \<Rightarrow> HttpResponse \<Rightarrow> HttpResponse" where
  "rsp_delHeader key rsp = rsp\<lparr>rsp_header := map_erase CaseInsensitiveLess key (rsp_header rsp)\<rparr>"

definition rsp_getHeaderAs :: "(string \<Rightarrow> 't option) \<Rightarrow> HttpResponse \<Rightarrow> string \<Rightarrow> 't \<Rightarrow> 't" where
  "rsp_getHeaderAs cast rsp key def = getAs cast (rsp_header rsp) key def"

definition setRedirect :: "string \<Rightarrow> HttpResponse \<Rightarrow> HttpResponse" where
  "setRedirect uri rsp = rsp_setHeader ''Location'' uri (rsp\<lparr>rsp_status := FOUND\<rparr>)"

definition rsp_setCookie ::
    "(int \<Rightarrow> string \<Rightarrow> string) \<Rightarrow> string \<Rightarrow> string \<Rightarrow> int \<Rightarrow> string \<Rightarrow> string \<Rightarrow> bool \<Rightarrow>
     HttpResponse \<Rightarrow> HttpResponse" where
  "rsp_setCookie Time2Str key val expired path domain secure rsp =
     (let ss = key @ ''='' @ val;
          ss = (if expired > 0 then ss @ '';expires='' @ Time2Str expired ''%a,%d %b %Y %H:%M:%S'' else ss);
          ss = (if domain \<noteq> [] then ss @ '';domain='' @ domain else ss);
          ss = (if path \<noteq> [] then ss @ '';path='' @ path else ss);
          ss = (if secure then ss @ '';secure'' else ss)
      in rsp\<lparr>rsp_cookies := rsp_cookies rsp @ [ss]\<rparr>)"

text \<open>The status is cast to \<^verbatim>\<open>uint32_t\<close> before it is printed.\<close>

definition rsp_dump :: "HttpResponse \<Rightarrow> string \<Rightarrow> string" where
  "rsp_dump rsp os =
     os @ ''HTTP/'' @ print_version (rsp_version rsp) @ '' '' @
     dec (nat (rsp_status rsp mod 2 ^ 32)) @ '' '' @
     (if rsp_reason rsp = [] then HttpStatusToString (rsp_status rsp) else rsp_reason rsp) @ crlf @
     print_headers (rsp_websocket rsp) (rsp_header rsp) @
     concat (map (\<lambda>c. ''Set-Cookie: '' @ c @ crlf) (rsp_cookies rsp)) @
     print_connection (rsp_websocket rsp) (rsp_close rsp) @ print_body (rsp_body rsp)"

definition rsp_toString :: "HttpResponse \<Rightarrow> string" where
  "rsp_toString rsp = rsp_dump rsp []"


section \<open>The maps with case-insensitive keys\<close>

text \<open>A key counts only up to case and up to its first NUL character.\<close>

definition fold_case :: "string \<Rightarrow> int list" where
  "fold_case s = map tolower (c_str s)"

lemma tolower_pos: "c \<noteq> CHR 0x00 \<Longrightarrow> 0 < tolower c"
proof -
  assume c: "c \<noteq> CHR 0x00"
  have "of_char c \<noteq> (0 :: nat)"
  proof
    assume "of_char c = (0 :: nat)"
    then have "of_char c = (of_char (CHR 0x00) :: nat)" by simp
    then show False using c by (simp only: of_char_eq_iff)
  qed
  then have "(of_char c :: int) \<noteq> 0" using of_nat_of_char [of c, where ?'a = int] by linarith
  moreover have "(0 :: int) \<le> of_char c" using of_nat_of_char [of c, where ?'a = int] by linarith
  ultimately show ?thesis by (simp add: tolower_def Let_def)
qed

lemma casecmp_fold:
  assumes "CHR 0x00 \<notin> set a" and "CHR 0x00 \<notin> set b"
  shows "(casecmp a b < 0 \<longleftrightarrow> map tolower a < map tolower b) \<and>
    (casecmp a b = 0 \<longleftrightarrow> map tolower a = map tolower b)"
  using assms by (induction a b rule: casecmp.induct) (auto dest!: tolower_pos [OF not_sym])

lemma c_str_no_NUL: "CHR 0x00 \<notin> set (c_str s)"
  by (auto simp: c_str_def dest: set_takeWhileD)

lemma less_fold: "CaseInsensitiveLess a b \<longleftrightarrow> fold_case a < fold_case b"
  by (simp add: CaseInsensitiveLess_def strcasecmp_def fold_case_def casecmp_fold c_str_no_NUL)

lemma strcasecmp_eq_fold: "strcasecmp a b = 0 \<longleftrightarrow> fold_case a = fold_case b"
  by (simp add: strcasecmp_def fold_case_def casecmp_fold c_str_no_NUL)

interpretation ci: strict_weak_order CaseInsensitiveLess
  by unfold_locales (auto simp: less_fold)

lemma same_key_ci: "same_key CaseInsensitiveLess a b \<longleftrightarrow> strcasecmp a b = 0"
  by (auto simp: same_key_def less_fold strcasecmp_eq_fold)

abbreviation ci_ok :: "MapType \<Rightarrow> bool" where
  "ci_ok m \<equiv> map_ok CaseInsensitiveLess m"

lemma map_value_ops:
  assumes "ci_ok m"
  shows "map_value (map_set CaseInsensitiveLess k v m) k' d =
      (if strcasecmp k k' = 0 then v else map_value m k' d)"
    and "map_value (map_erase CaseInsensitiveLess k m) k' d =
      (if strcasecmp k k' = 0 then d else map_value m k' d)"
  using assms by (simp_all add: map_value_def ci.map_find_ops same_key_ci)

text \<open>The request is well formed when its three maps are.\<close>

definition req_ok :: "HttpRequest \<Rightarrow> bool" where
  "req_ok req \<longleftrightarrow> ci_ok (m_headers req) \<and> ci_ok (m_params req) \<and> ci_ok (m_cookies req)"

lemma param_loop_ok: "ci_ok m \<Longrightarrow> ci_ok (param_loop str flag trim pos m)"
proof (induction str flag trim pos m rule: param_loop.induct)
  case (1 str flag trim pos m)
  show ?case
    using 1 by (subst param_loop.simps) (auto simp: Let_def ci.map_ok_insert split: option.split)
qed

section \<open>Parsing what was encoded\<close>

text \<open>A query string: the pairs with encoded values, joined by the separator.\<close>

fun query_string :: "char \<Rightarrow> (string \<times> string) list \<Rightarrow> string" where
  "query_string flag [] = []"
| "query_string flag [(k, v)] = k @ CHR ''='' # UrlEncode v True"
| "query_string flag ((k, v) # kvs) =
     k @ CHR ''='' # UrlEncode v True @ flag # query_string flag kvs"

lemma index_of_append:
  "index_of c (xs @ ys) =
     (if c \<in> set xs then index_of c xs else map_option (\<lambda>i. length xs + i) (index_of c ys))"
  by (induction xs; cases "index_of c ys") auto

lemma index_of_None: "index_of c s = None \<longleftrightarrow> c \<notin> set s"
  by (induction s) auto

lemma flag_not_encoded:
  assumes "flag = CHR ''&'' \<or> flag = CHR '';''"
  shows "flag \<notin> set (UrlEncode v True)"
proof -
  have "\<not> CHAR_IS_UNRESERVED flag \<and> flag \<noteq> CHR ''%'' \<and> flag \<noteq> CHR ''+''"
    using assms by (auto simp: CHAR_IS_UNRESERVED_def uri_chars_def)
  then show ?thesis using UrlEncode_chars [of v True] by (auto simp: list_all_iff)
qed

lemma param_step:
  assumes "CHR ''='' \<notin> set k" and "flag \<notin> set e" and "flag \<noteq> CHR ''=''"
  shows "param_loop (pre @ k @ CHR ''='' # e) flag trim (length pre) m =
      map_insert CaseInsensitiveLess (trim k) (UrlDecode e True) m"
    and "param_loop (pre @ k @ CHR ''='' # e @ flag # rest) flag trim (length pre) m =
      param_loop ((pre @ k @ CHR ''='' # e @ [flag]) @ rest) flag trim
        (length (pre @ k @ CHR ''='' # e @ [flag]))
        (map_insert CaseInsensitiveLess (trim k) (UrlDecode e True) m)"
proof -
  have key: "str_find (pre @ k @ CHR ''='' # z) (CHR ''='') (length pre) = Some (length pre + length k)" for z
    using assms by (simp add: str_find_def index_of_append)
  have sep: "str_find (pre @ k @ CHR ''='' # z) flag (length pre + length k) =
      map_option (\<lambda>i. length pre + length k + Suc i) (index_of flag z)" for z
    using assms by (simp add: str_find_def option.map_comp comp_def)
  have none: "index_of flag e = None" using assms by (simp add: index_of_None)
  have some: "index_of flag (e @ flag # rest) = Some (length e)"
    using assms by (simp add: index_of_append)
  show "param_loop (pre @ k @ CHR ''='' # e) flag trim (length pre) m =
      map_insert CaseInsensitiveLess (trim k) (UrlDecode e True) m"
    by (subst param_loop.simps) (simp add: key sep none substr_def)
  show "param_loop (pre @ k @ CHR ''='' # e @ flag # rest) flag trim (length pre) m =
      param_loop ((pre @ k @ CHR ''='' # e @ [flag]) @ rest) flag trim
        (length (pre @ k @ CHR ''='' # e @ [flag]))
        (map_insert CaseInsensitiveLess (trim k) (UrlDecode e True) m)"
    by (subst param_loop.simps) (simp add: key sep some substr_def add.assoc)
qed

lemma param_loop_query:
  assumes "flag = CHR ''&'' \<or> flag = CHR '';''" and "\<forall>(k, v) \<in> set kvs. CHR ''='' \<notin> set k"
  shows "param_loop (pre @ query_string flag kvs) flag trim (length pre) m =
    foldl (\<lambda>m (k, v). map_insert CaseInsensitiveLess (trim k) v m) m kvs"
  using assms
proof (induction flag kvs arbitrary: pre m rule: query_string.induct)
  case (1 flag)
  show ?case by (subst param_loop.simps) (simp add: str_find_def)
next
  case (2 flag k v)
  then show ?case using param_step(1) [of k flag "UrlEncode v True"] flag_not_encoded [of flag v]
    by (auto simp: UrlDecode_UrlEncode)
next
  case (3 flag k v kv kvs)
  have "flag \<noteq> CHR ''=''" using "3.prems"(1) by auto
  then have step: "param_loop (pre @ query_string flag ((k, v) # kv # kvs)) flag trim (length pre) m =
      param_loop ((pre @ k @ CHR ''='' # UrlEncode v True @ [flag]) @ query_string flag (kv # kvs)) flag trim
        (length (pre @ k @ CHR ''='' # UrlEncode v True @ [flag]))
        (map_insert CaseInsensitiveLess (trim k) v m)"
    using "3.prems" param_step(2) [of k flag "UrlEncode v True"] flag_not_encoded [of flag v]
    by (simp add: UrlDecode_UrlEncode)
  show ?case unfolding step by (subst "3.IH") (use "3.prems" in auto)
qed

text \<open>Inserting a row of pairs keeps, for every key, the first value.\<close>

definition first_value :: "(string \<times> string) list \<Rightarrow> string \<Rightarrow> string option" where
  "first_value kvs key =
     map_option snd (find (\<lambda>(k, v). strcasecmp k key = 0) kvs)"

lemma find_inserted:
  assumes "ci_ok m"
  shows "map_find CaseInsensitiveLess key (foldl (\<lambda>m (k, v). map_insert CaseInsensitiveLess (trim k) v m) m kvs) =
    (case map_find CaseInsensitiveLess key m of
       Some v \<Rightarrow> Some v
     | None \<Rightarrow> first_value (map (\<lambda>(k, v). (trim k, v)) kvs) key)"
  using assms
proof (induction kvs arbitrary: m)
  case (Cons kv kvs)
  then show ?case
    by (cases kv) (auto simp: first_value_def ci.map_ok_insert ci.map_find_insert same_key_ci
        split: option.splits)
qed (auto simp: first_value_def split: option.split)


lemma PARSE_PARAM_query:
  assumes "flag = CHR ''&'' \<or> flag = CHR '';''" and "\<forall>(k, v) \<in> set kvs. CHR ''='' \<notin> set k"
  shows "PARSE_PARAM (query_string flag kvs) flag trim m =
    foldl (\<lambda>m (k, v). map_insert CaseInsensitiveLess (trim k) v m) m kvs"
  using param_loop_query [OF assms, of "[]"] by (simp add: PARSE_PARAM_def)

lemma first_value_append:
  "first_value (kvs @ kvs') key =
     (case first_value kvs key of Some v \<Rightarrow> Some v | None \<Rightarrow> first_value kvs' key)"
  by (induction kvs) (auto simp: first_value_def)

lemma foldl_insert_ok: "ci_ok m \<Longrightarrow>
  ci_ok (foldl (\<lambda>m (k, v). map_insert CaseInsensitiveLess (trim k) v m) m kvs)"
  by (induction kvs arbitrary: m) (auto simp: ci.map_ok_insert)

text \<open>The requests a program can build: from a new one by the operations that change its maps.\<close>

inductive http_request :: "HttpRequest \<Rightarrow> bool" where
  new: "http_request (new_HttpRequest version cl)"
| setHeader: "http_request req \<Longrightarrow> http_request (req_setHeader k v req)"
| setParam: "http_request req \<Longrightarrow> http_request (req_setParam k v req)"
| setCookie: "http_request req \<Longrightarrow> http_request (req_setCookie k v req)"
| delHeader: "http_request req \<Longrightarrow> http_request (req_delHeader k req)"
| delParam: "http_request req \<Longrightarrow> http_request (req_delParam k req)"
| delCookie: "http_request req \<Longrightarrow> http_request (req_delCookie k req)"
| initQueryParam: "http_request req \<Longrightarrow> http_request (initQueryParam req)"
| initBodyParam: "http_request req \<Longrightarrow> http_request (initBodyParam req)"
| initCookies: "http_request req \<Longrightarrow> http_request (initCookies req)"
| init: "http_request req \<Longrightarrow> http_request (req_init req)"
| fields: "http_request req \<Longrightarrow>
    http_request (req\<lparr>m_method := me, m_version := ver, m_close := cl, m_websocket := ws,
      m_path := p, m_query := q, m_fragment := f, m_body := b\<rparr>)"

lemmas req_ops = req_setHeader_def req_setParam_def req_setCookie_def req_delHeader_def
  req_delParam_def req_delCookie_def req_getHeader_def

lemma http_request_ok: "http_request req \<Longrightarrow> req_ok req"
proof (induction rule: http_request.induct)
  case (init req)
  then show ?case by (simp add: req_ok_def req_init_def Let_def)
qed (auto simp: req_ok_def new_HttpRequest_def req_ops ci.map_ok_ops initQueryParam_def
    initBodyParam_def initCookies_def PARSE_PARAM_def param_loop_ok Let_def)

lemma witness_request: "http_request (req_setHeader ''Host'' ''a'' (new_HttpRequest 0x11 True))"
  by (intro http_request.intros)

text \<open>C24: in every request that can be built the headers are a map with case-insensitive keys:
  what was set is found under every spelling of its key and under no other key, what was deleted is
  gone, and the three maps stay ordered.\<close>

theorem header_map_laws:
  assumes "http_request req"
  shows "req_getHeader (req_setHeader k v req) k' d =
      (if strcasecmp k k' = 0 then v else req_getHeader req k' d) \<and>
    req_getHeader (req_delHeader k req) k' d =
      (if strcasecmp k k' = 0 then d else req_getHeader req k' d) \<and>
    (fst (hasHeader req k' val) \<longleftrightarrow> (\<exists>(key, v) \<in> set (m_headers req). strcasecmp key k' = 0)) \<and>
    sorted_wrt CaseInsensitiveLess (map fst (m_headers req)) \<and>
    sorted_wrt CaseInsensitiveLess (map fst (m_params req)) \<and>
    sorted_wrt CaseInsensitiveLess (map fst (m_cookies req))"
proof -
  have ok: "ci_ok (m_headers req)" using http_request_ok [OF assms] by (simp add: req_ok_def)
  then have "fst (hasHeader req k' val) \<longleftrightarrow> (\<exists>(key, v) \<in> set (m_headers req). strcasecmp key k' = 0)"
    using ci.map_find_mem [OF ok, of k'] by (auto simp: hasHeader_def map_has_def same_key_ci split: option.splits)
  then show ?thesis
    using ok http_request_ok [OF assms]
    by (simp add: req_ops map_value_ops req_ok_def map_ok_def)
qed

theorem header_map_laws_witness:
  "req_getHeader (req_setHeader ''HOST'' ''b'' (req_setHeader ''Host'' ''a'' (new_HttpRequest 0x11 True)))
     ''host'' [] = ''b''"
proof -
  have "strcasecmp ''HOST'' ''host'' = 0" by (simp add: strcasecmp_def c_str_def tolower_def)
  then show ?thesis using header_map_laws [OF witness_request, of "''HOST''" "''b''" "''host''" "[]"] by simp
qed


lemma first_value_Nil [simp]: "first_value [] key = None"
  by (simp add: first_value_def)

lemma query_string_Nil: "query_string flag kvs = [] \<longleftrightarrow> kvs = []"
  by (cases "(flag, kvs)" rule: query_string.cases) auto

lemma form_header:
  "req_getHeader (req_setHeader ''content-type'' ct (new_HttpRequest ver cl)\<lparr>m_query := q, m_body := b\<rparr>)
     ''content-type'' [] = ct"
proof -
  have "ci_ok (m_headers (new_HttpRequest ver cl))" by (simp add: new_HttpRequest_def)
  moreover have "strcasecmp ''content-type'' ''content-type'' = 0" by (simp add: strcasecmp_eq_fold)
  ultimately show ?thesis by (simp add: req_ops map_value_ops)
qed

lemma cookie_header: "req_getHeader (req_setHeader ''cookie'' c (new_HttpRequest ver cl)) ''cookie'' [] = c"
proof -
  have "ci_ok (m_headers (new_HttpRequest ver cl))" by (simp add: new_HttpRequest_def)
  moreover have "strcasecmp ''cookie'' ''cookie'' = 0" by (simp add: strcasecmp_eq_fold)
  ultimately show ?thesis by (simp add: req_ops map_value_ops)
qed

text \<open>C5: parameters and cookies are read back.  For a new request with a query string and a form
  body made of pairs with percent-encoded values, a parameter is the value of the first pair with
  that key, those of the body first, and those of the body only if the content type says form; a
  cookie is the value of the first pair whose trimmed key it is.\<close>

theorem parameters_round_trip:
  assumes "\<forall>(k, v) \<in> set (qs @ bs @ cs). CHR ''='' \<notin> set k"
  shows "snd (getParam (req_setHeader ''content-type'' ct (new_HttpRequest ver cl)
        \<lparr>m_query := query_string (CHR ''&'') qs, m_body := query_string (CHR ''&'') bs\<rparr>) key d) =
      (case first_value
         ((if strcasestr (c_str ct) ''application/x-www-form-urlencoded'' then bs else []) @ qs) key of
         Some v \<Rightarrow> v | None \<Rightarrow> d) \<and>
    snd (getCookie (req_setHeader ''cookie'' (query_string (CHR '';'') cs) (new_HttpRequest ver cl)) key d) =
      (case first_value (map (\<lambda>(k, v). (Trim k blanks, v)) cs) key of Some v \<Rightarrow> v | None \<Rightarrow> d)"
    (is "snd (getParam ?req key d) = _ \<and> snd (getCookie ?creq key d) = _")
proof
  have keys: "\<forall>(k, v) \<in> set qs. CHR ''='' \<notin> set k" "\<forall>(k, v) \<in> set bs. CHR ''='' \<notin> set k"
    "\<forall>(k, v) \<in> set cs. CHR ''='' \<notin> set k" using assms by auto
  have id: "map (\<lambda>(k, v). (k, v)) kvs = kvs" for kvs :: "(string \<times> string) list" by (induction kvs) auto
  note parse = PARSE_PARAM_query [of "CHR ''&''", OF _ keys(1)] PARSE_PARAM_query [of "CHR ''&''", OF _ keys(2)]
    PARSE_PARAM_query [of "CHR '';''", OF _ keys(3)]
  have flags: "m_parserParamFlag (new_HttpRequest ver cl) = 0" "m_params (new_HttpRequest ver cl) = []"
    "m_cookies (new_HttpRequest ver cl) = []" by (simp_all add: new_HttpRequest_def)
  show "snd (getParam ?req key d) = (case first_value
         ((if strcasestr (c_str ct) ''application/x-www-form-urlencoded'' then bs else []) @ qs) key of
         Some v \<Rightarrow> v | None \<Rightarrow> d)"
    using find_inserted [where key = key and trim = "\<lambda>s. s" and kvs = qs]
      find_inserted [OF map_ok_Nil, of key "\<lambda>s. s"] form_header [where ct = ct and ver = ver and cl = cl]
    by (simp add: getParam_def foldl_insert_ok initBodyParam_def initQueryParam_def Let_def parse flags map_value_def
        first_value_append id req_setHeader_def split: option.split)
  show "snd (getCookie ?creq key d) =
      (case first_value (map (\<lambda>(k, v). (Trim k blanks, v)) cs) key of Some v \<Rightarrow> v | None \<Rightarrow> d)"
    using find_inserted [OF map_ok_Nil, of key "\<lambda>s. Trim s blanks" cs] cookie_header [where ver = ver and cl = cl]
    by (cases "cs = []") (simp_all add: getCookie_def initCookies_def Let_def parse flags map_value_def
        req_setHeader_def query_string_Nil split: option.split)
qed

theorem parameters_round_trip_witness:
  "snd (getParam (req_setHeader ''content-type'' ''text/html'' (new_HttpRequest 0x11 True)
      \<lparr>m_query := query_string (CHR ''&'') [(''a'', ''x y''), (''b'', ''&=''), (''A'', ''2'')],
       m_body := []\<rparr>) ''B'' []) = ''&='' \<and>
   snd (getCookie (req_setHeader ''cookie'' (query_string (CHR '';'') [(''a'', ''1''), ('' b'', ''2'')])
      (new_HttpRequest 0x11 True)) ''b'' []) = ''2''"
proof -
  have "\<not> strcasestr (c_str ''text/html'') ''application/x-www-form-urlencoded''"
    by (simp add: c_str_def tolower_def)
  moreover have "first_value [(''a'', ''x y''), (''b'', ''&=''), (''A'', ''2'')] ''B'' = Some ''&=''"
    by (simp add: first_value_def strcasecmp_def c_str_def tolower_def)
  moreover have "first_value (map (\<lambda>(k, v). (Trim k blanks, v)) [(''a'', ''1''), ('' b'', ''2'')]) ''b'' = Some ''2''"
    by (simp add: first_value_def strcasecmp_def c_str_def tolower_def blanks_def Trim_def substr_def)
  ultimately show ?thesis
    using parameters_round_trip [where qs = "[(''a'', ''x y''), (''b'', ''&=''), (''A'', ''2'')]" and bs = "[]"
          and cs = "[]" and ct = "''text/html''" and ver = "0x11" and cl = True and key = "''B''" and d = "[]"]
      parameters_round_trip [where qs = "[]" and bs = "[]" and cs = "[(''a'', ''1''), ('' b'', ''2'')]"
          and ver = "0x11" and cl = True and key = "''b''" and d = "[]"]
    by simp
qed

text \<open>Every method of the table is recognised by the name it is printed with; the entry for
  the UPnP search is printed with spaces, so the method's name on the wire is not recognised.  Every
  other integer is printed as unknown.\<close>

lemma method_names:
  "list_all (\<lambda>(num, nm, description).
      StringToHttpMethod description = num \<and> HttpMethodToString num = description) HTTP_METHOD_MAP \<and>
   StringToHttpMethod ''M-SEARCH'' = INVAILD_METHOD \<and>
   HttpMethodToString 24 = ''M - SEARCH'' \<and>
   (if 0 \<le> m \<and> m \<le> 33 then StringToHttpMethod (HttpMethodToString m) = m
    else HttpMethodToString m = ''<unknown>'')"
proof -
  have tab: "list_all (\<lambda>(num, nm, description).
      StringToHttpMethod description = num \<and> HttpMethodToString num = description) HTTP_METHOD_MAP"
    by code_simp
  have "StringToHttpMethod ''M-SEARCH'' = INVAILD_METHOD" "HttpMethodToString 24 = ''M - SEARCH''"
    by code_simp+
  moreover have nums: "map fst HTTP_METHOD_MAP = [0..33]" by code_simp
  have "StringToHttpMethod (HttpMethodToString m) = m" if "0 \<le> m" "m \<le> 33"
  proof -
    have "m \<in> fst ` set HTTP_METHOD_MAP" using that by (metis list.set_map nums set_upto atLeastAtMost_iff)
    then show ?thesis using tab by (auto simp: list_all_iff)
  qed
  moreover have "HttpMethodToString m = ''<unknown>''" if "\<not> (0 \<le> m \<and> m \<le> 33)"
  proof -
    have "m \<notin> fst ` set HTTP_METHOD_MAP" using that by (metis list.set_map nums set_upto atLeastAtMost_iff)
    then have "find (\<lambda>(num, nm, description). num = m) HTTP_METHOD_MAP = None"
      by (force simp: find_None_iff)
    then show ?thesis by (simp add: HttpMethodToString_def)
  qed
  ultimately show ?thesis using tab by auto
qed

end
