(* ===== verification/Streams.thy ===== *)
theory Streams
  imports Prelude
begin

text \<open>
  Sockets as byte streams: the data transfer of \<^verbatim>\<open>socket.cpp\<close>, \<^verbatim>\<open>socketstream.cpp\<close> and the transfers
  of a fixed size in \<^verbatim>\<open>stream.cpp\<close>.  The kernel and the peer are explicit: \<open>incoming\<close> lists what the
  next calls of \<^verbatim>\<open>recv\<close> can deliver (\<open>None\<close> a failing call, the empty list of chunks the end of the
  stream), \<open>budgets\<close> how many bytes the next calls of \<^verbatim>\<open>send\<close> accept (\<open>None\<close> a failing call;
  everything once the list is used up), and \<open>outgoing\<close> what was sent.  A call takes at most the
  rest of one chunk, so every splitting of the data among calls is some list of chunks.
  A memory area is the list of its bytes; a read overwrites its beginning.
\<close>

section \<open>Sockets\<close>

record Socket =
  m_sock_fd :: int
  m_is_connect :: bool
  incoming :: "byte list option list"
  budgets :: "nat option list"
  outgoing :: "byte list"

definition sys_recv :: "nat \<Rightarrow> Socket \<Rightarrow> int \<times> byte list \<times> Socket" where
  "sys_recv n s =
     (case incoming s of
        [] \<Rightarrow> (0, [], s)
      | None # cs \<Rightarrow> (-1, [], s\<lparr>incoming := cs\<rparr>)
      | Some c # cs \<Rightarrow>
          (int (min n (length c)), take n c,
           s\<lparr>incoming := (if length c \<le> n then cs else Some (drop n c) # cs)\<rparr>))"

definition sys_send :: "byte list \<Rightarrow> Socket \<Rightarrow> int \<times> Socket" where
  "sys_send bs s =
     (case budgets s of
        [] \<Rightarrow> (int (length bs), s\<lparr>outgoing := outgoing s @ bs\<rparr>)
      | None # ks \<Rightarrow> (-1, s\<lparr>budgets := ks\<rparr>)
      | Some k # ks \<Rightarrow>
          (int (min k (length bs)), s\<lparr>budgets := ks, outgoing := outgoing s @ take k bs\<rparr>))"

definition sock_recv :: "nat \<Rightarrow> Socket \<Rightarrow> int \<times> byte list \<times> Socket" where
  "sock_recv n s = (if m_is_connect s then sys_recv n s else (-1, [], s))"

definition sock_send :: "byte list \<Rightarrow> Socket \<Rightarrow> int \<times> Socket" where
  "sock_send bs s = (if m_is_connect s then sys_send bs s else (-1, s))"

text \<open>\<^verbatim>\<open>return -1\<close> in a function that returns \<^verbatim>\<open>bool\<close> is \<^verbatim>\<open>true\<close>.\<close>

definition sock_close :: "Socket \<Rightarrow> bool \<times> Socket" where
  "sock_close s =
     (if \<not> m_is_connect s \<and> m_sock_fd s = -1 then (True, s)
      else
        let s = s\<lparr>m_is_connect := False\<rparr>;
            s = (if m_sock_fd s \<noteq> -1 then s\<lparr>m_sock_fd := -1\<rparr> else s)
        in (True, s))"

definition isVaild :: "Socket \<Rightarrow> bool" where
  "isVaild s \<longleftrightarrow> m_sock_fd s \<noteq> -1"

section \<open>Socket streams\<close>

record SocketStream =
  m_socket :: "Socket option"
  m_owner :: bool

definition ss_isConnected :: "SocketStream \<Rightarrow> bool" where
  "ss_isConnected st = (case m_socket st of Some s \<Rightarrow> m_is_connect s | None \<Rightarrow> False)"

definition ss_read :: "byte list \<Rightarrow> nat \<Rightarrow> SocketStream \<Rightarrow> int \<times> byte list \<times> SocketStream" where
  "ss_read buf n st =
     (if \<not> ss_isConnected st then (-1, buf, st)
      else
        let (rt, bs, s) = sock_recv n (the (m_socket st))
        in (rt, overwrite buf 0 bs, st\<lparr>m_socket := Some s\<rparr>))"

definition ss_write :: "byte list \<Rightarrow> nat \<Rightarrow> SocketStream \<Rightarrow> int \<times> SocketStream" where
  "ss_write buf n st =
     (if \<not> ss_isConnected st then (-1, st)
      else
        let (rt, s) = sock_send (take n buf) (the (m_socket st))
        in (rt, st\<lparr>m_socket := Some s\<rparr>))"

definition ss_close :: "SocketStream \<Rightarrow> SocketStream" where
  "ss_close st = (case m_socket st of Some s \<Rightarrow> st\<lparr>m_socket := Some (snd (sock_close s))\<rparr> | None \<Rightarrow> st)"

definition ss_destroy :: "SocketStream \<Rightarrow> SocketStream" where
  "ss_destroy st =
     (if m_owner st \<and> ss_isConnected st
      then st\<lparr>m_socket := map_option (\<lambda>s. snd (sock_close s)) (m_socket st)\<rparr> else st)"

section \<open>Transfers of a fixed size\<close>

text \<open>The conversion of a \<^verbatim>\<open>size_t\<close> to \<^verbatim>\<open>int\<close>.\<close>

definition to_int :: "nat \<Rightarrow> int" where
  "to_int n = sint (of_nat n :: 32 word)"

function read_fixed_loop ::
    "int \<Rightarrow> nat \<Rightarrow> byte list \<Rightarrow> SocketStream \<Rightarrow> int \<times> byte list \<times> SocketStream" where
  "read_fixed_loop left n buf st =
     (if left > 0 then
        let (rt, buf, st) = ss_read buf (nat left) st in
        if rt \<le> 0 then (rt, buf, st) else read_fixed_loop (left - rt) n buf st
      else (to_int n, buf, st))"
  by pat_completeness auto
termination
  by (relation "measure (\<lambda>(left, n, buf, st). nat left)") auto

definition readFixedSize :: "byte list \<Rightarrow> nat \<Rightarrow> SocketStream \<Rightarrow> int \<times> byte list \<times> SocketStream" where
  "readFixedSize buf n st = read_fixed_loop (to_int n) n buf st"

function write_fixed_loop :: "int \<Rightarrow> nat \<Rightarrow> byte list \<Rightarrow> SocketStream \<Rightarrow> int \<times> SocketStream" where
  "write_fixed_loop left n buf st =
     (if left > 0 then
        let (rt, st) = ss_write buf n st in
        if rt \<le> 0 then (rt, st) else write_fixed_loop (left - rt) n buf st
      else (to_int n, st))"
  by pat_completeness auto
termination
  by (relation "measure (\<lambda>(left, n, buf, st). nat left)") auto

definition writeFixedSize :: "byte list \<Rightarrow> nat \<Rightarrow> SocketStream \<Rightarrow> int \<times> SocketStream" where
  "writeFixedSize buf n st = write_fixed_loop (to_int n) n buf st"

declare read_fixed_loop.simps [simp del] write_fixed_loop.simps [simp del]

section \<open>What arrives\<close>

lemma to_int_small: "n < 2 ^ 31 \<Longrightarrow> to_int n = int n"
  by (simp add: to_int_def signed_of_nat signed_take_bit_int_eq_self_iff)

abbreviation stream_of :: "int \<Rightarrow> byte list option list \<Rightarrow> nat option list \<Rightarrow> byte list \<Rightarrow> bool \<Rightarrow> SocketStream" where
  "stream_of fd ins ks out own \<equiv>
     \<lparr>m_socket = Some \<lparr>m_sock_fd = fd, m_is_connect = True, incoming = ins, budgets = ks, outgoing = out\<rparr>,
      m_owner = own\<rparr>"


text \<open>A read whose data arrive in one piece.\<close>

definition next_chunk :: "byte list \<Rightarrow> byte list option list \<Rightarrow> byte list option list" where
  "next_chunk rest cs = (if rest = [] then cs else Some rest # cs)"

lemma readFixedSize_whole:
  assumes "0 < length bs" and "length bs < 2 ^ 31" and "length bs \<le> length buf"
  shows "readFixedSize buf (length bs) (stream_of fd (Some (bs @ rest) # cs) ks out own) =
    (int (length bs), overwrite buf 0 bs, stream_of fd (next_chunk rest cs) ks out own)"
  using assms
  by (subst readFixedSize_def, subst read_fixed_loop.simps)
    (auto simp: to_int_small ss_read_def ss_isConnected_def sock_recv_def sys_recv_def next_chunk_def
      read_fixed_loop.simps [of 0])

lemma readFixedSize_end:
  assumes "0 < n" and "n < 2 ^ 31"
  shows "readFixedSize buf n (stream_of fd [] ks out own) = (0, buf, stream_of fd [] ks out own)"
  using assms
  by (subst readFixedSize_def, subst read_fixed_loop.simps)
    (auto simp: to_int_small ss_read_def ss_isConnected_def sock_recv_def sys_recv_def)

lemma writeFixedSize_whole:
  assumes "0 < length bs" and "length bs < 2 ^ 31"
  shows "writeFixedSize bs (length bs) (stream_of fd cs [] out own) =
    (int (length bs), stream_of fd cs [] (out @ bs) own)"
  using assms
  by (subst writeFixedSize_def, subst write_fixed_loop.simps)
    (auto simp: to_int_small ss_write_def ss_isConnected_def sock_send_def sys_send_def
      write_fixed_loop.simps [of 0])

lemma write_fixed_done: "left \<le> 0 \<Longrightarrow> write_fixed_loop left n bs st = (to_int n, st)"
  by (simp add: write_fixed_loop.simps)

lemma write_fixed_nat:
  "write_fixed_loop (int left - int k) n bs st = write_fixed_loop (int (left - k)) n bs st"
  by (cases "k \<le> left") (simp_all add: write_fixed_done of_nat_diff)

lemma write_fixed_step:
  assumes "0 < left" and "left \<le> length bs" and "0 < k"
  shows "write_fixed_loop (int left) (length bs) bs (stream_of fd cs (Some k # ks) out own) =
    write_fixed_loop (int (left - k)) (length bs) bs (stream_of fd cs ks (out @ take k bs) own)"
  using assms write_fixed_nat [of left k] write_fixed_nat [of left "length bs"]
  by (subst write_fixed_loop.simps)
    (auto simp: ss_write_def ss_isConnected_def sock_send_def sys_send_def min_def)

lemma read_fixed_step:
  assumes "0 < length c" and "length c \<le> left"
  shows "read_fixed_loop (int left) n buf (stream_of fd (Some c # cs) ks out own) =
    read_fixed_loop (int (left - length c)) n (overwrite buf 0 c) (stream_of fd cs ks out own)"
  using assms
  by (subst read_fixed_loop.simps)
    (auto simp: ss_read_def ss_isConnected_def sock_recv_def sys_recv_def of_nat_diff)

lemma read_fixed_done: "left \<le> 0 \<Longrightarrow> read_fixed_loop left n buf st = (to_int n, buf, st)"
  by (simp add: read_fixed_loop.simps)

text \<open>A transfer of a fixed size is right when one system call does it all.  When a send is
  partial the data are sent again from their beginning, and the peer receives them twice in part;
  when the data arrive in two pieces the second one overwrites the beginning of the first.  Both
  report success.\<close>

lemma fixed_size_transfers:
  assumes "0 < k" and "k < length bs" and "length bs < 2 ^ 31" and "length bs \<le> length buf"
  shows "writeFixedSize bs (length bs) (stream_of fd cs [] out own) =
      (int (length bs), stream_of fd cs [] (out @ bs) own) \<and>
    writeFixedSize bs (length bs) (stream_of fd cs [Some k] out own) =
      (int (length bs), stream_of fd cs [] (out @ take k bs @ bs) own) \<and>
    readFixedSize buf (length bs) (stream_of fd (Some bs # cs) ks out own) =
      (int (length bs), overwrite buf 0 bs, stream_of fd cs ks out own) \<and>
    readFixedSize buf (length bs) (stream_of fd (Some (take k bs) # Some (drop k bs) # cs) ks out own) =
      (int (length bs), overwrite (overwrite buf 0 (take k bs)) 0 (drop k bs), stream_of fd cs ks out own)"
proof (intro conjI)
  have ne: "bs \<noteq> []" using assms by auto
  show "writeFixedSize bs (length bs) (stream_of fd cs [] out own) =
      (int (length bs), stream_of fd cs [] (out @ bs) own)"
    using assms by (intro writeFixedSize_whole) auto
  have "write_fixed_loop (int (length bs - k)) (length bs) bs (stream_of fd cs [] (out @ take k bs) own) =
      (int (length bs), stream_of fd cs [] (out @ take k bs @ bs) own)"
    using assms by (subst write_fixed_loop.simps) (auto simp: ss_write_def ss_isConnected_def
        sock_send_def sys_send_def write_fixed_done to_int_small)
  then show "writeFixedSize bs (length bs) (stream_of fd cs [Some k] out own) =
      (int (length bs), stream_of fd cs [] (out @ take k bs @ bs) own)"
    using assms write_fixed_step [of "length bs" bs k] ne by (simp add: writeFixedSize_def to_int_small)
  show "readFixedSize buf (length bs) (stream_of fd (Some bs # cs) ks out own) =
      (int (length bs), overwrite buf 0 bs, stream_of fd cs ks out own)"
    using assms readFixedSize_whole [of bs buf fd "[]"] ne by (auto simp: next_chunk_def)
  show "readFixedSize buf (length bs) (stream_of fd (Some (take k bs) # Some (drop k bs) # cs) ks out own) =
      (int (length bs), overwrite (overwrite buf 0 (take k bs)) 0 (drop k bs), stream_of fd cs ks out own)"
    using assms read_fixed_step [of "drop k bs" "length bs - k"]
    by (simp add: readFixedSize_def to_int_small read_fixed_step read_fixed_done)
qed

lemma fixed_size_transfers_example:
  "writeFixedSize [1, 2, 3] 3 (stream_of 5 [] [Some 2] [] True) =
     (3, stream_of 5 [] [] [1, 2, 1, 2, 3] True) \<and>
   fst (snd (readFixedSize [0, 0, 0] 3 (stream_of 5 [Some [1, 2], Some [3]] [] [] True))) = [3, 2, 0]"
  using fixed_size_transfers [of 2 "[1, 2, 3]" "[0, 0, 0]" 5 "[]" "[]" True "[]"]
  by (simp add: overwrite_def numeral_3_eq_3 take_Cons')

section \<open>What is still to come\<close>

text \<open>Every successful read of at least one byte uses up some of what the peer sends, and sending
  does not change it: the measure of the loops that serve a connection.\<close>

definition pending :: "SocketStream \<Rightarrow> nat" where
  "pending st =
     (case m_socket st of
        None \<Rightarrow> 0
      | Some s \<Rightarrow> sum_list (map (\<lambda>c. case c of None \<Rightarrow> 1 | Some bs \<Rightarrow> Suc (length bs)) (incoming s)))"

lemma pending_read:
  assumes "ss_read buf n st = (rt, buf', st')"
  shows "pending st' \<le> pending st" and "0 < rt \<Longrightarrow> pending st' < pending st"
  using assms
  by (auto simp: ss_read_def sock_recv_def sys_recv_def pending_def ss_isConnected_def
      split: if_splits option.splits list.splits)

lemma pending_write: "ss_write buf n st = (rt, st') \<Longrightarrow> pending st' = pending st"
  by (auto simp: ss_write_def sock_send_def sys_send_def pending_def ss_isConnected_def
      split: if_splits option.splits list.splits)

lemma pending_read_loop:
  "read_fixed_loop left n buf st = (rt, buf', st') \<Longrightarrow> pending st' \<le> pending st"
proof (induction left n buf st rule: read_fixed_loop.induct)
  case (1 left n buf st)
  obtain r b s where r: "ss_read buf (nat left) st = (r, b, s)" by (cases "ss_read buf (nat left) st")
  have le: "pending s \<le> pending st" using pending_read(1) [OF r] .
  show ?case
  proof (cases "left > 0 \<and> r > 0")
    case True
    then have "read_fixed_loop (left - r) n b s = (rt, buf', st')"
      using "1.prems" r by (simp add: read_fixed_loop.simps [of left])
    then have "pending st' \<le> pending s"
      using "1.IH" [of "(r, b, s)" r "(b, s)" b s] True r by simp
    then show ?thesis using le by simp
  next
    case False
    then show ?thesis using "1.prems" r le by (auto simp: read_fixed_loop.simps [of left] split: if_splits)
  qed
qed

lemma pending_readFixedSize:
  assumes "readFixedSize buf n st = (rt, buf', st')"
  shows "pending st' \<le> pending st" and "0 < rt \<Longrightarrow> 0 < to_int n \<Longrightarrow> pending st' < pending st"
proof -
  show "pending st' \<le> pending st" using assms pending_read_loop by (simp add: readFixedSize_def)
  assume pos: "0 < rt" "0 < to_int n"
  obtain r b s where r: "ss_read buf (nat (to_int n)) st = (r, b, s)"
    by (cases "ss_read buf (nat (to_int n)) st")
  have "0 < r" "read_fixed_loop (to_int n - r) n b s = (rt, buf', st')"
    using assms pos r by (auto simp: readFixedSize_def read_fixed_loop.simps [of "to_int n"] split: if_splits)
  then show "pending st' < pending st"
    using pending_read(2) [OF r] pending_read_loop by fastforce
qed

lemma pending_write_loop:
  "write_fixed_loop left n buf st = (rt, st') \<Longrightarrow> pending st' = pending st"
proof (induction left n buf st rule: write_fixed_loop.induct)
  case (1 left n buf st)
  obtain r s where r: "ss_write buf n st = (r, s)" by (cases "ss_write buf n st")
  have eq: "pending s = pending st" using pending_write [OF r] .
  show ?case
  proof (cases "left > 0 \<and> r > 0")
    case True
    then have "write_fixed_loop (left - r) n buf s = (rt, st')"
      using "1.prems" r by (simp add: write_fixed_loop.simps [of left])
    then show ?thesis using "1.IH" [of "(r, s)" r s] True r eq by simp
  next
    case False
    then show ?thesis using "1.prems" r eq by (auto simp: write_fixed_loop.simps [of left] split: if_splits)
  qed
qed

lemma pending_writeFixedSize: "writeFixedSize buf n st = (rt, st') \<Longrightarrow> pending st' = pending st"
  using pending_write_loop by (simp add: writeFixedSize_def)

lemma pending_close [simp]: "pending (ss_close st) = pending st"
  by (simp add: ss_close_def pending_def sock_close_def Let_def split: option.split)

lemma closed_not_connected [simp]: "\<not> ss_isConnected (ss_close st)"
  by (simp add: ss_close_def ss_isConnected_def sock_close_def Let_def split: option.split)

end
