(* ===== verification/Http_Session.thy ===== *)
theory Http_Session
  imports Http_Message Streams
begin

text \<open>
  Receiving and sending HTTP messages: the callbacks and the parser objects of \<^verbatim>\<open>http_parser.cpp\<close> and
  the session of \<^verbatim>\<open>http_session.cpp\<close>.  The scanner itself is the bundled library
  \<^verbatim>\<open>http_parser.c\<close>, which the code uses through its interface only; it is a parameter, a record of
  the functions that the code calls.  \<^verbatim>\<open>http_parser_execute\<close> is given the handler of its events (the
  settings of callbacks), the input and the user data, and returns the number of bytes it used.
\<close>

section \<open>The interface of the scanner\<close>

text \<open>The fields of the library's parser object that the code reads.\<close>

record http_parser =
  http_major :: nat
  http_minor :: nat
  status_code :: nat
  http_method :: nat
  http_errno :: nat
  upgrade :: bool
  content_length :: nat

datatype parser_type = HTTP_REQUEST | HTTP_RESPONSE

datatype parser_event =
    Message_Begin | Url string | Status string | Header_Field string | Header_Value string
  | Headers_Complete | Body string | Message_Complete | Chunk_Header | Chunk_Complete

text \<open>The parts of a URL that are set, as offset and length.\<close>

record http_parser_url =
  UF_PATH :: "(nat \<times> nat) option"
  UF_QUERY :: "(nat \<times> nat) option"
  UF_FRAGMENT :: "(nat \<times> nat) option"

type_synonym 'd handler = "http_parser \<Rightarrow> parser_event \<Rightarrow> 'd \<Rightarrow> int \<times> 'd"

record ('p, 'd) http_lib =
  lib_init :: "parser_type \<Rightarrow> 'p"
  lib_execute :: "'p \<Rightarrow> 'd handler \<Rightarrow> byte list \<Rightarrow> 'd \<Rightarrow> nat \<times> 'p \<times> 'd"
  lib_fields :: "'p \<Rightarrow> http_parser"
  lib_parse_url :: "string \<Rightarrow> http_parser_url option"

section \<open>Callbacks\<close>

text \<open>What the callbacks of a request parser reach through the user data.\<close>

record RequestData =
  m_data :: HttpRequest
  m_finished :: bool
  m_field :: string

record ResponseData =
  rm_data :: HttpResponse
  rm_finished :: bool
  rm_field :: string

definition on_request_message_begin_cb :: "RequestData \<Rightarrow> int \<times> RequestData" where
  "on_request_message_begin_cb d = (0, d)"

definition on_request_status_cb :: "string \<Rightarrow> RequestData \<Rightarrow> int \<times> RequestData" where
  "on_request_status_cb at d = (0, d)"

definition on_request_chunk_header_cb :: "RequestData \<Rightarrow> int \<times> RequestData" where
  "on_request_chunk_header_cb d = (0, d)"

definition on_request_chunk_complete_cb :: "RequestData \<Rightarrow> int \<times> RequestData" where
  "on_request_chunk_complete_cb d = (0, d)"

definition on_request_url_cb :: "(string \<Rightarrow> http_parser_url option) \<Rightarrow> string \<Rightarrow> RequestData \<Rightarrow> int \<times> RequestData" where
  "on_request_url_cb parse_url buf d =
     (case parse_url buf of
        None \<Rightarrow> (1, d)
      | Some url \<Rightarrow>
          let d = (case UF_PATH url of Some (off, len) \<Rightarrow> d\<lparr>m_data := m_data d\<lparr>m_path := substr buf off len\<rparr>\<rparr> | None \<Rightarrow> d);
              d = (case UF_QUERY url of Some (off, len) \<Rightarrow> d\<lparr>m_data := m_data d\<lparr>m_query := substr buf off len\<rparr>\<rparr> | None \<Rightarrow> d);
              d = (case UF_FRAGMENT url of Some (off, len) \<Rightarrow> d\<lparr>m_data := m_data d\<lparr>m_fragment := substr buf off len\<rparr>\<rparr> | None \<Rightarrow> d)
          in (0, d))"

definition on_request_header_field_cb :: "string \<Rightarrow> RequestData \<Rightarrow> int \<times> RequestData" where
  "on_request_header_field_cb field d = (0, d\<lparr>m_field := field\<rparr>)"

definition on_request_header_value_cb :: "string \<Rightarrow> RequestData \<Rightarrow> int \<times> RequestData" where
  "on_request_header_value_cb val d = (0, d\<lparr>m_data := req_setHeader (m_field d) val (m_data d)\<rparr>)"

text \<open>\<^verbatim>\<open>http_major << 4 | http_minor\<close> is converted to \<^verbatim>\<open>uint8_t\<close>.\<close>

definition version_byte :: "http_parser \<Rightarrow> byte" where
  "version_byte p = push_bit 4 (of_nat (http_major p)) OR of_nat (http_minor p)"

definition on_request_header_complete_cb :: "http_parser \<Rightarrow> RequestData \<Rightarrow> int \<times> RequestData" where
  "on_request_header_complete_cb p d =
     (0, d\<lparr>m_data := m_data d\<lparr>m_version := version_byte p, m_method := int (http_method p)\<rparr>\<rparr>)"

definition on_request_body_cb :: "string \<Rightarrow> RequestData \<Rightarrow> int \<times> RequestData" where
  "on_request_body_cb body d = (0, d\<lparr>m_data := m_data d\<lparr>m_body := m_body (m_data d) @ body\<rparr>\<rparr>)"

definition on_request_message_complete_cb :: "RequestData \<Rightarrow> int \<times> RequestData" where
  "on_request_message_complete_cb d = (0, d\<lparr>m_finished := True\<rparr>)"

definition s_request_settings :: "(string \<Rightarrow> http_parser_url option) \<Rightarrow> RequestData handler" where
  "s_request_settings parse_url p ev d =
     (case ev of
        Message_Begin \<Rightarrow> on_request_message_begin_cb d
      | Url buf \<Rightarrow> on_request_url_cb parse_url buf d
      | Status at \<Rightarrow> on_request_status_cb at d
      | Header_Field at \<Rightarrow> on_request_header_field_cb at d
      | Header_Value at \<Rightarrow> on_request_header_value_cb at d
      | Headers_Complete \<Rightarrow> on_request_header_complete_cb p d
      | Body at \<Rightarrow> on_request_body_cb at d
      | Message_Complete \<Rightarrow> on_request_message_complete_cb d
      | Chunk_Header \<Rightarrow> on_request_chunk_header_cb d
      | Chunk_Complete \<Rightarrow> on_request_chunk_complete_cb d)"

definition on_response_message_begin_cb :: "ResponseData \<Rightarrow> int \<times> ResponseData" where
  "on_response_message_begin_cb d = (0, d)"

definition on_response_url_cb :: "string \<Rightarrow> ResponseData \<Rightarrow> int \<times> ResponseData" where
  "on_response_url_cb buf d = (0, d)"

definition on_response_chunk_header_cb :: "ResponseData \<Rightarrow> int \<times> ResponseData" where
  "on_response_chunk_header_cb d = (0, d)"

definition on_response_chunk_complete_cb :: "ResponseData \<Rightarrow> int \<times> ResponseData" where
  "on_response_chunk_complete_cb d = (0, d)"

definition on_response_status_cb :: "http_parser \<Rightarrow> ResponseData \<Rightarrow> int \<times> ResponseData" where
  "on_response_status_cb p d = (0, d\<lparr>rm_data := rm_data d\<lparr>rsp_status := int (status_code p)\<rparr>\<rparr>)"

definition on_response_header_field_cb :: "string \<Rightarrow> ResponseData \<Rightarrow> int \<times> ResponseData" where
  "on_response_header_field_cb field d = (0, d\<lparr>rm_field := field\<rparr>)"

definition on_response_header_value_cb :: "string \<Rightarrow> ResponseData \<Rightarrow> int \<times> ResponseData" where
  "on_response_header_value_cb val d = (0, d\<lparr>rm_data := rsp_setHeader (rm_field d) val (rm_data d)\<rparr>)"

definition on_response_header_complete_cb :: "http_parser \<Rightarrow> ResponseData \<Rightarrow> int \<times> ResponseData" where
  "on_response_header_complete_cb p d =
     (0, d\<lparr>rm_data := rm_data d\<lparr>rsp_version := version_byte p, rsp_status := int (status_code p)\<rparr>\<rparr>)"

definition on_response_body_cb :: "string \<Rightarrow> ResponseData \<Rightarrow> int \<times> ResponseData" where
  "on_response_body_cb body d = (0, d\<lparr>rm_data := rm_data d\<lparr>rsp_body := rsp_body (rm_data d) @ body\<rparr>\<rparr>)"

text \<open>The callback casts the user data to a request parser, which has the same layout.\<close>

definition on_response_message_complete_cb :: "ResponseData \<Rightarrow> int \<times> ResponseData" where
  "on_response_message_complete_cb d = (0, d\<lparr>rm_finished := True\<rparr>)"

definition s_response_settings :: "ResponseData handler" where
  "s_response_settings p ev d =
     (case ev of
        Message_Begin \<Rightarrow> on_response_message_begin_cb d
      | Url buf \<Rightarrow> on_response_url_cb buf d
      | Status at \<Rightarrow> on_response_status_cb p d
      | Header_Field at \<Rightarrow> on_response_header_field_cb at d
      | Header_Value at \<Rightarrow> on_response_header_value_cb at d
      | Headers_Complete \<Rightarrow> on_response_header_complete_cb p d
      | Body at \<Rightarrow> on_response_body_cb at d
      | Message_Complete \<Rightarrow> on_response_message_complete_cb d
      | Chunk_Header \<Rightarrow> on_response_chunk_header_cb d
      | Chunk_Complete \<Rightarrow> on_response_chunk_complete_cb d)"

section \<open>Parser objects\<close>

record ('p, 'd) HttpParser =
  m_parser :: 'p
  m_userdata :: 'd
  m_error :: int

definition new_HttpRequestParser :: "('p, RequestData) http_lib \<Rightarrow> ('p, RequestData) HttpParser" where
  "new_HttpRequestParser lib =
     \<lparr>m_parser = lib_init lib HTTP_REQUEST,
      m_userdata = \<lparr>m_data = new_HttpRequest 0x11 True, m_finished = False, m_field = []\<rparr>,
      m_error = 0\<rparr>"

definition new_HttpResponseParser :: "('p, ResponseData) http_lib \<Rightarrow> ('p, ResponseData) HttpParser" where
  "new_HttpResponseParser lib =
     \<lparr>m_parser = lib_init lib HTTP_RESPONSE,
      m_userdata = \<lparr>rm_data = new_HttpResponse 0x11 False, rm_finished = False, rm_field = []\<rparr>,
      m_error = 0\<rparr>"

definition getContentLength :: "('p, 'd) http_lib \<Rightarrow> ('p, 'd) HttpParser \<Rightarrow> nat" where
  "getContentLength lib parser = content_length (lib_fields lib (m_parser parser))"

text \<open>What both \<^verbatim>\<open>execute\<close> functions do with the first \<open>len\<close> bytes at \<open>data\<close>: run the scanner, then
  move what it left to the beginning, or clear everything.  After an upgrade or an error the
  data stay where they are.\<close>

definition execute_with ::
    "('p, 'd) http_lib \<Rightarrow> 'd handler \<Rightarrow> byte list \<Rightarrow> nat \<Rightarrow> ('p, 'd) HttpParser \<Rightarrow>
     nat \<times> byte list \<times> ('p, 'd) HttpParser" where
  "execute_with lib settings data len parser =
     (let (n, p, d) = lib_execute lib (m_parser parser) settings (take len data) (m_userdata parser);
          parser = parser\<lparr>m_parser := p, m_userdata := d\<rparr>;
          fields = lib_fields lib p
      in
      if upgrade fields then (n, data, parser)
      else if http_errno fields \<noteq> 0 then (n, data, parser\<lparr>m_error := int (http_errno fields)\<rparr>)
      else if n < len then (n, overwrite data 0 (drop n (take len data)), parser)
      else (n, overwrite data 0 (replicate len 0), parser))"

definition req_execute ::
    "('p, RequestData) http_lib \<Rightarrow> byte list \<Rightarrow> nat \<Rightarrow> ('p, RequestData) HttpParser \<Rightarrow>
     nat \<times> byte list \<times> ('p, RequestData) HttpParser" where
  "req_execute lib data len parser =
     execute_with lib (s_request_settings (lib_parse_url lib)) data len parser"

definition rsp_execute ::
    "('p, ResponseData) http_lib \<Rightarrow> byte list \<Rightarrow> nat \<Rightarrow> ('p, ResponseData) HttpParser \<Rightarrow>
     nat \<times> byte list \<times> ('p, ResponseData) HttpParser" where
  "rsp_execute lib data len parser = execute_with lib s_response_settings data len parser"

section \<open>Sessions\<close>

text \<open>The loop of \<^verbatim>\<open>recvRequest\<close>: \<open>offset\<close> bytes of the buffer are in use.\<close>

function recv_loop ::
    "('p, RequestData) http_lib \<Rightarrow> nat \<Rightarrow> nat \<Rightarrow> byte list \<Rightarrow> ('p, RequestData) HttpParser \<Rightarrow>
     SocketStream \<Rightarrow> HttpRequest option \<times> SocketStream" where
  "recv_loop lib buff_size offset buf parser st =
     (let (len, part, st) = ss_read (drop offset buf) (szsub buff_size offset) st;
          buf = take offset buf @ part
      in
      if len \<le> 0 then (None, ss_close st)
      else
        let len = to_int (nat len + offset);
            (n_parser, buf, parser) = req_execute lib buf (nat len) parser
        in
        if m_error parser \<noteq> 0 then (None, ss_close st)
        else
          let offset = szsub (nat len) n_parser in
          if offset \<ge> buff_size then (None, ss_close st)
          else if m_finished (m_userdata parser) then (Some (req_init (m_data (m_userdata parser))), st)
          else recv_loop lib buff_size offset buf parser st)"
  by pat_completeness auto
termination
  by (relation "measure (\<lambda>(lib, buff_size, offset, buf, parser, st). pending st)")
    (auto dest!: sym [THEN pending_read(2)])

declare recv_loop.simps [simp del]

text \<open>The contents of the fresh buffer are the argument \<open>buf\<close>.\<close>

definition recvRequest ::
    "('p, RequestData) http_lib \<Rightarrow> nat \<Rightarrow> byte list \<Rightarrow> SocketStream \<Rightarrow> HttpRequest option \<times> SocketStream" where
  "recvRequest lib buff_size buf st = recv_loop lib buff_size 0 buf (new_HttpRequestParser lib) st"

definition sendResponse :: "HttpResponse \<Rightarrow> SocketStream \<Rightarrow> int \<times> SocketStream" where
  "sendResponse rsp st =
     (let data = rsp_dump rsp [] in writeFixedSize (str_bytes data) (length data) st)"


section \<open>Outcomes of receiving\<close>

lemma recv_loop_outcome:
  "case recv_loop lib buff_size offset buf parser st of
     (None, st') \<Rightarrow> \<not> ss_isConnected st' \<and> pending st' \<le> pending st
   | (Some req, st') \<Rightarrow> ss_isConnected st' \<and> pending st' < pending st"
proof (induction lib buff_size offset buf parser st rule: recv_loop.induct)
  case (1 lib buff_size offset buf parser st)
  obtain len part st1 where r: "ss_read (drop offset buf) (szsub buff_size offset) st = (len, part, st1)"
    by (cases "ss_read (drop offset buf) (szsub buff_size offset) st")
  define l where "l = nat (to_int (nat len + offset))"
  obtain n buf1 parser1 where e: "req_execute lib (take offset buf @ part) l parser = (n, buf1, parser1)"
    by (cases "req_execute lib (take offset buf @ part) l parser")
  note le = pending_read [OF r]
  have conn: "ss_isConnected st1" if "0 < len"
    using r that by (auto simp: ss_read_def sock_recv_def sys_recv_def ss_isConnected_def
        split: if_splits option.splits list.splits)
  have step: "recv_loop lib buff_size offset buf parser st =
    (if len \<le> 0 \<or> m_error parser1 \<noteq> 0 \<or> szsub l n \<ge> buff_size then (None, ss_close st1)
     else if m_finished (m_userdata parser1) then (Some (req_init (m_data (m_userdata parser1))), st1)
     else recv_loop lib buff_size (szsub l n) buf1 parser1 st1)"
    using r e by (subst recv_loop.simps) (simp add: l_def)
  show ?case
  proof (cases "len \<le> 0 \<or> m_error parser1 \<noteq> 0 \<or> szsub l n \<ge> buff_size \<or> m_finished (m_userdata parser1)")
    case True
    then show ?thesis using le conn by (auto simp: step)
  next
    case False
    then have "case recv_loop lib buff_size (szsub l n) buf1 parser1 st1 of
        (None, st') \<Rightarrow> \<not> ss_isConnected st' \<and> pending st' \<le> pending st1
      | (Some req, st') \<Rightarrow> ss_isConnected st' \<and> pending st' < pending st1"
      using "1.IH" [of _ len _ part st1 "take offset buf @ part"] r e by (simp add: l_def)
    then show ?thesis using False le by (auto simp: step split: prod.splits option.splits)
  qed
qed

text \<open>C35: receiving a request ends for every stream and every scanner.  Without a request the
  connection is closed; with one it is still open and some input was used up.\<close>

theorem recvRequest_outcome:
  "case recvRequest lib buff_size buf st of
     (None, st') \<Rightarrow> \<not> ss_isConnected st' \<and> pending st' \<le> pending st
   | (Some req, st') \<Rightarrow> ss_isConnected st' \<and> pending st' < pending st"
  unfolding recvRequest_def by (rule recv_loop_outcome)

lemma recv_one_chunk:
  assumes "lib_execute lib (lib_init lib HTTP_REQUEST) (s_request_settings (lib_parse_url lib))
      (bs @ rest) (m_userdata (new_HttpRequestParser lib)) = (length bs, p, d)"
    and "\<not> upgrade (lib_fields lib p)" and "http_errno (lib_fields lib p) = 0" and "m_finished d"
    and "bs \<noteq> []" and "length (bs @ rest) \<le> buff_size" and "buff_size < 2 ^ 31" and "length buf = buff_size"
  shows "recvRequest lib buff_size buf (stream_of fd (Some (bs @ rest) # cs) ks out own) =
    (Some (req_init (m_data d)), stream_of fd cs ks out own)"
proof -
  have "take (length (bs @ rest)) (overwrite buf 0 (bs @ rest)) = bs @ rest" by (simp add: overwrite_def)
  moreover have "0 < length bs" using assms(5) by simp
  then have "\<not> length buf \<le> length rest" using assms(6,8) by (simp del: length_greater_0_conv)
  ultimately show ?thesis
    using assms unfolding recvRequest_def
    by (subst recv_loop.simps)
      (auto simp: ss_read_def ss_isConnected_def sock_recv_def sys_recv_def to_int_small req_execute_def
        execute_with_def new_HttpRequestParser_def min_def nat_add_distrib Let_def)
qed

text \<open>When the scanner finishes a request before the end of the data that one \<^verbatim>\<open>recv\<close>
  delivered, the data behind the request are lost with the buffer.\<close>

lemma recvRequest_drops_pipelined:
  assumes "lib_execute lib (lib_init lib HTTP_REQUEST) (s_request_settings (lib_parse_url lib))
      (bs @ rest) (m_userdata (new_HttpRequestParser lib)) = (length bs, p, d)"
    and "\<not> upgrade (lib_fields lib p)" and "http_errno (lib_fields lib p) = 0" and "m_finished d"
    and "bs \<noteq> []" and "length (bs @ rest) \<le> buff_size" and "buff_size < 2 ^ 31" and "length buf = buff_size"
  shows "recvRequest lib buff_size buf (stream_of fd (Some (bs @ rest) # cs) ks out own) =
    (Some (req_init (m_data d)), stream_of fd cs ks out own)"
  using assms by (rule recv_one_chunk)

text \<open>A scanner for the witness: a request is what ends with a newline.\<close>

definition line_lib :: "(unit, RequestData) http_lib" where
  "line_lib =
     \<lparr>lib_init = (\<lambda>_. ()),
      lib_execute = (\<lambda>p h bs d.
        if 10 \<in> set bs then (Suc (length (takeWhile (\<lambda>b. b \<noteq> 10) bs)), (), snd (h
           \<lparr>http_major = 1, http_minor = 1, status_code = 0, http_method = 1, http_errno = 0, upgrade = False, content_length = 0\<rparr>
           Message_Complete d))
        else (length bs, (), d)),
      lib_fields = (\<lambda>p. \<lparr>http_major = 1, http_minor = 1, status_code = 0, http_method = 1, http_errno = 0,
        upgrade = False, content_length = 0\<rparr>),
      lib_parse_url = (\<lambda>s. None)\<rparr>"

lemma recvRequest_drops_pipelined_example:
  "recvRequest line_lib 8 (replicate 8 0) (stream_of 5 [Some ([65, 10] @ [66, 10])] [] [] True) =
     (Some (req_init (new_HttpRequest 0x11 True)), stream_of 5 [] [] [] True)"
  using recvRequest_drops_pipelined [of line_lib "[65, 10]" "[66, 10]" "()"
      "\<lparr>m_data = new_HttpRequest 0x11 True, m_finished = True, m_field = []\<rparr>" 8 "replicate 8 0" 5 "[]" "[]" "[]" True]
  by (simp add: line_lib_def new_HttpRequestParser_def s_request_settings_def on_request_message_complete_cb_def)

text \<open>The callbacks run over a sequence of events while they return zero.\<close>

fun run_events :: "'d handler \<Rightarrow> http_parser \<Rightarrow> parser_event list \<Rightarrow> 'd \<Rightarrow> 'd" where
  "run_events h p [] d = d"
| "run_events h p (ev # evs) d = (let (rt, d) = h p ev d in if rt \<noteq> 0 then d else run_events h p evs d)"

text \<open>The scanner reports a header or a body in pieces when it arrives in pieces.  The pieces
  of a body are joined; of a header's value only the last piece is kept, and of a header's
  name too.\<close>

lemma callbacks_on_pieces:
  assumes "http_request (m_data d)"
  shows "req_getHeader (m_data (run_events (s_request_settings parse_url) p
        [Header_Field k, Header_Value v1, Header_Value v2] d)) k [] = v2 \<and>
    req_getHeader (m_data (run_events (s_request_settings parse_url) p
        [Header_Field k1, Header_Field k2, Header_Value v] d)) k2 [] = v \<and>
    m_body (m_data (run_events (s_request_settings parse_url) p [Body b1, Body b2] d)) =
      m_body (m_data d) @ b1 @ b2"
proof -
  have ok: "ci_ok (m_headers (m_data d))" using http_request_ok [OF assms] by (simp add: req_ok_def)
  have same: "strcasecmp s s = 0" for s by (simp add: strcasecmp_eq_fold)
  show ?thesis
    using ok by (simp add: s_request_settings_def on_request_header_field_cb_def on_request_header_value_cb_def
        on_request_body_cb_def req_ops map_value_ops ci.map_ok_set same)
qed

lemma callbacks_on_pieces_example:
  "req_getHeader (m_data (run_events (s_request_settings (\<lambda>_. None))
      (lib_fields line_lib ()) [Header_Field ''Host'', Header_Value ''exam'', Header_Value ''ple'']
      (m_userdata (new_HttpRequestParser line_lib)))) ''Host'' [] = ''ple''"
  using callbacks_on_pieces [of "m_userdata (new_HttpRequestParser line_lib)"]
  by (simp add: new_HttpRequestParser_def http_request.new)

end
