(* ===== verification/Web_Socket.thy ===== *)
theory Web_Socket
  imports Http_Session Endian
begin

text \<open>
  WebSocket sessions, from \<^verbatim>\<open>ws_session.h\<close> and \<^verbatim>\<open>ws_session.cpp\<close>: the handshake, the frames and the
  messages made of them.  The two bytes of a frame head are laid out as the compiler packs the
  bit-fields on a little-endian machine, which is what the protocol prescribes.  \<^verbatim>\<open>sha1sum\<close> (a call
  of OpenSSL), \<^verbatim>\<open>lexical_cast\<close>, the random masking key, the contents of uninitialised memory
  (\<open>fill n\<close>, \<open>n\<close> bytes) and the configured limit are arguments.  The data of a message are bytes.
\<close>

section \<open>Frames\<close>

record WSFrameHead =
  opcode :: "4 word"
  rsv3 :: bool
  rsv2 :: bool
  rsv1 :: bool
  fin :: bool
  payload :: "7 word"
  mask :: bool

definition kContinue :: "4 word" where "kContinue = 0"
definition kText_Frame :: "4 word" where "kText_Frame = 1"
definition kBin_Frame :: "4 word" where "kBin_Frame = 2"
definition kClose :: "4 word" where "kClose = 8"
definition kPing :: "4 word" where "kPing = 9"
definition kPong :: "4 word" where "kPong = 0xA"

lemmas opcodes = kContinue_def kText_Frame_def kBin_Frame_def kClose_def kPing_def kPong_def

definition head_bytes :: "WSFrameHead \<Rightarrow> byte list" where
  "head_bytes h =
     [ucast (opcode h) OR push_bit 4 (of_bool (rsv3 h)) OR push_bit 5 (of_bool (rsv2 h)) OR
      push_bit 6 (of_bool (rsv1 h)) OR push_bit 7 (of_bool (fin h)),
      ucast (payload h) OR push_bit 7 (of_bool (mask h))]"

definition head_of :: "byte list \<Rightarrow> WSFrameHead" where
  "head_of bs =
     \<lparr>opcode = ucast (bs ! 0), rsv3 = bit (bs ! 0) 4, rsv2 = bit (bs ! 0) 5, rsv1 = bit (bs ! 0) 6,
      fin = bit (bs ! 0) 7, payload = ucast (bs ! 1), mask = bit (bs ! 1) 7\<rparr>"

definition zero_head :: WSFrameHead where
  "zero_head = \<lparr>opcode = 0, rsv3 = False, rsv2 = False, rsv1 = False, fin = False, payload = 0, mask = False\<rparr>"

definition show_bool :: "bool \<Rightarrow> string" where
  "show_bool b = (if b then ''1'' else ''0'')"

definition head_toString :: "WSFrameHead \<Rightarrow> string" where
  "head_toString h =
     ''[WSFrameHead fin='' @ show_bool (fin h) @ '' rsv1='' @ show_bool (rsv1 h) @
     '' rsv2='' @ show_bool (rsv2 h) @ '' rsv3='' @ show_bool (rsv3 h) @
     '' opcode='' @ dec (unat (opcode h)) @ '' mask='' @ show_bool (mask h) @
     '' payload='' @ dec (unat (payload h)) @ '']''"

record WSFrameMessage =
  m_opcode :: int
  ws_data :: "byte list"

section \<open>Sending\<close>

definition WSPing :: "SocketStream \<Rightarrow> int \<times> SocketStream" where
  "WSPing st =
     (let ws_head = zero_head\<lparr>fin := True, opcode := kPing\<rparr>;
          (rt, st) = writeFixedSize (head_bytes ws_head) 2 st
      in if rt \<le> 0 then (rt, ss_close st) else (rt, st))"

definition WSPong :: "SocketStream \<Rightarrow> int \<times> SocketStream" where
  "WSPong st =
     (let ws_head = zero_head\<lparr>fin := True, opcode := kPong\<rparr>;
          (rt, st) = writeFixedSize (head_bytes ws_head) 2 st
      in if rt \<le> 0 then (rt, ss_close st) else (rt, st))"

text \<open>A write that has to succeed: \<open>Inl\<close> is the jump to the end of the \<^verbatim>\<open>do\<close> block.\<close>

definition ws_put :: "byte list \<Rightarrow> SocketStream \<Rightarrow> SocketStream + SocketStream" where
  "ws_put bs st = (let (rt, st) = writeFixedSize bs (length bs) st in if rt \<le> 0 then Inl st else Inr st)"

definition ws_head_for :: "WSFrameMessage \<Rightarrow> bool \<Rightarrow> bool \<Rightarrow> WSFrameHead" where
  "ws_head_for msg client fn =
     (let size = length (ws_data msg) in
      zero_head\<lparr>fin := fn, opcode := of_int (m_opcode msg), mask := client,
        payload := (if size < 126 then of_nat size else if size < 0xff then 126 else 127)\<rparr>)"

definition xor_mask :: "byte list \<Rightarrow> byte list \<Rightarrow> byte list" where
  "xor_mask mk bs = map (\<lambda>(i, b). b XOR mk ! (i mod 4)) (enumerate 0 bs)"

definition ws_put_length :: "EndianType \<Rightarrow> WSFrameHead \<Rightarrow> nat \<Rightarrow> SocketStream \<Rightarrow> SocketStream + SocketStream" where
  "ws_put_length native head sz st =
     (if payload head = 126 then
        ws_put (mem_bytes native (EndianCastOnLittle native (of_nat sz :: u16))) st
      else if payload head = 127 then
        ws_put (mem_bytes native (EndianCastOnLittle native (of_nat sz :: u64))) st
      else Inr st)"

text \<open>The client computes masked data into a local variable, and sends the message's own data.\<close>

definition WSSendMessage ::
    "EndianType \<Rightarrow> u32 \<Rightarrow> WSFrameMessage \<Rightarrow> bool \<Rightarrow> bool \<Rightarrow> SocketStream \<Rightarrow> int \<times> SocketStream" where
  "WSSendMessage native rand_value msg client fn st =
     (let head = ws_head_for msg client fn;
          sz = length (ws_data msg);
          result =
            rbind (ws_put (head_bytes head) st) (\<lambda>st.
            rbind (ws_put_length native head sz st) (\<lambda>st.
            rbind (if client then
                     let mk = mem_bytes native rand_value; data = xor_mask mk (ws_data msg)
                     in ws_put mk st
                   else Inr st) (\<lambda>st.
            ws_put (ws_data msg) st)))
      in case result of Inl st \<Rightarrow> (-1, ss_close st) | Inr st \<Rightarrow> (to_int (sz + 2), st))"

section \<open>Receiving\<close>

text \<open>A read of \<open>n\<close> bytes into \<open>buf\<close> that has to succeed.\<close>

definition ws_get :: "byte list \<Rightarrow> nat \<Rightarrow> SocketStream \<Rightarrow> SocketStream + (byte list \<times> SocketStream)" where
  "ws_get buf n st =
     (let (rt, buf, st) = readFixedSize buf n st in if rt \<le> 0 then Inl st else Inr (buf, st))"

definition ws_length ::
    "EndianType \<Rightarrow> WSFrameHead \<Rightarrow> SocketStream \<Rightarrow> SocketStream + (u64 \<times> SocketStream)" where
  "ws_length native h st =
     (if payload h = 126 then
        rbind (ws_get (mem_bytes native (0 :: u16)) 2 st) (\<lambda>(bs, st).
          Inr (ucast (EndianCastOnLittle native (mem_word native bs :: u16)), st))
      else if payload h = 127 then
        rbind (ws_get (mem_bytes native (0 :: u64)) 8 st) (\<lambda>(bs, st).
          Inr (EndianCastOnLittle native (mem_word native bs :: u64), st))
      else Inr (ucast (payload h), st))"

definition resize :: "byte list \<Rightarrow> nat \<Rightarrow> byte list" where
  "resize bs n = take n bs @ replicate (n - length bs) 0"

text \<open>The payload of a data frame is appended to \<open>data\<close>; \<open>cur_len\<close> is a 32-bit \<^verbatim>\<open>int\<close>.  The loop that
  unmasks runs to the length converted to \<^verbatim>\<open>int\<close>.\<close>

definition ws_data_frame ::
    "(nat \<Rightarrow> byte list) \<Rightarrow> EndianType \<Rightarrow> u32 \<Rightarrow> bool \<Rightarrow> WSFrameHead \<Rightarrow> byte list \<Rightarrow> int \<Rightarrow> SocketStream \<Rightarrow>
     SocketStream + (byte list \<times> int \<times> SocketStream)" where
  "ws_data_frame fill native max_size client h data cur_len st =
     (if \<not> client \<and> \<not> mask h then Inl st
      else
        rbind (ws_length native h st) (\<lambda>(len, st).
        if of_int cur_len + len \<ge> (ucast max_size :: u64) then Inl st
        else
          rbind (if mask h then ws_get (fill 4) 4 st else Inr (fill 4, st)) (\<lambda>(mk, st).
          let data = resize data (unat (of_int cur_len + len)) in
          rbind (ws_get (drop (nat cur_len) data) (unat len) st) (\<lambda>(part, st).
          let n = nat (to_int (unat len));
              part = (if mask h then xor_mask mk (take n part) @ drop n part else part)
          in Inr (take (nat cur_len) data @ part, sint (ucast (of_int cur_len + len :: u64) :: 32 word), st)))))"

lemma pending_ws_get:
  assumes "ws_get buf n st = Inr (bs, st')"
  shows "pending st' \<le> pending st" and "0 < to_int n \<Longrightarrow> pending st' < pending st"
  using assms pending_readFixedSize [of buf n st]
  by (fastforce simp: ws_get_def Let_def split: prod.splits if_splits)+

lemma pending_ws_length: "ws_length native h st = Inr (len, st') \<Longrightarrow> pending st' \<le> pending st"
  by (auto simp: ws_length_def rbind_eq_Inr split: if_splits dest: pending_ws_get(1))

lemma pending_ws_data:
  assumes "ws_data_frame fill native max_size client h data cur_len st = Inr (data', cur', st')"
  shows "pending st' \<le> pending st"
  using assms
  by (auto simp: ws_data_frame_def rbind_eq_Inr Let_def split: if_splits
      dest!: pending_ws_length pending_ws_get(1))

lemma pending_pong: "WSPong st = (rt, st') \<Longrightarrow> pending st' = pending st"
  by (auto simp: WSPong_def Let_def split: prod.splits if_splits dest: pending_writeFixedSize)

lemma to_int_numeral [simp]: "to_int 2 = 2"
  by (simp add: to_int_small)

function ws_recv_loop ::
    "(nat \<Rightarrow> byte list) \<Rightarrow> EndianType \<Rightarrow> u32 \<Rightarrow> bool \<Rightarrow> int \<Rightarrow> byte list \<Rightarrow> int \<Rightarrow> SocketStream \<Rightarrow>
     WSFrameMessage option \<times> SocketStream" where
  "ws_recv_loop fill native max_size client opc data cur_len st =
     (case ws_get (fill 2) 2 st of
        Inl st \<Rightarrow> (None, ss_close st)
      | Inr (hb, st) \<Rightarrow>
          let ws_head = head_of hb in
          if opcode ws_head = kPing then
            (let (rt, st) = WSPong st in
             if rt \<le> 0 then (None, ss_close st)
             else ws_recv_loop fill native max_size client opc data cur_len st)
          else if opcode ws_head = kPong then
            ws_recv_loop fill native max_size client opc data cur_len st
          else if opcode ws_head = kBin_Frame \<or> opcode ws_head = kText_Frame \<or> opcode ws_head = kContinue then
            (case ws_data_frame fill native max_size client ws_head data cur_len st of
               Inl st \<Rightarrow> (None, ss_close st)
             | Inr (data, cur_len, st) \<Rightarrow>
                 let opc = (if opc = 0 \<and> opcode ws_head \<noteq> kContinue then uint (opcode ws_head) else opc) in
                 if fin ws_head then (Some \<lparr>m_opcode = opc, ws_data = data\<rparr>, st)
                 else ws_recv_loop fill native max_size client opc data cur_len st)
          else ws_recv_loop fill native max_size client opc data cur_len st)"
  by pat_completeness auto
termination
proof (relation "measure (\<lambda>(fill, native, max_size, client, opc, data, cur_len, st). pending st)", goal_cases)
  case (2 fill native max_size client opc data cur_len st v hb st1 ws_head v' rt st2)
  then have "pending st1 < pending st" "pending st2 = pending st1"
    using pending_ws_get(2) [of "fill 2" 2 st hb st1] pending_pong [of st1 rt st2] by auto
  then show ?case by simp
next
  case (4 fill native max_size client opc data cur_len st v hb st1 ws_head v' data' v'' cur' st2 opc')
  then have "pending st1 < pending st" "pending st2 \<le> pending st1"
    using pending_ws_get(2) [of "fill 2" 2 st hb st1]
      pending_ws_data [of fill native max_size client ws_head data cur_len st1 data' cur' st2] by auto
  then show ?case by simp
qed (auto dest: pending_ws_get(2))

declare ws_recv_loop.simps [simp del]

definition WSRecvMessage ::
    "(nat \<Rightarrow> byte list) \<Rightarrow> EndianType \<Rightarrow> u32 \<Rightarrow> bool \<Rightarrow> SocketStream \<Rightarrow> WSFrameMessage option \<times> SocketStream" where
  "WSRecvMessage fill native max_size client st = ws_recv_loop fill native max_size client 0 [] 0 st"

section \<open>Sessions\<close>

definition ws_recvMessage ::
    "(nat \<Rightarrow> byte list) \<Rightarrow> EndianType \<Rightarrow> u32 \<Rightarrow> SocketStream \<Rightarrow> WSFrameMessage option \<times> SocketStream" where
  "ws_recvMessage fill native max_size st = WSRecvMessage fill native max_size False st"

definition ws_sendMessage ::
    "EndianType \<Rightarrow> u32 \<Rightarrow> WSFrameMessage \<Rightarrow> bool \<Rightarrow> SocketStream \<Rightarrow> int \<times> SocketStream" where
  "ws_sendMessage native rand_value msg fn st = WSSendMessage native rand_value msg False fn st"

definition ws_sendMessage_str ::
    "EndianType \<Rightarrow> u32 \<Rightarrow> byte list \<Rightarrow> int \<Rightarrow> bool \<Rightarrow> SocketStream \<Rightarrow> int \<times> SocketStream" where
  "ws_sendMessage_str native rand_value msg opc fn st =
     WSSendMessage native rand_value \<lparr>m_opcode = opc, ws_data = msg\<rparr> False fn st"

definition ws_ping :: "SocketStream \<Rightarrow> int \<times> SocketStream" where
  "ws_ping st = WSPing st"

definition ws_pong :: "SocketStream \<Rightarrow> int \<times> SocketStream" where
  "ws_pong st = WSPong st"

definition SWITCHING_PROTOCOLS :: HttpStatus where "SWITCHING_PROTOCOLS = 101"

text \<open>The answer to the key of a handshake.\<close>

definition ws_accept :: "(byte list \<Rightarrow> byte list) \<Rightarrow> string \<Rightarrow> string" where
  "ws_accept sha1sum key = base64encode (sha1sum (str_bytes (key @ ''258EAFA5-E914-47DA-95CA-C5AB0DC85B11'')))"

definition handleShake ::
    "('p, RequestData) http_lib \<Rightarrow> (string \<Rightarrow> int option) \<Rightarrow> (byte list \<Rightarrow> byte list) \<Rightarrow> nat \<Rightarrow> byte list \<Rightarrow>
     SocketStream \<Rightarrow> HttpRequest option \<times> SocketStream" where
  "handleShake lib cast sha1sum buff_size buf st =
     (case recvRequest lib buff_size buf st of
        (None, st) \<Rightarrow> (None, st)
      | (Some req, st) \<Rightarrow>
          if strcasecmp (req_getHeader req ''Upgrade'' []) ''websocket'' \<noteq> 0 then (None, st)
          else if strcasecmp (req_getHeader req ''Connection'' []) ''Upgrade'' \<noteq> 0 then (None, st)
          else if getHeaderAs cast req ''Sec-webSocket-Version'' 0 \<noteq> 13 then (None, st)
          else
            let key = req_getHeader req ''Sec-WebSocket-Key'' [] in
            if key = [] then (None, st)
            else
              let v = ws_accept sha1sum key;
                  req = req\<lparr>m_websocket := True\<rparr>;
                  rsp = createResponse req;
                  rsp = rsp\<lparr>rsp_status := SWITCHING_PROTOCOLS, rsp_websocket := True,
                            rsp_reason := ''Web Socket Protocol Handshake''\<rparr>;
                  rsp = rsp_setHeader ''Upgrade'' ''websocket'' rsp;
                  rsp = rsp_setHeader ''Connection'' ''Upgrade'' rsp;
                  rsp = rsp_setHeader ''Sec-WebSocket-Accept'' v rsp
              in (Some req, snd (sendResponse rsp st)))"


section \<open>The frames of the protocol\<close>

text \<open>The reference: a frame as the protocol defines it.  The length stands in the head, or in two
  or eight bytes behind it in network order; the masking key, if there is one, is applied to
  the data.\<close>

definition net_bytes :: "'a::len word \<Rightarrow> byte list" where
  "net_bytes v = rev (le_bytes (LENGTH('a) div 8) v)"

datatype len_form = Short | Medium | Long

fun len_fits :: "len_form \<Rightarrow> nat \<Rightarrow> bool" where
  "len_fits Short n \<longleftrightarrow> n < 126"
| "len_fits Medium n \<longleftrightarrow> n < 2 ^ 16"
| "len_fits Long n \<longleftrightarrow> n < 2 ^ 64"

fun len_field :: "len_form \<Rightarrow> nat \<Rightarrow> 7 word" where
  "len_field Short n = of_nat n"
| "len_field Medium n = 126"
| "len_field Long n = 127"

fun len_fields :: "len_form \<Rightarrow> nat \<Rightarrow> byte list list" where
  "len_fields Short n = []"
| "len_fields Medium n = [net_bytes (of_nat n :: u16)]"
| "len_fields Long n = [net_bytes (of_nat n :: u64)]"

record fragment =
  key :: "byte list option"
  form :: len_form
  content :: "byte list"

definition frame_head :: "bool \<Rightarrow> 4 word \<Rightarrow> fragment \<Rightarrow> WSFrameHead" where
  "frame_head fn opc f =
     zero_head\<lparr>fin := fn, opcode := opc, mask := (key f \<noteq> None), payload := len_field (form f) (length (content f))\<rparr>"

text \<open>A frame is a sequence of fields: the head, the length, the key, the data.\<close>

definition tail_fields :: "fragment \<Rightarrow> byte list list" where
  "tail_fields f =
     len_fields (form f) (length (content f)) @
     (case key f of None \<Rightarrow> [content f] | Some mk \<Rightarrow> [mk, xor_mask mk (content f)])"

definition frame_ok :: "bool \<Rightarrow> fragment \<Rightarrow> bool" where
  "frame_ok client f \<longleftrightarrow> content f \<noteq> [] \<and> len_fits (form f) (length (content f)) \<and>
     (case key f of None \<Rightarrow> client | Some mk \<Rightarrow> length mk = 4)"

text \<open>A message in fragments: the first has the opcode of the message, only the last is final.\<close>

fun ws_message :: "4 word \<Rightarrow> fragment list \<Rightarrow> byte list list" where
  "ws_message opc [] = []"
| "ws_message opc (f # fs) = head_bytes (frame_head (fs = []) opc f) # tail_fields f @ ws_message kContinue fs"

text \<open>How the fields arrive: the chunks \<open>cs\<close> that the receiver gets begin with the fields, and no field is split
  between two chunks; the result is what is left of the chunks.  A chunk may end behind any field and may hold
  any number of them.\<close>

fun whole_fields :: "byte list list \<Rightarrow> byte list option list \<Rightarrow> byte list option list option" where
  "whole_fields [] cs = Some cs"
| "whole_fields (x # xs) (Some c # cs) =
     (if x \<noteq> [] \<and> take (length x) c = x then whole_fields xs (next_chunk (drop (length x) c) cs) else None)"
| "whole_fields (x # xs) _ = None"

section \<open>Decoding frames\<close>

lemma head_of_head_bytes [simp]: "head_of (head_bytes h) = h"
proof -
  have "ucast (ucast (opcode h) OR push_bit 4 (of_bool a) OR push_bit 5 (of_bool b) OR push_bit 6 (of_bool c) OR
      push_bit 7 (of_bool d) :: byte) = opcode h" for a b c d
    by (rule bit_word_eqI) (auto simp: bit_simps)
  moreover have "ucast (ucast (payload h) OR push_bit 7 (of_bool a) :: byte) = payload h" for a
    by (rule bit_word_eqI) (auto simp: bit_simps)
  moreover have "bit (opcode h) n = False" if "4 \<le> n" for n
    using that by (auto dest: bit_imp_le_length)
  moreover have "bit (payload h) 7 = False" by (auto dest: bit_imp_le_length)
  ultimately show ?thesis
    by (simp add: head_of_def head_bytes_def bit_simps)
qed

lemma length_head_bytes [simp]: "length (head_bytes h) = 2" "head_bytes h \<noteq> []"
  by (simp_all add: head_bytes_def)

lemma length_xor_mask [simp]: "length (xor_mask mk bs) = length bs"
  by (simp add: xor_mask_def)

lemma xor_mask_nth: "i < length bs \<Longrightarrow> xor_mask mk bs ! i = bs ! i XOR mk ! (i mod 4)"
  by (simp add: xor_mask_def nth_enumerate_eq)

lemma xor_mask_inverse [simp]: "xor_mask mk (xor_mask mk bs) = bs"
  by (rule nth_equalityI) (simp_all add: xor_mask_nth xor.assoc)

lemma length_net_bytes [simp]: "length (net_bytes (v :: 'a::len word)) = LENGTH('a) div 8"
  by (simp add: net_bytes_def)

lemma net_bytes_nonempty [simp]: "net_bytes (v :: u16) \<noteq> []" "net_bytes (w :: u64) \<noteq> []"
  by (simp_all flip: length_greater_0_conv)

lemma frame_head_sel [simp]:
  "mask (frame_head fn opc f) \<longleftrightarrow> key f \<noteq> None" "fin (frame_head fn opc f) = fn"
  "opcode (frame_head fn opc f) = opc"
  "payload (frame_head fn opc f) = len_field (form f) (length (content f))"
  by (simp_all add: frame_head_def)

lemma net_bytes_back:
  assumes "int_width TYPE('a::len word)"
  shows "EndianCastOnLittle native (mem_word native (net_bytes (v :: 'a word))) = v"
proof -
  have "net_bytes v = mem_bytes native (EndianCastOnLittle native v)"
    using assms by (simp add: net_bytes_def mem_bytes_EndianCastOnLittle)
  then show ?thesis using assms by simp
qed

lemma next_chunk_append: "bs \<noteq> [] \<Longrightarrow> next_chunk (bs @ rest) cs = Some (bs @ rest) # cs"
  by (simp add: next_chunk_def)

lemma whole_fields_Cons:
  assumes "whole_fields (x # xs) cs = Some cs'"
  obtains rest cs0 where "cs = Some (x @ rest) # cs0" and "x \<noteq> []"
    and "whole_fields xs (next_chunk rest cs0) = Some cs'"
proof -
  obtain c cs0 where c: "cs = Some c # cs0" "x \<noteq> []" "take (length x) c = x"
      "whole_fields xs (next_chunk (drop (length x) c) cs0) = Some cs'"
    using assms by (cases "(x # xs, cs)" rule: whole_fields.cases) (auto split: if_splits)
  moreover have "c = x @ drop (length x) c" using c(3) by (metis append_take_drop_id)
  ultimately show thesis using that by metis
qed

text \<open>Fields that arrive in one chunk.\<close>

lemma whole_fields_one:
  assumes "[] \<notin> set xs"
  shows "whole_fields xs (next_chunk (concat xs @ rest) cs) = Some (next_chunk rest cs)"
  using assms by (induction xs) (auto simp: next_chunk_append)

lemma ws_get_field:
  assumes "whole_fields (x # xs) cs = Some cs'" and "length x < 2 ^ 31" and "length buf = length x"
  shows "\<exists>cs1. ws_get buf (length x) (stream_of fd cs ks out own) = Inr (x, stream_of fd cs1 ks out own) \<and>
    whole_fields xs cs1 = Some cs'"
proof -
  obtain rest cs0 where "cs = Some (x @ rest) # cs0" "x \<noteq> []" "whole_fields xs (next_chunk rest cs0) = Some cs'"
    using whole_fields_Cons [OF assms(1)] .
  then show ?thesis
    using assms(2,3) readFixedSize_whole [of x buf fd rest cs0 ks out own] by (simp add: ws_get_def overwrite_def)
qed

lemma ws_length_frame:
  assumes "len_fits (form f) (length (content f))"
    and "whole_fields (len_fields (form f) (length (content f)) @ xs) cs = Some cs'"
  shows "\<exists>cs1. ws_length native (frame_head fn opc f) (stream_of fd cs ks out own) =
      Inr (of_nat (length (content f)), stream_of fd cs1 ks out own) \<and> whole_fields xs cs1 = Some cs'"
proof (cases "form f")
  case Short
  then have n: "length (content f) < 126" using assms by simp
  then have "unat (of_nat (length (content f)) :: 7 word) = length (content f)"
    by (simp add: unat_of_nat take_bit_nat_eq_self)
  moreover have "w \<noteq> 126 \<and> w \<noteq> 127" if "unat w < 126" for w :: "7 word" using that by auto
  then have "(of_nat (length (content f)) :: 7 word) \<noteq> 126 \<and> (of_nat (length (content f)) :: 7 word) \<noteq> 127"
    using calculation n by simp
  moreover have "(ucast (of_nat (length (content f)) :: 7 word) :: u64) = of_nat (length (content f))"
    using n by (simp add: unsigned_of_nat take_bit_nat_eq_self)
  ultimately show ?thesis using Short assms(2) by (simp add: ws_length_def)
next
  case Medium
  then have n: "length (content f) < 2 ^ 16" using assms by simp
  have "(ucast (of_nat (length (content f)) :: u16) :: u64) = of_nat (length (content f))"
    using n by (simp add: unsigned_of_nat take_bit_nat_eq_self)
  then show ?thesis
    using Medium assms(2) ws_get_field [of "net_bytes (of_nat (length (content f)) :: u16)" xs cs cs'
        "mem_bytes native (0 :: u16)" fd ks out own]
    by (auto simp: ws_length_def net_bytes_back)
next
  case Long
  then show ?thesis
    using assms(2) ws_get_field [of "net_bytes (of_nat (length (content f)) :: u64)" xs cs cs'
        "mem_bytes native (0 :: u64)" fd ks out own]
    by (auto simp: ws_length_def net_bytes_back)
qed


lemma u64_sum:
  assumes "a + b < 2 ^ 32"
  shows "unat (of_int (int a) + of_nat b :: u64) = a + b"
    and "(of_int (int a) + of_nat b :: u64) \<ge> ucast (m :: u32) \<longleftrightarrow> unat m \<le> a + b"
proof -
  have eq: "(of_int (int a) + of_nat b :: u64) = of_nat (a + b)" by simp
  show u: "unat (of_int (int a) + of_nat b :: u64) = a + b"
    unfolding eq using assms by (simp add: unat_of_nat take_bit_nat_eq_self del: of_nat_add)
  have "unat (ucast m :: u64) = unat m" 
    using unat_bound [of m] by (simp add: unsigned_ucast_eq take_bit_nat_eq_self)
  then show "(of_int (int a) + of_nat b :: u64) \<ge> ucast (m :: u32) \<longleftrightarrow> unat m \<le> a + b"
    using u by (simp add: word_le_nat_alt)
qed

lemma int_sum:
  assumes "a + b < 2 ^ 31"
  shows "sint (ucast (of_int (int a) + of_nat b :: u64) :: 32 word) = int (a + b)"
proof -
  have "(of_int (int a) + of_nat b :: u64) = of_nat (a + b)" by simp
  moreover have "(ucast (of_nat (a + b) :: u64) :: 32 word) = of_nat (a + b)"
    using assms by (simp add: unsigned_of_nat take_bit_nat_eq_self del: of_nat_add)
  ultimately have "(ucast (of_int (int a) + of_nat b :: u64) :: 32 word) = of_nat (a + b)" by simp
  then show ?thesis using to_int_small [OF assms] by (simp add: to_int_def del: of_nat_add)
qed

lemma ws_data_frame_appends:
  assumes "frame_ok client f" and "\<forall>n. length (fill n) = n"
    and "length data + length (content f) < unat max_size" and "unat max_size \<le> 2 ^ 31"
    and "whole_fields (tail_fields f @ xs) cs = Some cs'"
  shows "\<exists>cs1. ws_data_frame fill native max_size client (frame_head fn opc f) data (int (length data))
      (stream_of fd cs ks out own) =
    Inr (data @ content f, int (length data + length (content f)), stream_of fd cs1 ks out own) \<and>
    whole_fields xs cs1 = Some cs'"
proof -
  have len: "len_fits (form f) (length (content f))" using assms(1) by (simp add: frame_ok_def)
  have small: "length data + length (content f) < 2 ^ 31" using assms(3,4) by simp
  note sums = u64_sum [of "length data" "length (content f)"] int_sum [OF small]
  have u: "unat (of_nat (length (content f)) :: u64) = length (content f)"
    using small by (simp add: unat_of_nat take_bit_nat_eq_self)
  let ?fs = "(case key f of None \<Rightarrow> [content f] | Some mk \<Rightarrow> [mk, xor_mask mk (content f)]) @ xs"
  let ?buf = "drop (length data) (resize data (length data + length (content f)))"
  have buf: "length ?buf = length (content f)" by (simp add: resize_def)
  obtain cs1 where l: "ws_length native (frame_head fn opc f) (stream_of fd cs ks out own) =
      Inr (of_nat (length (content f)), stream_of fd cs1 ks out own)" "whole_fields ?fs cs1 = Some cs'"
    using ws_length_frame [OF len, of ?fs cs cs' native fn opc fd ks out own] assms(5) by (auto simp: tail_fields_def)
  show ?thesis
  proof (cases "key f")
    case None
    then have "client" using assms(1) by (simp add: frame_ok_def)
    then show ?thesis
      using None l small sums u assms(3) buf ws_get_field [of "content f" xs cs1 cs' ?buf fd ks out own]
      by (auto simp: ws_data_frame_def resize_def)
  next
    case (Some mk)
    then have mk: "length mk = 4" using assms(1) by (auto simp: frame_ok_def)
    then obtain cs2 where k: "ws_get (fill 4) 4 (stream_of fd cs1 ks out own) = Inr (mk, stream_of fd cs2 ks out own)"
        "whole_fields (xor_mask mk (content f) # xs) cs2 = Some cs'"
      using ws_get_field [of mk _ cs1 cs' "fill 4" fd ks out own] l(2) Some assms(2) by auto
    have all: "nat (to_int (length (content f))) = length (content f)" using small by (simp add: to_int_small)
    obtain cs3 where d: "ws_get ?buf (length (content f)) (stream_of fd cs2 ks out own) =
        Inr (xor_mask mk (content f), stream_of fd cs3 ks out own)" "whole_fields xs cs3 = Some cs'"
      using ws_get_field [OF k(2), of ?buf fd ks out own] buf small by auto
    show ?thesis
      using Some l(1) k(1) d small sums u all assms(3)
      by (auto simp: ws_data_frame_def resize_def Let_def)
  qed
qed

lemma ws_recv_loop_message:
  assumes "fs \<noteq> []" and "\<forall>f \<in> set fs. frame_ok client f" and "\<forall>n. length (fill n) = n"
    and "length data + length (concat (map content fs)) < unat max_size" and "unat max_size \<le> 2 ^ 31"
    and "fo = kText_Frame \<or> fo = kBin_Frame \<or> fo = kContinue"
    and "whole_fields (ws_message fo fs) cs = Some cs'"
  shows "ws_recv_loop fill native max_size client opc data (int (length data)) (stream_of fd cs ks out own) =
    (Some \<lparr>m_opcode = (if opc = 0 \<and> fo \<noteq> kContinue then uint fo else opc),
           ws_data = data @ concat (map content fs)\<rparr>,
     stream_of fd cs' ks out own)"
  using assms
proof (induction fs arbitrary: data opc fo cs)
  case (Cons f fs)
  have ok: "frame_ok client f" using Cons.prems(2) by simp
  have lens: "length data + length (content f) < unat max_size" using Cons.prems(4) by simp
  have "length (fill 2) = 2" using Cons.prems(3) by (rule spec)
  then obtain cs1 where head: "ws_get (fill 2) 2 (stream_of fd cs ks out own) =
      Inr (head_bytes (frame_head (fs = []) fo f), stream_of fd cs1 ks out own)"
      "whole_fields (tail_fields f @ ws_message kContinue fs) cs1 = Some cs'"
    using ws_get_field [of "head_bytes (frame_head (fs = []) fo f)" "tail_fields f @ ws_message kContinue fs" cs cs'
        "fill 2" fd ks out own] Cons.prems(7) by auto
  have data: "fo \<noteq> kPing" "fo \<noteq> kPong" "fo = kBin_Frame \<or> fo = kText_Frame \<or> fo = kContinue"
    using Cons.prems(6) by (auto simp: opcodes)
  obtain cs2 where frame: "ws_data_frame fill native max_size client (frame_head (fs = []) fo f) data
      (int (length data)) (stream_of fd cs1 ks out own) =
      Inr (data @ content f, int (length data + length (content f)), stream_of fd cs2 ks out own)"
      "whole_fields (ws_message kContinue fs) cs2 = Some cs'"
    using ws_data_frame_appends [OF ok Cons.prems(3) lens Cons.prems(5) head(2)] by blast
  have step: "ws_recv_loop fill native max_size client opc data (int (length data)) (stream_of fd cs ks out own) =
    (let opc = (if opc = 0 \<and> fo \<noteq> kContinue then uint fo else opc) in
     if fs = [] then (Some \<lparr>m_opcode = opc, ws_data = data @ content f\<rparr>, stream_of fd cs2 ks out own)
     else ws_recv_loop fill native max_size client opc (data @ content f) (int (length (data @ content f)))
       (stream_of fd cs2 ks out own))"
    by (subst ws_recv_loop.simps, subst head) (use frame data in \<open>simp add: Let_def\<close>)
  show ?case
  proof (cases "fs = []")
    case True
    then show ?thesis unfolding step using frame(2) by (simp add: Let_def)
  next
    case False
    have "ws_recv_loop fill native max_size client (if opc = 0 \<and> fo \<noteq> kContinue then uint fo else opc)
        (data @ content f) (int (length (data @ content f))) (stream_of fd cs2 ks out own) =
      (Some \<lparr>m_opcode = (if opc = 0 \<and> fo \<noteq> kContinue then uint fo else opc),
             ws_data = (data @ content f) @ concat (map content fs)\<rparr>,
       stream_of fd cs' ks out own)"
      by (subst Cons.IH [where fo = kContinue]) (use False Cons.prems frame(2) in auto)
    then show ?thesis unfolding step using False by simp
  qed
qed simp

lemma ws_received:
  assumes "fs \<noteq> []" and "\<forall>f \<in> set fs. frame_ok client f" and "\<forall>n. length (fill n) = n"
    and "length (concat (map content fs)) < unat max_size" and "unat max_size \<le> 2 ^ 31"
    and "fo = kText_Frame \<or> fo = kBin_Frame" and "whole_fields (ws_message fo fs) cs = Some cs'"
  shows "WSRecvMessage fill native max_size client (stream_of fd cs ks out own) =
    (Some \<lparr>m_opcode = uint fo, ws_data = concat (map content fs)\<rparr>, stream_of fd cs' ks out own)"
  using ws_recv_loop_message [OF assms(1-3) _ assms(5) _ assms(7), of "[]" native 0 fd ks out own] assms(4,6)
  by (auto simp: WSRecvMessage_def opcodes)

text \<open>C3: a text or binary message is reassembled from its fragments, if none of them is empty, their total
  length is below the limit (at most \<open>2 ^ 31\<close>), no control frame stands between them and no field of a frame
  (head, length, key, data) is split between two chunks of input; the chunks may end behind any field.  Whatever the
  number of fragments, the forms of their lengths and the masking keys, what is received is the
  concatenation of their contents with the opcode of the first; the input behind the message is left.  A server
  refuses unmasked fragments, so all have a key there.\<close>

theorem ws_message_reassembled:
  assumes "fs \<noteq> []" and "\<forall>f \<in> set fs. frame_ok client f" and "\<forall>n. length (fill n) = n"
    and "length (concat (map content fs)) < unat max_size" and "unat max_size \<le> 2 ^ 31"
    and "fo = kText_Frame \<or> fo = kBin_Frame" and "whole_fields (ws_message fo fs) cs = Some cs'"
  shows "WSRecvMessage fill native max_size client (stream_of fd cs ks out own) =
    (Some \<lparr>m_opcode = uint fo, ws_data = concat (map content fs)\<rparr>, stream_of fd cs' ks out own)"
  using assms by (rule ws_received)

theorem ws_message_reassembled_witness:
  "WSRecvMessage (\<lambda>n. replicate n 0) XZMJX_Little_Endian 1024 False
      (stream_of 5 [Some [1, 0x82, 1, 2, 3, 4], Some [73, 107, 0x80, 0xFE], Some [0, 1, 9, 9, 9, 9, 40, 7]] [] [] True) =
   (Some \<lparr>m_opcode = 1, ws_data = [72, 105, 33]\<rparr>, stream_of 5 [Some [7]] [] [] True)"
proof -
  let ?fs = "[\<lparr>key = Some [1, 2, 3, 4], form = Short, content = [72, 105]\<rparr>,
          \<lparr>key = Some [9, 9, 9, 9], form = Medium, content = [33 :: byte]\<rparr>]"
  have "\<forall>f \<in> set ?fs. frame_ok False f" by (simp add: frame_ok_def)
  moreover have "whole_fields (ws_message kText_Frame ?fs)
      [Some [1, 0x82, 1, 2, 3, 4], Some [73, 107, 0x80, 0xFE], Some [0, 1, 9, 9, 9, 9, 40, 7]] = Some [Some [7]]"
    by code_simp
  ultimately show ?thesis
    using ws_message_reassembled [of ?fs False "\<lambda>n. replicate n 0" 1024 kText_Frame _ _ XZMJX_Little_Endian 5 "[]" "[]" True]
    by (simp add: kText_Frame_def del: ws_message.simps)
qed


section \<open>Encoding messages\<close>

lemma ws_put_whole:
  "bs \<noteq> [] \<Longrightarrow> length bs < 2 ^ 31 \<Longrightarrow>
   ws_put bs (stream_of fd cs [] out own) = Inr (stream_of fd cs [] (out @ bs) own)"
  by (simp add: ws_put_def writeFixedSize_whole)

lemma ws_put_empty: "ws_put [] st = Inl st"
  by (simp add: ws_put_def writeFixedSize_def to_int_def write_fixed_done)

text \<open>The length form the code chooses, and the fragment that it sends: a client announces the
  masking key and sends the data as they are, which is the frame of the data masked with that
  key.\<close>

definition send_form :: "nat \<Rightarrow> len_form" where
  "send_form n = (if n < 126 then Short else if n < 0xff then Medium else Long)"

definition sent_fragment :: "EndianType \<Rightarrow> u32 \<Rightarrow> bool \<Rightarrow> byte list \<Rightarrow> fragment" where
  "sent_fragment native r client d =
     \<lparr>key = (if client then Some (mem_bytes native r) else None), form = send_form (length d),
      content = (if client then xor_mask (mem_bytes native r) d else d)\<rparr>"

lemma ws_head_for_frame:
  "ws_head_for \<lparr>m_opcode = opc, ws_data = d\<rparr> client fn = frame_head fn (of_int opc) (sent_fragment native r client d)"
  by (simp add: ws_head_for_def frame_head_def sent_fragment_def send_form_def Let_def)

lemma sent_payload:
  "payload (frame_head fn opc (sent_fragment native r client d)) =
    (if length d < 126 then of_nat (length d) else if length d < 255 then 126 else 127)"
  by (simp add: sent_fragment_def send_form_def)

lemma short_payload:
  assumes "n < 126"
  shows "(of_nat n :: 7 word) \<noteq> 126" and "(of_nat n :: 7 word) \<noteq> 127"
proof -
  have "w \<noteq> 126 \<and> w \<noteq> 127" if "unat w < 126" for w :: "7 word" using that by auto
  moreover have "unat (of_nat n :: 7 word) = n" using assms by (simp add: unat_of_nat take_bit_nat_eq_self)
  ultimately show "(of_nat n :: 7 word) \<noteq> 126" "(of_nat n :: 7 word) \<noteq> 127" using assms by simp_all
qed

lemma mem_bytes_net: "int_width TYPE('a::len word) \<Longrightarrow>
  mem_bytes native (EndianCastOnLittle native v) = net_bytes (v :: 'a word)"
  by (simp add: mem_bytes_EndianCastOnLittle net_bytes_def)

lemma WSSendMessage_whole:
  assumes "d \<noteq> []" and "length d + 2 < 2 ^ 31"
  shows "WSSendMessage native r \<lparr>m_opcode = opc, ws_data = d\<rparr> client fn (stream_of fd cs [] out own) =
    (int (length d) + 2,
     stream_of fd cs [] (out @ head_bytes (frame_head fn (of_int opc) (sent_fragment native r client d)) @
       concat (tail_fields (sent_fragment native r client d))) own)"
proof -
  let ?f = "sent_fragment native r client d"
  have len: "ws_put_length native (frame_head fn (of_int opc) ?f) (length d) (stream_of fd cs [] out' own) =
    Inr (stream_of fd cs [] (out' @ concat (len_fields (form ?f) (length (content ?f)))) own)" for out'
    using short_payload [of "length d"] ws_put_whole [of "net_bytes (of_nat (length d) :: u16)"]
      ws_put_whole [of "net_bytes (of_nat (length d) :: u64)"]
    by (simp add: ws_put_length_def sent_payload mem_bytes_net del: frame_head_sel)
      (simp add: sent_fragment_def send_form_def)
  have keyed: "ws_put (mem_bytes native r) (stream_of fd cs [] out' own) =
      Inr (stream_of fd cs [] (out' @ mem_bytes native r) own)" for out'
    by (rule ws_put_whole) (simp_all flip: length_greater_0_conv)
  have head: "ws_put (head_bytes h) (stream_of fd cs [] out' own) =
      Inr (stream_of fd cs [] (out' @ head_bytes h) own)" for h out'
    by (rule ws_put_whole) simp_all
  show ?thesis
    using assms ws_put_whole [of d]
    unfolding WSSendMessage_def ws_head_for_frame [of opc d client fn native r] Let_def
    by (simp add: head len keyed to_int_small del: frame_head_sel) (simp add: tail_fields_def sent_fragment_def)
qed



end
