(* ===== verification/Http_Server.thy ===== *)
theory Http_Server
  imports Web_Socket
begin

text \<open>
  Serving connections: servlets and their dispatch (\<^verbatim>\<open>servlet.cpp\<close>, \<^verbatim>\<open>ws_servlet.cpp\<close>) and what the
  HTTP server (\<^verbatim>\<open>http_server.cpp\<close>) and the WebSocket server (\<^verbatim>\<open>ws_server.cpp\<close>) do with a client.
  A callback of the application is a function of the request, the response and the session;
  a pointer to a servlet is \<open>None\<close> when it is null.  \<^verbatim>\<open>fnmatch\<close> is a parameter that says whether a
  pattern matches.  The serving loops may run for ever when a callback feeds the session, so they are
  partial functions with \<open>None\<close> for not returning.
\<close>

section \<open>Servlets\<close>

type_synonym http_callback =
  "HttpRequest \<Rightarrow> HttpResponse \<Rightarrow> SocketStream \<Rightarrow> int \<times> HttpRequest \<times> HttpResponse \<times> SocketStream"
type_synonym ws_callback = "HttpRequest \<Rightarrow> WSFrameMessage \<Rightarrow> SocketStream \<Rightarrow> int \<times> HttpRequest \<times> SocketStream"
type_synonym ws_hook = "HttpRequest \<Rightarrow> SocketStream \<Rightarrow> int \<times> HttpRequest \<times> SocketStream"

datatype Servlet =
    FunctionServlet "http_callback option"
  | NotFoundServlet string string
  | FunctionWSServlet "ws_callback option" "ws_hook option" "ws_hook option"

definition new_NotFoundServlet :: "string \<Rightarrow> Servlet" where
  "new_NotFoundServlet nm =
     NotFoundServlet nm
       (''<html><head><title>404 Not Found</title></head><body><center><h1>404 Not Found</h1></center><hr><center>'' @
        nm @ ''</center></body></html>'')"

fun servlet_name :: "Servlet \<Rightarrow> string" where
  "servlet_name (FunctionServlet cb) = ''FunctionServlet''"
| "servlet_name (NotFoundServlet nm page) = ''NotFoundServlet''"
| "servlet_name (FunctionWSServlet cb con cls) = ''FunctionWSServlet''"

definition NotFoundServlet_handle :: "string \<Rightarrow> HttpResponse \<Rightarrow> HttpResponse" where
  "NotFoundServlet_handle page rsp =
     (let rsp = rsp\<lparr>rsp_status := NOT_FOUND\<rparr>;
          rsp = rsp_setHeader ''Server'' ''xzmjx/1.0.0'' rsp;
          rsp = rsp_setHeader ''Content-Type'' ''text/html'' rsp
      in rsp\<lparr>rsp_body := page\<rparr>)"

fun servlet_handle :: "Servlet \<Rightarrow> http_callback" where
  "servlet_handle (FunctionServlet cb) req rsp st =
     (case cb of Some f \<Rightarrow> f req rsp st | None \<Rightarrow> (-1, req, rsp, st))"
| "servlet_handle (NotFoundServlet nm page) req rsp st = (0, req, NotFoundServlet_handle page rsp, st)"
| "servlet_handle (FunctionWSServlet cb con cls) req rsp st = (0, req, rsp, st)"

definition run_hook :: "ws_hook option \<Rightarrow> ws_hook" where
  "run_hook h req st = (case h of Some f \<Rightarrow> f req st | None \<Rightarrow> (0, req, st))"

text \<open>The WebSocket operations of a servlet; only a WebSocket servlet has them.\<close>

fun ws_onConnect :: "Servlet \<Rightarrow> ws_hook" where
  "ws_onConnect (FunctionWSServlet cb con cls) header st = run_hook con header st"
| "ws_onConnect slt header st = (0, header, st)"

fun ws_onClose :: "Servlet \<Rightarrow> ws_hook" where
  "ws_onClose (FunctionWSServlet cb con cls) header st = run_hook cls header st"
| "ws_onClose slt header st = (0, header, st)"

fun ws_handle :: "Servlet \<Rightarrow> ws_callback" where
  "ws_handle (FunctionWSServlet cb con cls) header msg st =
     (case cb of Some f \<Rightarrow> f header msg st | None \<Rightarrow> (0, header, st))"
| "ws_handle slt header msg st = (0, header, st)"

section \<open>Dispatch\<close>

record ServletDispatch =
  m_datas :: "string \<rightharpoonup> Servlet option"
  m_globs :: "(string \<times> Servlet option) list"
  m_default :: "Servlet option"

definition new_ServletDispatch :: ServletDispatch where
  "new_ServletDispatch = \<lparr>m_datas = Map.empty, m_globs = [], m_default = Some (new_NotFoundServlet ''xzmjx/1.0'')\<rparr>"

definition addServlet :: "string \<Rightarrow> Servlet option \<Rightarrow> ServletDispatch \<Rightarrow> ServletDispatch" where
  "addServlet uri slt d = d\<lparr>m_datas := (m_datas d)(uri \<mapsto> slt)\<rparr>"

definition addServlet_cb :: "string \<Rightarrow> http_callback option \<Rightarrow> ServletDispatch \<Rightarrow> ServletDispatch" where
  "addServlet_cb uri cb d = d\<lparr>m_datas := (m_datas d)(uri \<mapsto> Some (FunctionServlet cb))\<rparr>"

text \<open>The loop that erases the first entry of a pattern.\<close>

fun glob_erase :: "string \<Rightarrow> (string \<times> 'a) list \<Rightarrow> (string \<times> 'a) list" where
  "glob_erase uri [] = []"
| "glob_erase uri ((u, s) # gs) = (if u = uri then gs else (u, s) # glob_erase uri gs)"

definition addGlobServlet :: "string \<Rightarrow> Servlet option \<Rightarrow> ServletDispatch \<Rightarrow> ServletDispatch" where
  "addGlobServlet uri slt d = d\<lparr>m_globs := glob_erase uri (m_globs d) @ [(uri, slt)]\<rparr>"

definition addGlobServlet_cb :: "string \<Rightarrow> http_callback option \<Rightarrow> ServletDispatch \<Rightarrow> ServletDispatch" where
  "addGlobServlet_cb uri cb d = d\<lparr>m_globs := glob_erase uri (m_globs d) @ [(uri, Some (FunctionServlet cb))]\<rparr>"

definition delServlet :: "string \<Rightarrow> ServletDispatch \<Rightarrow> ServletDispatch" where
  "delServlet uri d = d\<lparr>m_datas := (m_datas d)(uri := None)\<rparr>"

definition delGlobServlet :: "string \<Rightarrow> ServletDispatch \<Rightarrow> ServletDispatch" where
  "delGlobServlet uri d = d\<lparr>m_globs := glob_erase uri (m_globs d)\<rparr>"

definition getServlet :: "ServletDispatch \<Rightarrow> string \<Rightarrow> Servlet option" where
  "getServlet d uri = (case m_datas d uri of None \<Rightarrow> None | Some slt \<Rightarrow> slt)"

fun glob_find :: "(string \<Rightarrow> bool) \<Rightarrow> (string \<times> Servlet option) list \<Rightarrow> Servlet option option" where
  "glob_find p [] = None"
| "glob_find p ((u, slt) # gs) = (if p u then Some slt else glob_find p gs)"

definition getGlobServlet :: "ServletDispatch \<Rightarrow> string \<Rightarrow> Servlet option" where
  "getGlobServlet d uri = (case glob_find (\<lambda>u. u = uri) (m_globs d) of Some slt \<Rightarrow> slt | None \<Rightarrow> None)"

definition getMatchedServlet :: "(string \<Rightarrow> string \<Rightarrow> bool) \<Rightarrow> ServletDispatch \<Rightarrow> string \<Rightarrow> Servlet option" where
  "getMatchedServlet fnmatch d uri =
     (case m_datas d uri of
        Some slt \<Rightarrow> slt
      | None \<Rightarrow>
          (case glob_find (\<lambda>u. fnmatch (c_str u) (c_str uri)) (m_globs d) of
             Some slt \<Rightarrow> slt
           | None \<Rightarrow> m_default d))"

definition listAllServlet :: "ServletDispatch \<Rightarrow> (string \<rightharpoonup> Servlet option) \<Rightarrow> (string \<rightharpoonup> Servlet option)" where
  "listAllServlet d infos = infos ++ m_datas d"

definition listAllGlobServlet :: "ServletDispatch \<Rightarrow> (string \<rightharpoonup> Servlet option) \<Rightarrow> (string \<rightharpoonup> Servlet option)" where
  "listAllGlobServlet d infos = foldl (\<lambda>m (u, slt). m(u \<mapsto> slt)) infos (m_globs d)"

definition dispatch_handle :: "(string \<Rightarrow> string \<Rightarrow> bool) \<Rightarrow> ServletDispatch \<Rightarrow> http_callback" where
  "dispatch_handle fnmatch d req rsp st =
     (case getMatchedServlet fnmatch d (m_path req) of
        Some slt \<Rightarrow> let (rt, req, rsp, st) = servlet_handle slt req rsp st in (0, req, rsp, st)
      | None \<Rightarrow> (0, req, rsp, st))"

definition ws_addServlet ::
    "string \<Rightarrow> ws_callback option \<Rightarrow> ws_hook option \<Rightarrow> ws_hook option \<Rightarrow> ServletDispatch \<Rightarrow> ServletDispatch" where
  "ws_addServlet uri cb con cls d = addServlet uri (Some (FunctionWSServlet cb con cls)) d"

definition ws_addGlobServlet ::
    "string \<Rightarrow> ws_callback option \<Rightarrow> ws_hook option \<Rightarrow> ws_hook option \<Rightarrow> ServletDispatch \<Rightarrow> ServletDispatch" where
  "ws_addGlobServlet uri cb con cls d = addGlobServlet uri (Some (FunctionWSServlet cb con cls)) d"

text \<open>The dynamic cast is null for a servlet that is not a WebSocket servlet.\<close>

definition getWSServlet :: "(string \<Rightarrow> string \<Rightarrow> bool) \<Rightarrow> ServletDispatch \<Rightarrow> string \<Rightarrow> Servlet option" where
  "getWSServlet fnmatch d uri =
     (case getMatchedServlet fnmatch d uri of
        Some (FunctionWSServlet cb con cls) \<Rightarrow> Some (FunctionWSServlet cb con cls)
      | _ \<Rightarrow> None)"

section \<open>Servers\<close>

text \<open>The loop of the HTTP server.  The response's flag is set only after the response was sent.\<close>

partial_function (option) serve_loop ::
    "(string \<Rightarrow> string \<Rightarrow> bool) \<Rightarrow> ('p, RequestData) http_lib \<Rightarrow> nat \<Rightarrow> byte list \<Rightarrow> bool \<Rightarrow> string \<Rightarrow>
     ServletDispatch \<Rightarrow> SocketStream \<Rightarrow> SocketStream option" where
  "serve_loop fnmatch lib buff_size buf keep_alive nm d st =
     (case recvRequest lib buff_size buf st of
        (None, st) \<Rightarrow> Some st
      | (Some req, st) \<Rightarrow>
          (let rsp = rsp_setHeader ''Server'' nm (createResponse req);
               (rt, req, rsp, st) = dispatch_handle fnmatch d req rsp st;
               (rt, st) = sendResponse rsp st
           in
           if \<not> keep_alive \<or> m_close req then (let rsp = rsp\<lparr>rsp_close := True\<rparr> in Some st)
           else serve_loop fnmatch lib buff_size buf keep_alive nm d st))"

definition http_handleClient ::
    "(string \<Rightarrow> string \<Rightarrow> bool) \<Rightarrow> ('p, RequestData) http_lib \<Rightarrow> nat \<Rightarrow> byte list \<Rightarrow> bool \<Rightarrow> string \<Rightarrow>
     ServletDispatch \<Rightarrow> SocketStream \<Rightarrow> SocketStream option" where
  "http_handleClient fnmatch lib buff_size buf keep_alive nm d session =
     map_option ss_close (serve_loop fnmatch lib buff_size buf keep_alive nm d session)"

partial_function (option) ws_serve_loop ::
    "(nat \<Rightarrow> byte list) \<Rightarrow> EndianType \<Rightarrow> u32 \<Rightarrow> Servlet \<Rightarrow> HttpRequest \<Rightarrow> SocketStream \<Rightarrow>
     (HttpRequest \<times> SocketStream) option" where
  "ws_serve_loop fill native max_size slt header st =
     (case ws_recvMessage fill native max_size st of
        (None, st) \<Rightarrow> Some (header, st)
      | (Some msg, st) \<Rightarrow>
          (let (rt, header, st) = ws_handle slt header msg st in
           if rt \<noteq> 0 then Some (header, st) else ws_serve_loop fill native max_size slt header st))"

definition ws_handleClient ::
    "(string \<Rightarrow> string \<Rightarrow> bool) \<Rightarrow> ('p, RequestData) http_lib \<Rightarrow> (string \<Rightarrow> int option) \<Rightarrow> (byte list \<Rightarrow> byte list) \<Rightarrow>
     nat \<Rightarrow> byte list \<Rightarrow> (nat \<Rightarrow> byte list) \<Rightarrow> EndianType \<Rightarrow> u32 \<Rightarrow> ServletDispatch \<Rightarrow> SocketStream \<Rightarrow> SocketStream option" where
  "ws_handleClient fnmatch lib cast sha1sum buff_size buf fill native max_size d session =
     (case handleShake lib cast sha1sum buff_size buf session of
        (None, st) \<Rightarrow> Some (ss_close st)
      | (Some header, st) \<Rightarrow>
          (case getWSServlet fnmatch d (m_path header) of
             None \<Rightarrow> Some (ss_close st)
           | Some slt \<Rightarrow>
               (let (rt, header, st) = ws_onConnect slt header st in
                if rt \<noteq> 0 then Some (ss_close st)
                else
                  (case ws_serve_loop fill native max_size slt header st of
                     None \<Rightarrow> None
                   | Some (header, st) \<Rightarrow>
                       let (rt, header, st) = ws_onClose slt header st in Some (ss_close st)))))"


section \<open>Dispatch finds what was registered\<close>

inductive dispatch :: "ServletDispatch \<Rightarrow> bool" where
  new: "dispatch new_ServletDispatch"
| add: "dispatch d \<Longrightarrow> dispatch (addServlet uri slt d)"
| add_cb: "dispatch d \<Longrightarrow> dispatch (addServlet_cb uri cb d)"
| add_glob: "dispatch d \<Longrightarrow> dispatch (addGlobServlet uri slt d)"
| add_glob_cb: "dispatch d \<Longrightarrow> dispatch (addGlobServlet_cb uri cb d)"
| del: "dispatch d \<Longrightarrow> dispatch (delServlet uri d)"
| del_glob: "dispatch d \<Longrightarrow> dispatch (delGlobServlet uri d)"
| default: "dispatch d \<Longrightarrow> dispatch (d\<lparr>m_default := slt\<rparr>)"

lemmas dispatch_defs = addServlet_def addServlet_cb_def addGlobServlet_def addGlobServlet_cb_def
  delServlet_def delGlobServlet_def

lemma set_glob_erase: "distinct (map fst gs) \<Longrightarrow> set (glob_erase uri gs) = {(u, s) \<in> set gs. u \<noteq> uri}"
  by (induction uri gs rule: glob_erase.induct) (auto, force)

lemma distinct_glob_erase: "distinct (map fst gs) \<Longrightarrow> distinct (map fst (glob_erase uri gs))"
proof (induction uri gs rule: glob_erase.induct)
  case (2 uri u s gs)
  then show ?case by (auto simp: set_glob_erase)
qed simp

lemma dispatch_globs: "dispatch d \<Longrightarrow> distinct (map fst (m_globs d))"
proof (induction rule: dispatch.induct)
  case new
  then show ?case by (simp add: new_ServletDispatch_def)
qed (auto simp: dispatch_defs distinct_glob_erase set_glob_erase)

lemma glob_find_erase:
  "distinct (map fst gs) \<Longrightarrow>
   glob_find (\<lambda>u. u = v) (glob_erase uri gs) = (if v = uri then None else glob_find (\<lambda>u. u = v) gs)"
proof (induction uri gs rule: glob_erase.induct)
  case (2 uri u s gs)
  have "glob_find (\<lambda>w. w = u) gs = None" if "u \<notin> fst ` set gs"
    using that by (induction gs) auto
  then show ?case using 2 by auto
qed simp

lemma glob_find_append: "glob_find p (gs @ gs') = (case glob_find p gs of None \<Rightarrow> glob_find p gs' | Some s \<Rightarrow> Some s)"
  by (induction p gs rule: glob_find.induct) auto

text \<open>C36: in every reachable dispatch a URI leads to the servlet registered for exactly it; the
  patterns are tried only without one, in the order of their registration, and the default servlet
  comes last.  Registering a pattern again replaces its servlet, and removing it removes it for good,
  because no pattern is ever registered twice.\<close>

theorem dispatch_laws:
  assumes "dispatch d"
  shows "distinct (map fst (m_globs d)) \<and>
    getMatchedServlet fnmatch (addServlet uri slt d) u = (if u = uri then slt else getMatchedServlet fnmatch d u) \<and>
    getServlet (delServlet uri d) u = (if u = uri then None else getServlet d u) \<and>
    getGlobServlet (addGlobServlet uri slt d) u = (if u = uri then slt else getGlobServlet d u) \<and>
    getGlobServlet (delGlobServlet uri d) u = (if u = uri then None else getGlobServlet d u) \<and>
    (if m_datas d u = None then
       getMatchedServlet fnmatch d u =
         (case find (\<lambda>(g, s). fnmatch (c_str g) (c_str u)) (m_globs d) of Some (g, s) \<Rightarrow> s | None \<Rightarrow> m_default d)
     else getMatchedServlet fnmatch d u = getServlet d u)"
proof (intro conjI)
  note dist = dispatch_globs [OF assms]
  have find: "glob_find (\<lambda>g. p g) gs = map_option snd (find (\<lambda>(g, s). p g) gs)" for p gs
    by (induction p gs rule: glob_find.induct) auto
  show "distinct (map fst (m_globs d))" by (rule dist)
  show "getMatchedServlet fnmatch (addServlet uri slt d) u = (if u = uri then slt else getMatchedServlet fnmatch d u)"
    by (simp add: getMatchedServlet_def addServlet_def split: option.split)
  show "getServlet (delServlet uri d) u = (if u = uri then None else getServlet d u)"
    by (simp add: getServlet_def delServlet_def)
  show "getGlobServlet (addGlobServlet uri slt d) u = (if u = uri then slt else getGlobServlet d u)"
    using glob_find_erase [OF dist]
    by (simp add: getGlobServlet_def addGlobServlet_def glob_find_append split: option.split)
  show "getGlobServlet (delGlobServlet uri d) u = (if u = uri then None else getGlobServlet d u)"
    using glob_find_erase [OF dist] by (simp add: getGlobServlet_def delGlobServlet_def)
  show "if m_datas d u = None then
       getMatchedServlet fnmatch d u =
         (case find (\<lambda>(g, s). fnmatch (c_str g) (c_str u)) (m_globs d) of Some (g, s) \<Rightarrow> s | None \<Rightarrow> m_default d)
     else getMatchedServlet fnmatch d u = getServlet d u"
    by (auto simp: getMatchedServlet_def getServlet_def find split: option.split)
qed

theorem dispatch_laws_witness:
  "getGlobServlet (delGlobServlet ''/a*'' (addGlobServlet ''/a*'' None new_ServletDispatch)) ''/a*'' = None"
  using dispatch_laws [OF dispatch.add_glob [OF dispatch.new], where u = "''/a*''" and uri = "''/a*''"] by simp

section \<open>A connection is served to its end\<close>

text \<open>C10: serving a client ends, with the connection closed, when no servlet feeds the session.  A
  request is answered once, and the loop ends after the request that says so.\<close>

theorem http_server_returns:
  assumes "\<And>req rsp st. pending (snd (snd (snd (dispatch_handle fnmatch d req rsp st)))) \<le> pending st"
  shows "\<exists>st'. http_handleClient fnmatch lib buff_size buf keep_alive nm d session = Some st' \<and>
    \<not> ss_isConnected st' \<and> pending st' \<le> pending session"
proof -
  have "\<exists>st'. serve_loop fnmatch lib buff_size buf keep_alive nm d session = Some st' \<and> pending st' \<le> pending session"
  proof (induction session rule: measure_induct_rule [of pending])
    case (less st)
    obtain r st1 where r: "recvRequest lib buff_size buf st = (r, st1)" by (cases "recvRequest lib buff_size buf st")
    note out = recv_loop_outcome [where lib = lib and buff_size = buff_size and offset = 0 and buf = buf
        and parser = "new_HttpRequestParser lib" and st = st, folded recvRequest_def]
    show ?case
    proof (cases r)
      case None
      then show ?thesis using r out by (subst serve_loop.simps) simp
    next
      case (Some req)
      obtain rt req' rsp st2 where h:
        "dispatch_handle fnmatch d req (rsp_setHeader ''Server'' nm (createResponse req)) st1 = (rt, req', rsp, st2)"
        by (cases "dispatch_handle fnmatch d req (rsp_setHeader ''Server'' nm (createResponse req)) st1")
      obtain rt' st3 where s: "sendResponse rsp st2 = (rt', st3)" by (cases "sendResponse rsp st2")
      have "pending st2 \<le> pending st1" using assms [of req _ st1] h by (metis snd_conv)
      moreover have "pending st3 = pending st2"
        using s by (auto simp: sendResponse_def Let_def dest: pending_writeFixedSize)
      ultimately have lt: "pending st3 < pending st" using out r Some by simp
      have "serve_loop fnmatch lib buff_size buf keep_alive nm d st =
          (if \<not> keep_alive \<or> m_close req' then Some st3 else serve_loop fnmatch lib buff_size buf keep_alive nm d st3)"
        using r Some h s by (subst serve_loop.simps) simp
      then show ?thesis using less [OF lt] lt by (auto intro: less_imp_le order_trans)
    qed
  qed
  then show ?thesis by (auto simp: http_handleClient_def)
qed

lemma default_dispatch:
  "dispatch_handle fnmatch new_ServletDispatch req rsp st =
     (0, req, NotFoundServlet_handle
       (''<html><head><title>404 Not Found</title></head><body><center><h1>404 Not Found</h1></center><hr><center>'' @
        ''xzmjx/1.0'' @ ''</center></body></html>'') rsp, st)"
  by (simp add: dispatch_handle_def getMatchedServlet_def new_ServletDispatch_def new_NotFoundServlet_def)

theorem http_server_returns_witness:
  "\<exists>st'. http_handleClient (\<lambda>g u. False) line_lib 8 (replicate 8 0) True ''xzmjx'' new_ServletDispatch
      (stream_of 5 [Some [65, 10], Some [66, 10]] [] [] True) = Some st' \<and> \<not> ss_isConnected st' \<and>
    pending st' \<le> pending (stream_of 5 [Some [65, 10], Some [66, 10]] [] [] True)"
  by (rule http_server_returns) (simp add: default_dispatch)


lemma sendResponse_whole:
  assumes "length (rsp_dump rsp []) < 2 ^ 31"
  shows "sendResponse rsp (stream_of fd cs [] out own) =
    (int (length (rsp_dump rsp [])), stream_of fd cs [] (out @ str_bytes (rsp_dump rsp [])) own)"
proof -
  have "rsp_dump rsp [] \<noteq> []" by (simp add: rsp_dump_def)
  then show ?thesis
    using assms writeFixedSize_whole [of "str_bytes (rsp_dump rsp [])"] by (simp add: sendResponse_def Let_def)
qed

text \<open>The answer to a path without a servlet.\<close>

definition not_found_answer :: "string \<Rightarrow> HttpRequest \<Rightarrow> HttpResponse" where
  "not_found_answer nm req =
     NotFoundServlet_handle
       (''<html><head><title>404 Not Found</title></head><body><center><h1>404 Not Found</h1></center><hr><center>'' @
        ''xzmjx/1.0'' @ ''</center></body></html>'')
       (rsp_setHeader ''Server'' nm (createResponse req))"

text \<open>A server that does not keep connections alive answers one request and closes the
  connection, but the answer announces what the request asked for: to a request with keep-alive it says
  keep-alive, because the flag is set after the answer was sent.\<close>

lemma http_server_single_answer:
  assumes "recvRequest lib buff_size buf session = (Some req, stream_of fd cs [] out own)"
    and "length (rsp_dump (not_found_answer nm req) []) < 2 ^ 31"
  shows "http_handleClient fnmatch lib buff_size buf False nm new_ServletDispatch session =
      Some (ss_close (stream_of fd cs [] (out @ str_bytes (rsp_dump (not_found_answer nm req) [])) own)) \<and>
    rsp_close (not_found_answer nm req) = m_close req \<and>
    rsp_status (not_found_answer nm req) = NOT_FOUND \<and>
    (\<exists>before after. rsp_dump (not_found_answer nm req) [] =
       before @ ''connection: '' @ (if m_close req then ''close'' else ''keep-alive'') @ crlf @ after)"
proof (intro conjI)
  have serve: "serve_loop fnmatch lib buff_size buf False nm new_ServletDispatch session =
      Some (stream_of fd cs [] (out @ str_bytes (rsp_dump (not_found_answer nm req) [])) own)"
    using assms sendResponse_whole [OF assms(2)]
    by (subst serve_loop.simps) (simp add: default_dispatch not_found_answer_def)
  then show "http_handleClient fnmatch lib buff_size buf False nm new_ServletDispatch session =
      Some (ss_close (stream_of fd cs [] (out @ str_bytes (rsp_dump (not_found_answer nm req) [])) own))"
    by (simp add: http_handleClient_def)
  show cl: "rsp_close (not_found_answer nm req) = m_close req"
    by (simp add: not_found_answer_def NotFoundServlet_handle_def rsp_setHeader_def createResponse_def
        new_HttpResponse_def Let_def)
  show "rsp_status (not_found_answer nm req) = NOT_FOUND"
    by (simp add: not_found_answer_def NotFoundServlet_handle_def rsp_setHeader_def Let_def)
  have "\<not> rsp_websocket (not_found_answer nm req)"
    by (simp add: not_found_answer_def NotFoundServlet_handle_def rsp_setHeader_def createResponse_def
        new_HttpResponse_def Let_def)
  then show "\<exists>before after. rsp_dump (not_found_answer nm req) [] =
       before @ ''connection: '' @ (if m_close req then ''close'' else ''keep-alive'') @ crlf @ after"
    unfolding rsp_dump_def print_connection_def using cl by (simp only: append_assoc [symmetric] append_Nil if_True simp_thms) blast
qed


lemma http_server_single_answer_example:
  "\<exists>st'. http_handleClient (\<lambda>g u. False) line_lib 8 (replicate 8 0) False ''xzmjx'' new_ServletDispatch
      (stream_of 5 [Some ([65, 10] @ [])] [] [] True) = Some (ss_close st')"
proof -
  have "recvRequest line_lib 8 (replicate 8 0) (stream_of 5 [Some ([65, 10] @ [])] [] [] True) =
      (Some (req_init (new_HttpRequest 0x11 True)), stream_of 5 [] [] [] True)"
    using recv_one_chunk [of line_lib "[65, 10]" "[]" "()"
      "\<lparr>m_data = new_HttpRequest 0x11 True, m_finished = True, m_field = []\<rparr>" 8 "replicate 8 0" 5 "[]" "[]" "[]" True]
    by (simp add: line_lib_def new_HttpRequestParser_def s_request_settings_def on_request_message_complete_cb_def)
  moreover have "length (rsp_dump (not_found_answer ''xzmjx'' (req_init (new_HttpRequest 0x11 True))) []) \<le> 300"
    by code_simp
  then have "length (rsp_dump (not_found_answer ''xzmjx'' (req_init (new_HttpRequest 0x11 True))) []) < 2 ^ 31"
    by simp
  ultimately show ?thesis using http_server_single_answer by blast
qed

end
