(* ===== verification/Log_Format.thy ===== *)
theory Log_Format
  imports Util_Text
begin

text \<open>
  Log levels, log events and the formatter of \<^verbatim>\<open>log.cpp\<close>.  A pattern is parsed once, by the
  loop of \<^verbatim>\<open>LogFormatter::init\<close>, into a list of items; a message is the text of the items one
  after the other.  The theory shows which patterns the loop accepts and that it finds exactly
  the directives a pattern is written from.
\<close>

section \<open>Levels\<close>

datatype LogLevel = UNKONWN | DEBUG | INFO | WARN | ERROR | FATAL

text \<open>The values of the enumeration, by which levels are compared.\<close>

fun level_value :: "LogLevel \<Rightarrow> nat" where
  "level_value UNKONWN = 0"
| "level_value DEBUG = 1"
| "level_value INFO = 2"
| "level_value WARN = 3"
| "level_value ERROR = 4"
| "level_value FATAL = 5"

lemma level_value_inj [simp]: "level_value a = level_value b \<longleftrightarrow> a = b"
  by (cases a; cases b) simp_all

instantiation LogLevel :: linorder
begin

definition less_eq_LogLevel :: "LogLevel \<Rightarrow> LogLevel \<Rightarrow> bool" where
  "less_eq_LogLevel a b \<longleftrightarrow> level_value a \<le> level_value b"

definition less_LogLevel :: "LogLevel \<Rightarrow> LogLevel \<Rightarrow> bool" where
  "less_LogLevel a b \<longleftrightarrow> level_value a < level_value b"

instance
  by standard (auto simp: less_eq_LogLevel_def less_LogLevel_def)

end

fun ToString :: "LogLevel \<Rightarrow> string" where
  "ToString DEBUG = ''DEBUG''"
| "ToString INFO = ''INFO''"
| "ToString WARN = ''WARN''"
| "ToString ERROR = ''ERROR''"
| "ToString FATAL = ''FATAL''"
| "ToString UNKONWN = ''UNKONWN''"

text \<open>The lines of the macro \<^verbatim>\<open>XX\<close>, each of which may replace the answer.\<close>

definition level_names :: "(LogLevel \<times> string) list" where
  "level_names =
     [(DEBUG, ''DEBUG''), (INFO, ''INFO''), (WARN, ''WARN''), (ERROR, ''ERROR''),
      (FATAL, ''FATAL''), (UNKONWN, ''UNKONWN''), (DEBUG, ''debug''), (INFO, ''info''),
      (WARN, ''warn''), (ERROR, ''error''), (FATAL, ''fatal''), (UNKONWN, ''unkonwn'')]"

definition FromString :: "string \<Rightarrow> LogLevel" where
  "FromString str = fold (\<lambda>(level, v) ans. if str = v then level else ans) level_names UNKONWN"

lemma FromString_ToString [simp]: "FromString (ToString level) = level"
  by (cases level) (simp_all add: FromString_def level_names_def)

section \<open>Events\<close>

text \<open>\<^verbatim>\<open>m_sstream\<close> is the text written to it; \<^verbatim>\<open>m_logger\<close> is the address of the logger the event
  was made for.  Lines are \<^verbatim>\<open>int32_t\<close>, the other numbers unsigned.\<close>

record LogEvent =
  ev_filename :: string
  ev_line :: u32
  ev_elapse :: u32
  ev_threadId :: u32
  ev_fiberId :: u32
  ev_time :: u64
  ev_threadName :: string
  ev_sstream :: string
  ev_logger :: nat
  ev_level :: LogLevel

definition new_LogEvent ::
  "nat \<Rightarrow> LogLevel \<Rightarrow> string \<Rightarrow> u32 \<Rightarrow> u32 \<Rightarrow> u32 \<Rightarrow> u32 \<Rightarrow> u64 \<Rightarrow> string \<Rightarrow> LogEvent" where
  "new_LogEvent logger level filename line elapse thread_id fiber_id time thread_name =
     \<lparr>ev_filename = filename, ev_line = line, ev_elapse = elapse, ev_threadId = thread_id,
      ev_fiberId = fiber_id, ev_time = time, ev_threadName = thread_name, ev_sstream = [],
      ev_logger = logger, ev_level = level\<rparr>"

text \<open>\<^verbatim>\<open>LogEvent::format\<close>: the result of \<^verbatim>\<open>vasprintf\<close> is \<open>None\<close> when it returns -1; the text is
  taken as a C string.\<close>

definition event_format :: "string option \<Rightarrow> LogEvent \<Rightarrow> LogEvent" where
  "event_format printed ev =
     (case printed of
        None \<Rightarrow> ev
      | Some buf \<Rightarrow> ev\<lparr>ev_sstream := ev_sstream ev @ c_str buf\<rparr>)"

section \<open>Items\<close>

datatype FormatterItem =
    MessageItem
  | LevelItem
  | ElapseItem
  | LogNameItem
  | ThreadIdItem
  | FiberIdItem
  | ThreadNameItem
  | DateTimeItem string
  | FilenameItem
  | LineItem
  | NewLineItem
  | StringItem string
  | TabItem

definition default_date :: string where
  "default_date = ''%Y-%m-%d %H:%M:%S''"

definition new_DateTimeItem :: "string \<Rightarrow> FormatterItem" where
  "new_DateTimeItem fmt = DateTimeItem (if fmt = [] then default_date else fmt)"

definition print_int :: "u32 \<Rightarrow> string" where
  "print_int w = (if sint w < 0 then ''-'' @ dec (nat (- sint w)) else dec (nat (sint w)))"

text \<open>What an item writes, for the name of the event's logger; \<open>time_text\<close> is the text that
  \<^verbatim>\<open>localtime_r\<close> and \<^verbatim>\<open>strftime\<close> leave in the buffer for a format and a time.\<close>

fun item_format ::
  "(string \<Rightarrow> u64 \<Rightarrow> string) \<Rightarrow> string \<Rightarrow> LogLevel \<Rightarrow> LogEvent \<Rightarrow> FormatterItem \<Rightarrow> string" where
  "item_format time_text name level ev MessageItem = ev_sstream ev"
| "item_format time_text name level ev LevelItem = ToString level"
| "item_format time_text name level ev ElapseItem = dec (unat (ev_elapse ev))"
| "item_format time_text name level ev LogNameItem = name"
| "item_format time_text name level ev ThreadIdItem = dec (unat (ev_threadId ev))"
| "item_format time_text name level ev FiberIdItem = dec (unat (ev_fiberId ev))"
| "item_format time_text name level ev ThreadNameItem = ev_threadName ev"
| "item_format time_text name level ev (DateTimeItem fmt) = time_text (c_str fmt) (ev_time ev)"
| "item_format time_text name level ev FilenameItem = c_str (ev_filename ev)"
| "item_format time_text name level ev LineItem = print_int (ev_line ev)"
| "item_format time_text name level ev NewLineItem = [CHR 0x0A]"
| "item_format time_text name level ev (StringItem str) = str"
| "item_format time_text name level ev TabItem = [CHR 0x09]"

section \<open>The formatter\<close>

record LogFormatter =
  fm_pattern :: string
  fm_items :: "FormatterItem list"
  fm_error :: bool

text \<open>The table of directives; the entry of \<^verbatim>\<open>d\<close> is used with an empty format.\<close>

definition itemMap :: "(char \<times> FormatterItem) list" where
  "itemMap =
     [(CHR ''m'', MessageItem), (CHR ''p'', LevelItem), (CHR ''r'', ElapseItem),
      (CHR ''c'', LogNameItem), (CHR ''t'', ThreadIdItem), (CHR ''n'', NewLineItem),
      (CHR ''d'', new_DateTimeItem []), (CHR ''f'', FilenameItem), (CHR ''l'', LineItem),
      (CHR ''T'', TabItem), (CHR ''F'', FiberIdItem), (CHR ''N'', ThreadNameItem)]"

definition error_item :: FormatterItem where
  "error_item = StringItem ''<error format %>''"

text \<open>Pushing the literal text in front of a directive.\<close>

definition flush :: "string \<Rightarrow> FormatterItem list \<Rightarrow> FormatterItem list" where
  "flush str items = (if str \<noteq> [] then items @ [StringItem str] else items)"

text \<open>The loop over the pattern: what is left of it, the literal text so far, the items and the
  error flag.  After a date whose brace is never closed the loop goes on behind the brace.\<close>

function init_loop ::
  "string \<Rightarrow> string \<Rightarrow> FormatterItem list \<Rightarrow> bool \<Rightarrow> FormatterItem list \<times> bool" where
  "init_loop [] str items err = (items, err)"
| "init_loop (c # cs) str items err =
     (if c \<noteq> CHR ''%'' then init_loop cs (str @ [c]) items err
      else case cs of
        [] \<Rightarrow> (items @ [error_item], True)
      | d # ds \<Rightarrow>
          if d = CHR ''%'' then init_loop ds (str @ [CHR ''%'']) items err
          else let items = flush str items in
          if d \<noteq> CHR ''d'' then
            (case map_of itemMap d of
               None \<Rightarrow> init_loop ds [] (items @ [error_item]) True
             | Some it \<Rightarrow> init_loop ds [] (items @ [it]) err)
          else case ds of
            [] \<Rightarrow> init_loop ds [] (items @ [new_DateTimeItem []]) err
          | b # es \<Rightarrow>
              if b \<noteq> CHR ''{'' then init_loop ds [] (items @ [new_DateTimeItem []]) err
              else if CHR ''}'' \<notin> set es then
                init_loop es [] (items @ [StringItem (''<error format %d'' @ ds @ ''>'')]) True
              else init_loop (tl (dropWhile (\<lambda>x. x \<noteq> CHR ''}'') es)) []
                     (items @ [new_DateTimeItem (takeWhile (\<lambda>x. x \<noteq> CHR ''}'') es)]) err)"
  by pat_completeness auto
termination
proof (relation "measure (\<lambda>(cs, _). length cs)", goal_cases)
  case (9 c cs str items err d ds x b es)
  then show ?case
    using length_dropWhile_le [of "\<lambda>x. x \<noteq> CHR ''}''" es] by auto
qed auto

definition new_LogFormatter :: "string \<Rightarrow> LogFormatter" where
  "new_LogFormatter pattern =
     (let (items, err) = init_loop pattern [] [] False
      in \<lparr>fm_pattern = pattern, fm_items = items, fm_error = err\<rparr>)"

definition default_pattern :: string where
  "default_pattern = ''%d{%Y-%m-%d %H:%M:%S}%T[%p]%T[%c]%T%t%T%N%T%F%T%T%f:%l%T%m%n''"

definition formatter_format ::
  "(string \<Rightarrow> u64 \<Rightarrow> string) \<Rightarrow> LogFormatter \<Rightarrow> string \<Rightarrow> LogLevel \<Rightarrow> LogEvent \<Rightarrow> string" where
  "formatter_format time_text f name level ev =
     concat (map (item_format time_text name level ev) (fm_items f))"

section \<open>What the parser accepts\<close>

text \<open>A pattern is written from directives with literal text in front of each, and text behind
  the last; in literal text the character \<open>%\<close> is doubled.\<close>

datatype directive = Field char | Date string

fun show_directive :: "directive \<Rightarrow> string" where
  "show_directive (Field c) = [CHR ''%'', c]"
| "show_directive (Date fmt) = ''%d{'' @ fmt @ ''}''"

definition escape :: "string \<Rightarrow> string" where
  "escape s = concat (map (\<lambda>c. if c = CHR ''%'' then ''%%'' else [c]) s)"

fun pattern_text :: "(string \<times> directive) list \<Rightarrow> string \<Rightarrow> string" where
  "pattern_text [] trail = escape trail"
| "pattern_text ((lit, d) # ps) trail = escape lit @ show_directive d @ pattern_text ps trail"

text \<open>The fields are those of the table; a plain date is not followed by a brace, which would
  open its format, and a format has no closing brace.\<close>

fun pattern_wf :: "(string \<times> directive) list \<Rightarrow> string \<Rightarrow> bool" where
  "pattern_wf [] trail \<longleftrightarrow> True"
| "pattern_wf ((lit, Field c) # ps) trail \<longleftrightarrow>
     c \<in> fst ` set itemMap \<and> (c = CHR ''d'' \<longrightarrow> take 1 (pattern_text ps trail) \<noteq> ''{'') \<and>
     pattern_wf ps trail"
| "pattern_wf ((lit, Date fmt) # ps) trail \<longleftrightarrow> CHR ''}'' \<notin> set fmt \<and> pattern_wf ps trail"

fun directive_item :: "directive \<Rightarrow> FormatterItem" where
  "directive_item (Field c) = the (map_of itemMap c)"
| "directive_item (Date fmt) = new_DateTimeItem fmt"

definition pattern_items :: "(string \<times> directive) list \<Rightarrow> FormatterItem list" where
  "pattern_items ps = concat (map (\<lambda>(lit, d). flush lit [] @ [directive_item d]) ps)"

lemma escape_simps [simp]:
  "escape [] = []"
  "escape (c # s) = (if c = CHR ''%'' then ''%%'' else [c]) @ escape s"
  "escape (s @ s') = escape s @ escape s'"
  by (simp_all add: escape_def)

lemma init_loop_escape:
  "init_loop (escape lit @ rest) str items err = init_loop rest (str @ lit) items err"
  by (induction lit arbitrary: str) auto

lemma flush_append: "flush str items = items @ flush str []"
  by (simp add: flush_def)

lemma itemMap_percent [simp]: "CHR ''%'' \<notin> fst ` set itemMap"
  by (simp add: itemMap_def)

lemma itemMap_date [simp]: "map_of itemMap CHR ''d'' = Some (new_DateTimeItem [])"
  by (simp add: itemMap_def)

lemma init_loop_field:
  assumes "c \<in> fst ` set itemMap" and "c = CHR ''d'' \<longrightarrow> take 1 rest \<noteq> ''{''"
  shows "init_loop (CHR ''%'' # c # rest) str items err =
    init_loop rest [] (flush str items @ [the (map_of itemMap c)]) err"
proof -
  obtain it where "map_of itemMap c = Some it"
    using assms(1) by (auto dest!: weak_map_of_SomeI)
  moreover have "c \<noteq> CHR ''%''" using assms(1) itemMap_percent by metis
  ultimately show ?thesis
    using assms(2) by (cases rest) (auto simp: Let_def)
qed

lemma init_loop_date:
  assumes "CHR ''}'' \<notin> set fmt"
  shows "init_loop (''%d{'' @ fmt @ ''}'' @ rest) str items err =
    init_loop rest [] (flush str items @ [new_DateTimeItem fmt]) err"
proof -
  have "takeWhile (\<lambda>x. x \<noteq> CHR ''}'') (fmt @ CHR ''}'' # rest) = fmt"
    and "dropWhile (\<lambda>x. x \<noteq> CHR ''}'') (fmt @ CHR ''}'' # rest) = CHR ''}'' # rest"
    using assms by (subst takeWhile_append2 dropWhile_append2; auto)+
  then show ?thesis by (simp add: Let_def)
qed

lemma init_loop_pattern:
  assumes "pattern_wf ps trail"
  shows "init_loop (pattern_text ps trail) [] items err = (items @ pattern_items ps, err)"
  using assms
proof (induction ps trail arbitrary: items rule: pattern_wf.induct)
  case (1 trail)
  then show ?case
    using init_loop_escape [of trail "[]" "[]" items err] by (simp add: pattern_items_def)
next
  case (2 lit c ps trail)
  then show ?case
    by (simp add: init_loop_escape init_loop_field pattern_items_def del: init_loop.simps)
      (simp add: flush_append [of lit items])
next
  case (3 lit fmt ps trail)
  then show ?case
    using init_loop_date [of fmt "pattern_text ps trail"]
    by (simp add: init_loop_escape pattern_items_def del: init_loop.simps)
      (simp add: flush_append [of lit items])
qed

lemma init_loop_error: "err \<Longrightarrow> snd (init_loop p str items err)"
proof (induction p str items err rule: init_loop.induct)
  case (2 c cs str items err)
  then show ?case
    by (subst init_loop.simps)
      (auto simp: Let_def simp del: init_loop.simps split: list.splits option.splits)
qed simp

definition written :: "string \<Rightarrow> bool" where
  "written p \<longleftrightarrow> (\<exists>ps trail. pattern_wf ps trail \<and> p = pattern_text ps trail)"

lemma written_escape: "written (escape s)"
  unfolding written_def by (intro exI [of _ "[]"] exI [of _ s]) simp

lemma written_field:
  assumes "written rest" and "map_of itemMap c = Some it" and "c = CHR ''d'' \<longrightarrow> take 1 rest \<noteq> ''{''"
  shows "written (escape str @ CHR ''%'' # c # rest)"
proof -
  obtain ps trail where "pattern_wf ps trail" "rest = pattern_text ps trail"
    using assms(1) by (auto simp: written_def)
  moreover have "c \<in> fst ` set itemMap" using map_of_SomeD [OF assms(2)] by force
  ultimately have "pattern_wf ((str, Field c) # ps) trail \<and>
      escape str @ CHR ''%'' # c # rest = pattern_text ((str, Field c) # ps) trail"
    using assms(3) by simp
  then show ?thesis unfolding written_def by blast
qed

lemma written_date:
  assumes "written (tl (dropWhile (\<lambda>x. x \<noteq> CHR ''}'') es))" and "CHR ''}'' \<in> set es"
  shows "written (escape str @ ''%d{'' @ es)"
proof -
  let ?fmt = "takeWhile (\<lambda>x. x \<noteq> CHR ''}'') es" and ?rest = "tl (dropWhile (\<lambda>x. x \<noteq> CHR ''}'') es)"
  obtain ps trail where ps: "pattern_wf ps trail" "?rest = pattern_text ps trail"
    using assms(1) by (auto simp: written_def)
  have "dropWhile (\<lambda>x. x \<noteq> CHR ''}'') es = CHR ''}'' # ?rest"
    using assms(2) hd_dropWhile [of "\<lambda>x. x \<noteq> CHR ''}''" es]
    by (cases "dropWhile (\<lambda>x. x \<noteq> CHR ''}'') es") auto
  moreover have "es = ?fmt @ dropWhile (\<lambda>x. x \<noteq> CHR ''}'') es" by simp
  ultimately have "es = ?fmt @ CHR ''}'' # ?rest" by simp
  moreover have "CHR ''}'' \<notin> set ?fmt" by (auto dest: set_takeWhileD)
  ultimately have "pattern_wf ((str, Date ?fmt) # ps) trail \<and>
      escape str @ ''%d{'' @ es = pattern_text ((str, Date ?fmt) # ps) trail"
    using ps by simp
  then show ?thesis unfolding written_def by blast
qed

lemma init_loop_accepts:
  assumes "\<not> snd (init_loop p str items err)"
  shows "written (escape str @ p)"
  using assms
proof (induction p str items err rule: init_loop.induct)
  case (1 str items err)
  then show ?case by (simp add: written_escape)
next
  case (2 c cs str items err)
  show ?case
  proof (cases "c = CHR ''%''")
    case False
    then show ?thesis using 2 by simp
  next
    case c: True
    then obtain d ds where cs: "cs = d # ds" using 2(9) by (cases cs) auto
    show ?thesis
    proof (cases "d = CHR ''%''")
      case True
      then show ?thesis using 2 c cs by simp
    next
      case d: False
      show ?thesis
      proof (cases "d = CHR ''d'' \<and> take 1 ds = ''{''")
        case True
        then obtain es where ds: "ds = CHR ''{'' # es" by (cases ds) auto
        have "CHR ''}'' \<in> set es"
          using 2(9) c cs True ds init_loop_error [of True] by (auto simp: Let_def split: if_splits)
        moreover have "written (tl (dropWhile (\<lambda>x. x \<noteq> CHR ''}'') es))"
          using 2 c cs True ds calculation by (auto simp: Let_def)
        ultimately show ?thesis using written_date [of es str] c cs True ds by simp
      next
        case False
        obtain it where it: "map_of itemMap d = Some it"
          using 2(9) c cs d init_loop_error [of True]
          by (cases "map_of itemMap d") (auto simp: Let_def split: if_splits)
        have "written ds"
          using 2 c cs d False it by (cases ds) (auto simp: Let_def split: if_splits)
        then show ?thesis using written_field [of ds d it str] it False c cs by simp
      qed
    qed
  qed
qed

text \<open>C13: The parser of log patterns reports no error for exactly the patterns that are written
  from known fields, dates and literal text, and then finds exactly their items: literal text,
  with its doubled percent signs undone, in front of each directive and the directive itself.
  Text behind the last directive is accepted and never printed.\<close>

theorem formatter_accepts:
  "(\<not> fm_error (new_LogFormatter p) \<longleftrightarrow> (\<exists>ps trail. pattern_wf ps trail \<and> p = pattern_text ps trail)) \<and>
   (\<forall>ps trail. pattern_wf ps trail \<and> p = pattern_text ps trail \<longrightarrow>
      fm_items (new_LogFormatter p) = pattern_items ps)"
proof -
  have "written p" if "\<not> fm_error (new_LogFormatter p)"
    using init_loop_accepts [of p "[]" "[]" False] that
    by (simp add: new_LogFormatter_def split: prod.splits)
  then show ?thesis by (auto simp: written_def new_LogFormatter_def init_loop_pattern)
qed

lemma default_pattern_written:
  "pattern_wf
     [([], Date default_date), ([], Field CHR ''T''), (''['', Field CHR ''p''),
      ('']'', Field CHR ''T''), (''['', Field CHR ''c''), ('']'', Field CHR ''T''),
      ([], Field CHR ''t''), ([], Field CHR ''T''), ([], Field CHR ''N''), ([], Field CHR ''T''),
      ([], Field CHR ''F''), ([], Field CHR ''T''), ([], Field CHR ''T''), ([], Field CHR ''f''),
      ('':'', Field CHR ''l''), ([], Field CHR ''T''), ([], Field CHR ''m''), ([], Field CHR ''n'')] [] \<and>
   default_pattern = pattern_text
     [([], Date default_date), ([], Field CHR ''T''), (''['', Field CHR ''p''),
      ('']'', Field CHR ''T''), (''['', Field CHR ''c''), ('']'', Field CHR ''T''),
      ([], Field CHR ''t''), ([], Field CHR ''T''), ([], Field CHR ''N''), ([], Field CHR ''T''),
      ([], Field CHR ''F''), ([], Field CHR ''T''), ([], Field CHR ''T''), ([], Field CHR ''f''),
      ('':'', Field CHR ''l''), ([], Field CHR ''T''), ([], Field CHR ''m''), ([], Field CHR ''n'')] []"
  by (simp add: default_pattern_def default_date_def itemMap_def escape_def)

theorem formatter_accepts_witness:
  "\<not> fm_error (new_LogFormatter default_pattern) \<and>
   fm_items (new_LogFormatter ''[%p] 100%% %m tail'') =
     [StringItem ''['', LevelItem, StringItem ''] 100% '', MessageItem] \<and>
   fm_error (new_LogFormatter ''%m%q'')"
proof (intro conjI)
  show "\<not> fm_error (new_LogFormatter default_pattern)"
    using default_pattern_written formatter_accepts [of default_pattern] by blast
  let ?ps = "[(''['', Field CHR ''p''), (''] 100% '', Field CHR ''m'')]"
  have "pattern_wf ?ps '' tail'' \<and> ''[%p] 100%% %m tail'' = pattern_text ?ps '' tail''"
    by (simp add: itemMap_def)
  then have "fm_items (new_LogFormatter ''[%p] 100%% %m tail'') = pattern_items ?ps"
    using formatter_accepts [of "''[%p] 100%% %m tail''"] by blast
  then show "fm_items (new_LogFormatter ''[%p] 100%% %m tail'') =
     [StringItem ''['', LevelItem, StringItem ''] 100% '', MessageItem]"
    by (simp add: pattern_items_def itemMap_def flush_def)
  show "fm_error (new_LogFormatter ''%m%q'')"
    by (simp add: new_LogFormatter_def itemMap_def)
qed

end
