(* ===== verification/Logging.thy ===== *)
theory Logging
  imports Log_Format
begin

text \<open>
  Appenders, loggers, the logger manager and the application of log definitions
  (\<^verbatim>\<open>log.cpp\<close>).  Loggers and appenders are shared by pointers: they live in two stores whose
  addresses are list positions.  A null pointer that is dereferenced and a lock that is taken
  twice are errors; so is the exception a bad pattern raises.
\<close>

section \<open>State\<close>

datatype log_failure = NullPointer | Deadlock | PatternError

text \<open>\<^verbatim>\<open>StdOutLogAppender\<close> and \<^verbatim>\<open>FileLogAppender\<close>, the latter with its file name, whether its
  stream is open, and \<^verbatim>\<open>m_last_time\<close>.\<close>

datatype appender_kind = StdOut | File (ak_filename: string) (ak_open: bool) (ak_last_time: u64)

record LogAppender =
  ap_formatter :: "LogFormatter option"
  ap_level :: LogLevel
  ap_has_formatter :: bool
  ap_kind :: appender_kind

record Logger =
  lg_name :: string
  lg_level :: LogLevel
  lg_root :: "nat option"
  lg_formatter :: "LogFormatter option"
  lg_appenders :: "nat list"

text \<open>The stores, the manager (its table and its root) and what was written: the text on the
  standard output and the text of every file.\<close>

record log_state =
  loggers :: "Logger list"
  appenders :: "LogAppender list"
  m_loggers :: "string \<rightharpoonup> nat"
  m_root :: nat
  console :: string
  files :: "string \<Rightarrow> string"

text \<open>The environment of a call: the text of a time, the clock as each appender reads it, and
  which files can be opened for writing (after their directory was made).\<close>

record log_env =
  time_text :: "string \<Rightarrow> u64 \<Rightarrow> string"
  time_now :: "nat \<Rightarrow> u64"
  can_open :: "string \<Rightarrow> bool"

definition upd_appender :: "nat \<Rightarrow> (LogAppender \<Rightarrow> LogAppender) \<Rightarrow> log_state \<Rightarrow> log_state" where
  "upd_appender a f w = w\<lparr>appenders := (appenders w)[a := f (appenders w ! a)]\<rparr>"

definition upd_logger :: "nat \<Rightarrow> (Logger \<Rightarrow> Logger) \<Rightarrow> log_state \<Rightarrow> log_state" where
  "upd_logger l f w = w\<lparr>loggers := (loggers w)[l := f (loggers w ! l)]\<rparr>"

section \<open>Appenders\<close>

definition new_LogAppender :: "appender_kind \<Rightarrow> LogAppender" where
  "new_LogAppender kind =
     \<lparr>ap_formatter = None, ap_level = DEBUG, ap_has_formatter = False, ap_kind = kind\<rparr>"

definition ap_setFormatter :: "LogFormatter option \<Rightarrow> LogAppender \<Rightarrow> LogAppender" where
  "ap_setFormatter f ap = ap\<lparr>ap_formatter := f, ap_has_formatter := f \<noteq> None\<rparr>"

definition ap_setLevel :: "LogLevel \<Rightarrow> LogAppender \<Rightarrow> LogAppender" where
  "ap_setLevel level ap = ap\<lparr>ap_level := level\<rparr>"

text \<open>\<^verbatim>\<open>FileLogAppender::reopen\<close>: a stream that is open is closed, then the file is opened.\<close>

definition reopen :: "log_env \<Rightarrow> appender_kind \<Rightarrow> appender_kind" where
  "reopen env k = File (ak_filename k) (can_open env (ak_filename k)) (ak_last_time k)"

definition new_FileLogAppender :: "log_env \<Rightarrow> string \<Rightarrow> LogAppender" where
  "new_FileLogAppender env filename = new_LogAppender (reopen env (File filename False 0))"

definition event_text ::
  "log_env \<Rightarrow> log_state \<Rightarrow> LogFormatter \<Rightarrow> LogLevel \<Rightarrow> LogEvent \<Rightarrow> string" where
  "event_text env w f level ev =
     formatter_format (time_text env) f (lg_name (loggers w ! ev_logger ev)) level ev"

text \<open>\<^verbatim>\<open>log\<close> of both kinds of appenders.  Text for a stream that is not open is lost.\<close>

definition appender_log ::
  "log_env \<Rightarrow> log_state \<Rightarrow> nat \<Rightarrow> LogLevel \<Rightarrow> LogEvent \<Rightarrow> log_failure + log_state" where
  "appender_log env w a level ev =
     (let ap = appenders w ! a in
      case ap_kind ap of
        StdOut \<Rightarrow>
          if level \<ge> ap_level ap then
            (case ap_formatter ap of
               None \<Rightarrow> Inl NullPointer
             | Some f \<Rightarrow> Inr (w\<lparr>console := console w @ event_text env w f level ev\<rparr>))
          else Inr w
      | File filename is_open last_time \<Rightarrow>
          let kind = (if last_time < time_now env a - 3 then reopen env (ap_kind ap) else ap_kind ap);
              w = upd_appender a (\<lambda>ap. ap\<lparr>ap_kind := kind\<rparr>) w in
          if level \<ge> ap_level ap then
            (case ap_formatter ap of
               None \<Rightarrow> Inl NullPointer
             | Some f \<Rightarrow>
                 Inr (if ak_open kind
                      then w\<lparr>files := (files w)(filename := files w filename @ event_text env w f level ev)\<rparr>
                      else w))
          else Inr w)"

fun appenders_log ::
  "log_env \<Rightarrow> log_state \<Rightarrow> nat list \<Rightarrow> LogLevel \<Rightarrow> LogEvent \<Rightarrow> log_failure + log_state" where
  "appenders_log env w [] level ev = Inr w"
| "appenders_log env w (a # as) level ev =
     rbind (appender_log env w a level ev) (\<lambda>w. appenders_log env w as level ev)"

section \<open>Loggers\<close>

definition new_Logger :: "string \<Rightarrow> Logger" where
  "new_Logger name =
     \<lparr>lg_name = name, lg_level = DEBUG, lg_root = None,
      lg_formatter = Some (new_LogFormatter default_pattern), lg_appenders = []\<rparr>"

text \<open>\<^verbatim>\<open>Logger::log\<close>: \<open>held\<close> are the loggers whose lock the calls on the stack hold; the spin lock
  is not recursive.\<close>

function logger_log ::
  "log_env \<Rightarrow> nat list \<Rightarrow> log_state \<Rightarrow> nat \<Rightarrow> LogLevel \<Rightarrow> LogEvent \<Rightarrow> log_failure + log_state" where
  "logger_log env held w l level ev =
     (if \<not> l < length (loggers w) then Inl NullPointer
      else if \<not> level \<ge> lg_level (loggers w ! l) then Inr w
      else if l \<in> set held then Inl Deadlock
      else if lg_appenders (loggers w ! l) = [] then
        (case lg_root (loggers w ! l) of
           None \<Rightarrow> Inl NullPointer
         | Some r \<Rightarrow> logger_log env (l # held) w r level ev)
      else appenders_log env w (lg_appenders (loggers w ! l)) level ev)"
  by pat_completeness auto
termination
proof (relation "measure (\<lambda>(env, held, w, l, level, ev). card ({..<length (loggers w)} - set held))",
    goal_cases)
  case (2 env held w l level ev r)
  then have "{..<length (loggers w)} - set (l # held) \<subset> {..<length (loggers w)} - set held" by auto
  then show ?case by (auto intro!: psubset_card_mono)
qed simp

declare logger_log.simps [simp del]

definition log_debug :: "log_env \<Rightarrow> log_state \<Rightarrow> nat \<Rightarrow> LogEvent \<Rightarrow> log_failure + log_state" where
  "log_debug env w l ev = logger_log env [] w l DEBUG ev"

definition log_info :: "log_env \<Rightarrow> log_state \<Rightarrow> nat \<Rightarrow> LogEvent \<Rightarrow> log_failure + log_state" where
  "log_info env w l ev = logger_log env [] w l INFO ev"

definition log_warn :: "log_env \<Rightarrow> log_state \<Rightarrow> nat \<Rightarrow> LogEvent \<Rightarrow> log_failure + log_state" where
  "log_warn env w l ev = logger_log env [] w l WARN ev"

definition log_error :: "log_env \<Rightarrow> log_state \<Rightarrow> nat \<Rightarrow> LogEvent \<Rightarrow> log_failure + log_state" where
  "log_error env w l ev = logger_log env [] w l ERROR ev"

definition log_fatal :: "log_env \<Rightarrow> log_state \<Rightarrow> nat \<Rightarrow> LogEvent \<Rightarrow> log_failure + log_state" where
  "log_fatal env w l ev = logger_log env [] w l FATAL ev"

text \<open>The macro \<^verbatim>\<open>XZMJX_LOG_LEVEL\<close>: the event is made when the level passes, and logged by the
  destructor of \<^verbatim>\<open>LogEventWrap\<close> after the message was streamed into it.\<close>

definition XZMJX_LOG_LEVEL ::
  "log_env \<Rightarrow> log_state \<Rightarrow> nat \<Rightarrow> LogLevel \<Rightarrow> string \<Rightarrow> u32 \<Rightarrow> u32 \<Rightarrow> u32 \<Rightarrow> u64 \<Rightarrow> string \<Rightarrow> string \<Rightarrow>
   log_failure + log_state" where
  "XZMJX_LOG_LEVEL env w l level filename line thread_id fiber_id time thread_name message =
     (if lg_level (loggers w ! l) \<le> level then
        let ev = new_LogEvent l level filename line 0 thread_id fiber_id time thread_name;
            ev = ev\<lparr>ev_sstream := ev_sstream ev @ message\<rparr>
        in logger_log env [] w (ev_logger ev) (ev_level ev) ev
      else Inr w)"

definition addAppender :: "nat \<Rightarrow> nat option \<Rightarrow> log_state \<Rightarrow> log_state" where
  "addAppender l appender w =
     (case appender of
        None \<Rightarrow> w
      | Some a \<Rightarrow>
          let ap = appenders w ! a;
              w = (if ap_formatter ap = None \<and> \<not> ap_has_formatter ap
                   then upd_appender a (\<lambda>ap. ap\<lparr>ap_formatter := lg_formatter (loggers w ! l)\<rparr>) w
                   else w)
          in upd_logger l (\<lambda>lg. lg\<lparr>lg_appenders := lg_appenders lg @ [a]\<rparr>) w)"

definition delAppender :: "nat \<Rightarrow> nat \<Rightarrow> log_state \<Rightarrow> log_state" where
  "delAppender l a w = upd_logger l (\<lambda>lg. lg\<lparr>lg_appenders := remove1 a (lg_appenders lg)\<rparr>) w"

definition clearAppender :: "nat \<Rightarrow> log_state \<Rightarrow> log_state" where
  "clearAppender l w = upd_logger l (\<lambda>lg. lg\<lparr>lg_appenders := []\<rparr>) w"

definition setLevel :: "nat \<Rightarrow> LogLevel \<Rightarrow> log_state \<Rightarrow> log_state" where
  "setLevel l level w = upd_logger l (\<lambda>lg. lg\<lparr>lg_level := level\<rparr>) w"

definition setRoot :: "nat \<Rightarrow> nat option \<Rightarrow> log_state \<Rightarrow> log_state" where
  "setRoot l root w = upd_logger l (\<lambda>lg. lg\<lparr>lg_root := root\<rparr>) w"

text \<open>The formatter is passed on to the appenders that have none of their own.\<close>

fun pass_formatter :: "LogFormatter option \<Rightarrow> nat list \<Rightarrow> log_state \<Rightarrow> log_state" where
  "pass_formatter f [] w = w"
| "pass_formatter f (a # as) w =
     pass_formatter f as
       (if \<not> ap_has_formatter (appenders w ! a) then upd_appender a (\<lambda>ap. ap\<lparr>ap_formatter := f\<rparr>) w
        else w)"

definition lg_setFormatter :: "nat \<Rightarrow> LogFormatter option \<Rightarrow> log_state \<Rightarrow> log_state" where
  "lg_setFormatter l f w =
     (let w = upd_logger l (\<lambda>lg. lg\<lparr>lg_formatter := f\<rparr>) w
      in pass_formatter f (lg_appenders (loggers w ! l)) w)"

definition lg_setPattern :: "nat \<Rightarrow> string \<Rightarrow> log_state \<Rightarrow> log_failure + log_state" where
  "lg_setPattern l pattern w =
     (let val = new_LogFormatter pattern in
      if fm_error val then Inl PatternError else Inr (lg_setFormatter l (Some val) w))"

section \<open>The manager\<close>

definition new_appender :: "LogAppender \<Rightarrow> log_state \<Rightarrow> nat \<times> log_state" where
  "new_appender ap w = (length (appenders w), w\<lparr>appenders := appenders w @ [ap]\<rparr>)"

text \<open>The constructor: the root logger with one appender for the standard output.\<close>

definition new_LoggerManager :: log_state where
  "new_LoggerManager =
     (let w = \<lparr>loggers = [new_Logger ''root''], appenders = [new_LogAppender StdOut],
               m_loggers = Map.empty, m_root = 0, console = [], files = (\<lambda>_. [])\<rparr>;
          w = addAppender 0 (Some 0) w
      in w\<lparr>m_loggers := (m_loggers w)(lg_name (loggers w ! 0) \<mapsto> 0)\<rparr>)"

definition getLogger :: "string \<Rightarrow> log_state \<Rightarrow> nat \<times> log_state" where
  "getLogger name w =
     (case m_loggers w name of
        Some l \<Rightarrow> (l, w)
      | None \<Rightarrow>
          let l = length (loggers w);
              w = setRoot l (Some (m_root w)) (w\<lparr>loggers := loggers w @ [new_Logger name]\<rparr>)
          in (l, w\<lparr>m_loggers := (m_loggers w)(lg_name (loggers w ! l) \<mapsto> l)\<rparr>))"

definition delLogger :: "string \<Rightarrow> log_state \<Rightarrow> log_state" where
  "delLogger name w = w\<lparr>m_loggers := (m_loggers w)(name := None)\<rparr>"

section \<open>Where a message goes\<close>

text \<open>What a call of \<open>log\<close> may change of the appenders is whether their streams are open.\<close>

definition ap_view :: "LogAppender \<Rightarrow> LogFormatter option \<times> LogLevel \<times> bool \<times> (string \<times> u64) option" where
  "ap_view ap = (ap_formatter ap, ap_level ap, ap_has_formatter ap,
     (case ap_kind ap of StdOut \<Rightarrow> None | File filename is_open noted \<Rightarrow> Some (filename, noted)))"

definition same_setup :: "log_state \<Rightarrow> log_state \<Rightarrow> bool" where
  "same_setup w w' \<longleftrightarrow>
     loggers w' = loggers w \<and> m_loggers w' = m_loggers w \<and> m_root w' = m_root w \<and>
     map ap_view (appenders w') = map ap_view (appenders w)"

lemma same_setup_refl [simp]: "same_setup w w"
  by (simp add: same_setup_def)

lemma same_setup_trans: "same_setup w w' \<Longrightarrow> same_setup w' w'' \<Longrightarrow> same_setup w w''"
  by (simp add: same_setup_def)

lemma same_setup_length: "same_setup w w' \<Longrightarrow> length (appenders w') = length (appenders w)"
  unfolding same_setup_def by (metis length_map)

lemma same_setup_view:
  "same_setup w w' \<Longrightarrow> a < length (appenders w) \<Longrightarrow>
   ap_view (appenders w' ! a) = ap_view (appenders w ! a)"
  using same_setup_length [of w w'] unfolding same_setup_def by (metis nth_map)

text \<open>The text an appender puts on the standard output, and into a file.\<close>

definition console_text ::
  "log_env \<Rightarrow> log_state \<Rightarrow> LogLevel \<Rightarrow> LogEvent \<Rightarrow> nat \<Rightarrow> string" where
  "console_text env w level ev a =
     (case ap_view (appenders w ! a) of
        (Some f, lv, h, None) \<Rightarrow> if lv \<le> level then event_text env w f level ev else []
      | _ \<Rightarrow> [])"

definition file_text ::
  "log_env \<Rightarrow> log_state \<Rightarrow> LogLevel \<Rightarrow> LogEvent \<Rightarrow> string \<Rightarrow> nat \<Rightarrow> string" where
  "file_text env w level ev filename a =
     (case ap_view (appenders w ! a) of
        (Some f, lv, h, Some (fn, noted)) \<Rightarrow>
          if fn = filename \<and> lv \<le> level \<and> can_open env fn then event_text env w f level ev else []
      | _ \<Rightarrow> [])"

lemma texts_same_setup:
  assumes "same_setup w w'" and "a < length (appenders w)"
  shows "console_text env w' level ev a = console_text env w level ev a"
    and "file_text env w' level ev f a = file_text env w level ev f a"
proof -
  have "event_text env w' = event_text env w"
    using assms(1) by (intro ext) (simp add: event_text_def same_setup_def)
  then show "console_text env w' level ev a = console_text env w level ev a"
    and "file_text env w' level ev f a = file_text env w level ev f a"
    unfolding console_text_def file_text_def same_setup_view [OF assms] by (simp_all only:)
qed

text \<open>An appender that is attached has a formatter; no appender ever notes a time.\<close>

definition ap_ready :: "log_state \<Rightarrow> nat \<Rightarrow> bool" where
  "ap_ready w a \<longleftrightarrow> a < length (appenders w) \<and> ap_formatter (appenders w ! a) \<noteq> None"

definition ap_ok :: "LogAppender \<Rightarrow> bool" where
  "ap_ok ap \<longleftrightarrow>
     (case ap_kind ap of StdOut \<Rightarrow> True | File filename is_open noted \<Rightarrow> noted = 0) \<and>
     (ap_has_formatter ap \<longrightarrow> ap_formatter ap \<noteq> None)"

lemma ap_ok_view:
  "ap_ok ap \<longleftrightarrow>
     (case ap_view ap of (f, _, h, n) \<Rightarrow> (case n of Some (_, noted) \<Rightarrow> noted = 0 | None \<Rightarrow> True) \<and> (h \<longrightarrow> f \<noteq> None))"
  by (simp add: ap_ok_def ap_view_def split: appender_kind.split)

lemma late_enough: "now \<noteq> 3 \<Longrightarrow> (0 :: u64) < now - 3"
  by (simp add: word_gt_0)

lemma appender_log_delivers:
  assumes "ap_ready w a" and "ap_ok (appenders w ! a)" and "time_now env a \<noteq> 3"
  shows "\<exists>w'. appender_log env w a level ev = Inr w' \<and> same_setup w w' \<and>
    console w' = console w @ console_text env w level ev a \<and>
    (\<forall>f. files w' f = files w f @ file_text env w level ev f a)"
proof -
  obtain f where f: "ap_formatter (appenders w ! a) = Some f" and a: "a < length (appenders w)"
    using assms(1) by (auto simp: ap_ready_def)
  show ?thesis
  proof (cases "ap_kind (appenders w ! a)")
    case StdOut
    then show ?thesis
      using f by (auto simp: appender_log_def Let_def console_text_def file_text_def ap_view_def
          same_setup_def)
  next
    case (File fn is_open noted)
    let ?kind = "File fn (can_open env fn) noted"
    have late: "noted < time_now env a - 3"
      using assms(2,3) late_enough by (simp add: ap_ok_def File)
    have "map ap_view ((appenders w)[a := (appenders w ! a)\<lparr>ap_kind := ?kind\<rparr>]) = map ap_view (appenders w)"
      using a by (simp add: map_update list_update_same_conv ap_view_def File)
    then show ?thesis
      using f File late
      by (auto simp: appender_log_def Let_def console_text_def file_text_def ap_view_def
          same_setup_def reopen_def upd_appender_def event_text_def)
  qed
qed

lemma appenders_log_delivers:
  assumes "\<forall>a \<in> set as. ap_ready w a" and "\<forall>ap \<in> set (appenders w). ap_ok ap"
    and "\<forall>a. time_now env a \<noteq> 3"
  shows "\<exists>w'. appenders_log env w as level ev = Inr w' \<and> same_setup w w' \<and>
    console w' = console w @ concat (map (console_text env w level ev) as) \<and>
    (\<forall>f. files w' f = files w f @ concat (map (file_text env w level ev f) as))"
  using assms(1,2)
proof (induction as arbitrary: w)
  case (Cons a as)
  have a: "a < length (appenders w)" using Cons.prems(1) by (simp add: ap_ready_def)
  obtain w1 where w1: "appender_log env w a level ev = Inr w1" "same_setup w w1"
      "console w1 = console w @ console_text env w level ev a"
      "\<And>f. files w1 f = files w f @ file_text env w level ev f a"
    using appender_log_delivers [of w a env level ev] Cons.prems a assms(3) by auto
  have len: "length (appenders w1) = length (appenders w)" using w1(2) by (rule same_setup_length)
  have view: "ap_view (appenders w1 ! b) = ap_view (appenders w ! b)" if "b < length (appenders w)" for b
    using same_setup_view [OF w1(2) that] .
  have ready: "\<forall>b \<in> set as. ap_ready w1 b"
    using Cons.prems(1) view len by (fastforce simp: ap_ready_def ap_view_def)
  have nn: "\<forall>ap \<in> set (appenders w1). ap_ok ap"
    using Cons.prems(2) view len by (auto simp: ap_ok_view all_set_conv_all_nth)
  have small: "b < length (appenders w)" if "b \<in> set as" for b
    using Cons.prems(1) that by (simp add: ap_ready_def)
  obtain w2 where w2: "appenders_log env w1 as level ev = Inr w2" "same_setup w1 w2"
      "console w2 = console w1 @ concat (map (console_text env w1 level ev) as)"
      "\<And>f. files w2 f = files w1 f @ concat (map (file_text env w1 level ev f) as)"
    using Cons.IH [OF ready nn] by auto
  have maps: "map (console_text env w1 level ev) as = map (console_text env w level ev) as"
    "\<And>f. map (file_text env w1 level ev f) as = map (file_text env w level ev f) as"
    using texts_same_setup [OF w1(2) small] by simp_all
  show ?case
    using w1(1,3,4) w2 same_setup_trans [OF w1(2) w2(2)] maps by simp
qed simp

section \<open>Invariant\<close>

definition log_ok :: "log_state \<Rightarrow> bool" where
  "log_ok w \<longleftrightarrow>
     m_root w < length (loggers w) \<and> lg_root (loggers w ! m_root w) = None \<and>
     (\<forall>l < length (loggers w). l \<noteq> m_root w \<longrightarrow> lg_root (loggers w ! l) = Some (m_root w)) \<and>
     (\<forall>lg \<in> set (loggers w). lg_formatter lg \<noteq> None \<and> (\<forall>a \<in> set (lg_appenders lg). ap_ready w a)) \<and>
     (\<forall>ap \<in> set (appenders w). ap_ok ap) \<and>
     (\<forall>name l. m_loggers w name = Some l \<longrightarrow> l < length (loggers w) \<and> lg_name (loggers w ! l) = name)"

text \<open>The appenders that receive a message of a level; \<open>None\<close> when the null pointer of the root
  logger is followed.\<close>

definition route :: "log_state \<Rightarrow> nat \<Rightarrow> LogLevel \<Rightarrow> nat list option" where
  "route w l level =
     (let lg = loggers w ! l; root = loggers w ! m_root w in
      if level < lg_level lg then Some []
      else if lg_appenders lg \<noteq> [] then Some (lg_appenders lg)
      else if l = m_root w then None
      else if level < lg_level root then Some []
      else if lg_appenders root = [] then None
      else Some (lg_appenders root))"

lemma logger_log_route:
  assumes "log_ok w" and "l < length (loggers w)"
  shows "logger_log env [] w l level ev =
    (case route w l level of None \<Rightarrow> Inl NullPointer | Some as \<Rightarrow> appenders_log env w as level ev)"
proof -
  have root: "m_root w < length (loggers w)" "lg_root (loggers w ! m_root w) = None"
    using assms(1) by (simp_all add: log_ok_def)
  have at_root: "logger_log env [l] w (m_root w) level ev =
      (if level < lg_level (loggers w ! m_root w) then Inr w
       else if lg_appenders (loggers w ! m_root w) = [] then Inl NullPointer
       else appenders_log env w (lg_appenders (loggers w ! m_root w)) level ev)" if "l \<noteq> m_root w"
    using root that by (subst logger_log.simps) (auto simp: not_le)
  have "lg_root (loggers w ! l) = Some (m_root w)" if "l \<noteq> m_root w"
    using assms that by (simp add: log_ok_def)
  then show ?thesis
    using assms(2) root at_root
    by (subst logger_log.simps) (auto simp: route_def Let_def not_le)
qed

lemma route_ready:
  assumes "log_ok w" and "l < length (loggers w)" and "route w l level = Some as"
  shows "\<forall>a \<in> set as. ap_ready w a"
proof -
  have "m_root w < length (loggers w)" using assms(1) by (simp add: log_ok_def)
  moreover have "\<forall>a \<in> set (lg_appenders (loggers w ! i)). ap_ready w a" if "i < length (loggers w)" for i
    using assms(1) nth_mem [OF that] unfolding log_ok_def by blast
  ultimately show ?thesis
    using assms(2,3) by (auto simp: route_def Let_def split: if_splits)
qed

lemma logger_log_delivers:
  assumes "log_ok w" and "l < length (loggers w)" and "route w l level = Some as"
    and "\<forall>a. time_now env a \<noteq> 3"
  shows "\<exists>w'. logger_log env [] w l level ev = Inr w' \<and> same_setup w w' \<and>
    console w' = console w @ concat (map (console_text env w level ev) as) \<and>
    (\<forall>f. files w' f = files w f @ concat (map (file_text env w level ev f) as))"
  using appenders_log_delivers [OF route_ready [OF assms(1-3)] _ assms(4)] assms
  by (simp add: logger_log_route log_ok_def)

subsection \<open>Every operation keeps the invariant\<close>

text \<open>A change of the appenders that leaves attached ones their formatters, and of the loggers
  that leaves names and roots.\<close>

lemma log_okI:
  assumes "log_ok w" and "m_root w' = m_root w" and "m_loggers w' = m_loggers w"
    and "length (loggers w') = length (loggers w)"
    and "\<And>l. l < length (loggers w) \<Longrightarrow>
      lg_name (loggers w' ! l) = lg_name (loggers w ! l) \<and> lg_root (loggers w' ! l) = lg_root (loggers w ! l)"
    and "\<And>l. l < length (loggers w) \<Longrightarrow> lg_formatter (loggers w' ! l) \<noteq> None"
    and "\<And>l a. l < length (loggers w) \<Longrightarrow> a \<in> set (lg_appenders (loggers w' ! l)) \<Longrightarrow> ap_ready w' a"
    and "\<forall>ap \<in> set (appenders w'). ap_ok ap"
  shows "log_ok w'"
  using assms unfolding log_ok_def
  by (simp add: all_set_conv_all_nth)

lemma log_ok_attached:
  "log_ok w \<Longrightarrow> l < length (loggers w) \<Longrightarrow> a \<in> set (lg_appenders (loggers w ! l)) \<Longrightarrow> ap_ready w a"
  unfolding log_ok_def by (meson nth_mem)

lemma log_ok_formatter:
  "log_ok w \<Longrightarrow> l < length (loggers w) \<Longrightarrow> lg_formatter (loggers w ! l) \<noteq> None"
  unfolding log_ok_def by (meson nth_mem)

lemma log_ok_noted: "log_ok w \<Longrightarrow> \<forall>ap \<in> set (appenders w). ap_ok ap"
  by (simp add: log_ok_def)

lemma upd_logger_simps [simp]:
  "m_root (upd_logger l g w) = m_root w" "m_loggers (upd_logger l g w) = m_loggers w"
  "appenders (upd_logger l g w) = appenders w" "length (loggers (upd_logger l g w)) = length (loggers w)"
  "console (upd_logger l g w) = console w" "files (upd_logger l g w) = files w"
  by (simp_all add: upd_logger_def)

lemma upd_appender_simps [simp]:
  "m_root (upd_appender a g w) = m_root w" "m_loggers (upd_appender a g w) = m_loggers w"
  "loggers (upd_appender a g w) = loggers w" "length (appenders (upd_appender a g w)) = length (appenders w)"
  "console (upd_appender a g w) = console w" "files (upd_appender a g w) = files w"
  by (simp_all add: upd_appender_def)

lemma nth_upd_logger:
  "l' < length (loggers w) \<Longrightarrow>
   loggers (upd_logger l g w) ! l' = (if l' = l then g (loggers w ! l) else loggers w ! l')"
  by (simp add: upd_logger_def nth_list_update)

lemma nth_upd_appender:
  "a' < length (appenders w) \<Longrightarrow>
   appenders (upd_appender a g w) ! a' = (if a' = a then g (appenders w ! a) else appenders w ! a')"
  by (simp add: upd_appender_def nth_list_update)

lemma ap_ready_upd_logger [simp]: "ap_ready (upd_logger l g w) a = ap_ready w a"
  by (simp add: ap_ready_def)

lemma log_ok_upd_logger:
  assumes "log_ok w" and "l < length (loggers w)"
    and "lg_name (g (loggers w ! l)) = lg_name (loggers w ! l)"
    and "lg_root (g (loggers w ! l)) = lg_root (loggers w ! l)"
    and "lg_formatter (g (loggers w ! l)) \<noteq> None"
    and "\<And>a. a \<in> set (lg_appenders (g (loggers w ! l))) \<Longrightarrow> ap_ready w a"
  shows "log_ok (upd_logger l g w)"
  using assms log_ok_attached [OF assms(1)] log_ok_formatter [OF assms(1)] log_ok_noted [OF assms(1)]
  by (intro log_okI [OF assms(1)]) (auto simp: nth_upd_logger split: if_splits)

lemma log_ok_upd_appender:
  assumes "log_ok w" and "ap_formatter (g (appenders w ! a)) \<noteq> None \<or> ap_formatter (appenders w ! a) = None"
    and "ap_ok (appenders w ! a) \<Longrightarrow> ap_ok (g (appenders w ! a))"
  shows "log_ok (upd_appender a g w)"
proof (rule log_okI [OF assms(1)])
  show "ap_ready (upd_appender a g w) b"
    if "l < length (loggers w)" "b \<in> set (lg_appenders (loggers (upd_appender a g w) ! l))" for l b
    using log_ok_attached [OF assms(1) that(1), of b] that(2) assms(2)
    by (auto simp: ap_ready_def nth_upd_appender)
  show "\<forall>ap \<in> set (appenders (upd_appender a g w)). ap_ok ap"
  proof (cases "a < length (appenders w)")
    case True
    then have "ap_ok (g (appenders w ! a))"
      using log_ok_noted [OF assms(1)] assms(3) by simp
    then show ?thesis
      using log_ok_noted [OF assms(1)]
      by (auto simp: upd_appender_def dest!: set_update_subset_insert [THEN subsetD])
  next
    case False
    then show ?thesis using log_ok_noted [OF assms(1)] by (simp add: upd_appender_def list_update_beyond)
  qed
qed (use log_ok_formatter [OF assms(1)] in auto)


lemma log_ok_addAppender:
  assumes "log_ok w" and "l < length (loggers w)" and "\<And>a. appender = Some a \<Longrightarrow>
a < length (appenders w)"
  shows "log_ok (addAppender l appender w)"
proof (cases appender)
  case (Some a)
  let ?new = "ap_formatter (appenders w ! a) = None \<and> \<not> ap_has_formatter (appenders w ! a)"
  let ?w = "if ?new then upd_appender a (\<lambda>ap. ap\<lparr>ap_formatter := lg_formatter (loggers w ! l)\<rparr>) w else w"
  have ok: "log_ok ?w" using assms(1) by (auto simp: ap_ok_def intro: log_ok_upd_appender)
  have "ap_ok (appenders w ! a)" using log_ok_noted [OF assms(1)] assms(3) [OF Some] by simp
  then have "ap_ready ?w a"
    using assms(3) [OF Some] log_ok_formatter [OF assms(1,2)]
    by (auto simp: ap_ready_def nth_upd_appender ap_ok_def)
  then have "log_ok (upd_logger l (\<lambda>lg. lg\<lparr>lg_appenders := lg_appenders lg @ [a]\<rparr>) ?w)"
    using ok assms(2) log_ok_attached [OF ok, of l] log_ok_formatter [OF ok, of l]
    by (intro log_ok_upd_logger) (auto split: if_splits)
  then show ?thesis by (simp add: addAppender_def Let_def Some)
qed (simp add: addAppender_def assms(1))

lemma log_ok_pass_formatter: "log_ok w \<Longrightarrow> f \<noteq> None \<Longrightarrow> log_ok (pass_formatter f as w)"
proof (induction as arbitrary: w)
  case (Cons a as)
  have "log_ok (upd_appender a (\<lambda>ap. ap\<lparr>ap_formatter := f\<rparr>) w)"
    using Cons.prems by (intro log_ok_upd_appender) (auto simp: ap_ok_def)
  then show ?case using Cons by simp
qed simp

lemma log_ok_setFormatter:
  assumes "log_ok w" and "l < length (loggers w)" and "f \<noteq> None"
  shows "log_ok (lg_setFormatter l f w)"
  using assms log_ok_attached [OF assms(1,2)]
  by (auto simp: lg_setFormatter_def Let_def intro!: log_ok_pass_formatter log_ok_upd_logger)

lemma log_ok_setPattern:
  assumes "log_ok w" and "l < length (loggers w)" and "lg_setPattern l pattern w = Inr w'"
  shows "log_ok w'"
  using assms by (auto simp: lg_setPattern_def Let_def split: if_splits intro: log_ok_setFormatter)

lemma log_ok_logger_ops:
  assumes "log_ok w" and "l < length (loggers w)"
  shows "log_ok (delAppender l a w)" "log_ok (clearAppender l w)" "log_ok (setLevel l level w)"
  using assms log_ok_attached [OF assms] log_ok_formatter [OF assms] set_remove1_subset
  by (fastforce simp: delAppender_def clearAppender_def setLevel_def intro!: log_ok_upd_logger)+

lemma log_ok_ap_ops:
  assumes "log_ok w"
  shows "log_ok (upd_appender a (ap_setFormatter (Some f)) w)" "log_ok (upd_appender a (ap_setLevel level) w)"
  using assms by (auto simp: ap_ok_def ap_setFormatter_def ap_setLevel_def intro!: log_ok_upd_appender)

lemma ap_ready_new_appender: "ap_ready w a \<Longrightarrow> ap_ready (snd (new_appender ap w)) a"
  by (auto simp: ap_ready_def new_appender_def nth_append)

lemma log_ok_new_appender:
  assumes "log_ok w" and "ap_ok ap"
  shows "log_ok (snd (new_appender ap w))"
proof (rule log_okI [OF assms(1)])
  show "ap_ready (snd (new_appender ap w)) a"
    if "l < length (loggers w)" "a \<in> set (lg_appenders (loggers (snd (new_appender ap w)) ! l))" for l a
    using log_ok_attached [OF assms(1) that(1), of a] that(2) ap_ready_new_appender
    by (simp add: new_appender_def)
qed (use log_ok_formatter [OF assms(1)] log_ok_noted [OF assms(1)] assms(2) in
    \<open>auto simp: new_appender_def\<close>)

lemma log_ok_getLogger:
  assumes "log_ok w" and "getLogger name w = (l, w')"
  shows "log_ok w' \<and> l < length (loggers w') \<and> lg_name (loggers w' ! l) = name \<and>
    m_loggers w' name = Some l"
proof (cases "m_loggers w name")
  case None
  let ?new = "(new_Logger name)\<lparr>lg_root := Some (m_root w)\<rparr>"
  have l: "l = length (loggers w)"
    and w': "w' = w\<lparr>loggers := loggers w @ [?new], m_loggers := (m_loggers w)(name \<mapsto> l)\<rparr>"
    using assms(2) None
    by (auto simp: getLogger_def Let_def setRoot_def upd_logger_def new_Logger_def)
  have ready: "ap_ready w' = ap_ready w" by (intro ext) (simp add: ap_ready_def w')
  have "m_root w \<noteq> l" using assms(1) by (simp add: log_ok_def l)
  then show ?thesis
    using assms(1) unfolding log_ok_def ready
    by (auto simp: w' l nth_append new_Logger_def less_Suc_eq)
next
  case (Some l')
  then show ?thesis using assms by (auto simp: getLogger_def log_ok_def)
qed

lemma log_ok_delLogger: "log_ok w \<Longrightarrow> log_ok (delLogger name w)"
  by (auto simp: log_ok_def delLogger_def ap_ready_def)

lemma log_ok_same_setup:
  assumes "log_ok w" and "same_setup w w'"
  shows "log_ok w'"
proof (rule log_okI [OF assms(1)])
  have len: "length (appenders w') = length (appenders w)" using assms(2) by (rule same_setup_length)
  show "ap_ready w' a"
    if "l < length (loggers w)" "a \<in> set (lg_appenders (loggers w' ! l))" for l a
    using log_ok_attached [OF assms(1) that(1), of a] that(2) assms(2) same_setup_view [OF assms(2), of a] len
    by (auto simp: same_setup_def ap_ready_def ap_view_def)
  show "\<forall>ap \<in> set (appenders w'). ap_ok ap"
    using log_ok_noted [OF assms(1)] same_setup_view [OF assms(2)] len
    by (auto simp: ap_ok_view all_set_conv_all_nth)
qed (use assms log_ok_formatter [OF assms(1)] in \<open>auto simp: same_setup_def\<close>)

lemma log_ok_new: "log_ok new_LoggerManager"
  by (simp add: log_ok_def new_LoggerManager_def addAppender_def Let_def upd_appender_def upd_logger_def
      new_LogAppender_def new_Logger_def ap_ready_def ap_ok_def)

text \<open>The states that the operations of the interface lead to, from the manager's constructor.
  A call on the event of a logger the manager does not know any more is a call on an address as
  well: the pointer keeps the logger alive.  Excluded are loggers with a root set by hand and
  formatters that are null pointers.\<close>

inductive log_reach :: "log_state \<Rightarrow> bool" where
  start: "log_reach new_LoggerManager"
| getLogger: "log_reach w \<Longrightarrow> getLogger name w = (l, w') \<Longrightarrow> log_reach w'"
| delLogger: "log_reach w \<Longrightarrow> log_reach (delLogger name w)"
| new_stdout: "log_reach w \<Longrightarrow> log_reach (snd (new_appender (new_LogAppender StdOut) w))"
| new_file: "log_reach w \<Longrightarrow> log_reach (snd (new_appender (new_FileLogAppender env filename) w))"
| ap_setFormatter: "log_reach w \<Longrightarrow> log_reach (upd_appender a (ap_setFormatter (Some f)) w)"
| ap_setLevel: "log_reach w \<Longrightarrow> log_reach (upd_appender a (ap_setLevel level) w)"
| addAppender: "log_reach w \<Longrightarrow> l < length (loggers w) \<Longrightarrow> \<forall>a. appender = Some a \<longrightarrow> a < length (appenders w) \<Longrightarrow>
    log_reach (addAppender l appender w)"
| delAppender: "log_reach w \<Longrightarrow> l < length (loggers w) \<Longrightarrow> log_reach (delAppender l a w)"
| clearAppender: "log_reach w \<Longrightarrow> l < length (loggers w) \<Longrightarrow> log_reach (clearAppender l w)"
| setLevel: "log_reach w \<Longrightarrow> l < length (loggers w) \<Longrightarrow> log_reach (setLevel l level w)"
| setFormatter: "log_reach w \<Longrightarrow> l < length (loggers w) \<Longrightarrow> log_reach (lg_setFormatter l (Some f) w)"
| setPattern: "log_reach w \<Longrightarrow> l < length (loggers w) \<Longrightarrow> lg_setPattern l pattern w = Inr w' \<Longrightarrow> log_reach w'"
| log: "log_reach w \<Longrightarrow> l < length (loggers w) \<Longrightarrow> \<forall>a. time_now env a \<noteq> 3 \<Longrightarrow>
    logger_log env [] w l level ev = Inr w' \<Longrightarrow> log_reach w'"

lemmas log_ok_intros =
  log_ok_new log_ok_delLogger log_ok_ap_ops log_ok_addAppender log_ok_logger_ops log_ok_setFormatter

lemma ap_ok_new: "ap_ok (new_LogAppender StdOut)" "ap_ok (new_FileLogAppender env filename)"
  by (simp_all add: ap_ok_def new_LogAppender_def new_FileLogAppender_def reopen_def)

lemma log_ok_log:
  assumes "log_ok w" and "l < length (loggers w)" and "\<forall>a. time_now env a \<noteq> 3"
    and "logger_log env [] w l level ev = Inr w'"
  shows "log_ok w'"
  using logger_log_delivers [OF assms(1,2) _ assms(3), of level _ ev] logger_log_route [OF assms(1,2)]
    assms(4) log_ok_same_setup [OF assms(1)]
  by (cases "route w l level") auto

lemma log_reach_ok: "log_reach w \<Longrightarrow> log_ok w"
  by (induction rule: log_reach.induct)
    (auto intro: log_ok_intros log_ok_new_appender [OF _ ap_ok_new(1)]
      log_ok_new_appender [OF _ ap_ok_new(2)] log_ok_setPattern log_ok_log
      dest: log_ok_getLogger)

text \<open>C9: Where a message goes, in every state the logging interface leads to.  A message below
  the level of its logger goes nowhere; else it goes to the appenders of the logger, or, when it
  has none, to those of the root logger under the root's level; each appender prints it once, in
  order, when the level is high enough for the appender, with the name of the logger that was
  asked.  Nothing else of the set-up changes.  When the root logger is asked and has no appender
  the program follows a null pointer, and never is a lock taken twice.\<close>

theorem log_message_delivered:
  assumes "log_reach w" and "l < length (loggers w)" and "\<forall>a. time_now env a \<noteq> 3"
  shows "(case route w l level of
      None \<Rightarrow> logger_log env [] w l level ev = Inl NullPointer
    | Some as \<Rightarrow>
        (\<exists>w'. logger_log env [] w l level ev = Inr w' \<and> same_setup w w' \<and>
           console w' = console w @ concat (map (console_text env w level ev) as) \<and>
           (\<forall>f. files w' f = files w f @ concat (map (file_text env w level ev f) as))))"
  using logger_log_delivers [OF log_reach_ok [OF assms(1)] assms(2) _ assms(3), of level _ ev]
    logger_log_route [OF log_reach_ok [OF assms(1)] assms(2), of env level ev]
  by (auto split: option.split)

definition plain_env :: log_env where
  "plain_env = \<lparr>time_text = (\<lambda>fmt t. ''now''), time_now = (\<lambda>_. 1000), can_open = (\<lambda>f. f = ''a.log'')\<rparr>"

lemma reach_system: "log_reach (snd (getLogger ''system'' new_LoggerManager))"
  by (rule log_reach.getLogger [OF log_reach.start, of "''system''" "fst (getLogger ''system'' new_LoggerManager)"])
    simp

lemma reach_bare_root: "log_reach (clearAppender 0 new_LoggerManager)"
  by (rule log_reach.clearAppender [OF log_reach.start])
    (simp add: new_LoggerManager_def addAppender_def upd_appender_def upd_logger_def Let_def)

theorem log_message_delivered_witness:
  "(\<exists>w'. logger_log plain_env [] (snd (getLogger ''system'' new_LoggerManager)) 1 INFO
       (new_LogEvent 1 INFO ''f.cpp'' 7 0 2 3 0 ''t'') = Inr w' \<and> m_root w' = 0) \<and>
   logger_log plain_env [] (clearAppender 0 new_LoggerManager) 0 INFO
     (new_LogEvent 0 INFO ''f.cpp'' 7 0 2 3 0 ''t'') = Inl NullPointer"
proof
  let ?w = "snd (getLogger ''system'' new_LoggerManager)"
  have w: "length (loggers ?w) = 2" "m_root ?w = 0" "route ?w 1 INFO = Some [0]"
    by (simp_all add: route_def getLogger_def setRoot_def new_LoggerManager_def addAppender_def
        upd_appender_def upd_logger_def Let_def new_Logger_def new_LogAppender_def less_LogLevel_def)
  show "\<exists>w'. logger_log plain_env [] ?w 1 INFO (new_LogEvent 1 INFO ''f.cpp'' 7 0 2 3 0 ''t'') = Inr w' \<and>
      m_root w' = 0"
    using log_message_delivered [OF reach_system, of 1 plain_env INFO
        "new_LogEvent 1 INFO ''f.cpp'' 7 0 2 3 0 ''t''"] w
    by (auto simp: plain_env_def same_setup_def)
  let ?v = "clearAppender 0 new_LoggerManager"
  have v: "0 < length (loggers ?v)" "route ?v 0 INFO = None"
    by (simp_all add: clearAppender_def route_def new_LoggerManager_def addAppender_def
        upd_appender_def upd_logger_def Let_def new_Logger_def new_LogAppender_def less_LogLevel_def)
  show "logger_log plain_env [] ?v 0 INFO (new_LogEvent 0 INFO ''f.cpp'' 7 0 2 3 0 ''t'') = Inl NullPointer"
    using log_message_delivered [OF reach_bare_root, of 0 plain_env INFO
        "new_LogEvent 0 INFO ''f.cpp'' 7 0 2 3 0 ''t''"] v
    by (simp add: plain_env_def)
qed

end
