(* ===== verification/Log_Config.thy ===== *)
theory Log_Config
  imports Logging Ordered_Set "HOL-Library.List_Lexorder" "HOL-Library.Char_ord"
begin

text \<open>
  The definitions of loggers that come from the configuration (\<^verbatim>\<open>LogDefine\<close> and
  \<^verbatim>\<open>LogAppenderDefine\<close> of \<^verbatim>\<open>log.cpp\<close>) and the listener of \<^verbatim>\<open>LogIniter\<close> that applies a changed set of
  them to the loggers.
\<close>

section \<open>Definitions of loggers\<close>

record LogAppenderDefine =
  ad_type :: u32
  ad_level :: LogLevel
  ad_format :: string
  ad_file :: string

record LogDefine =
  ld_name :: string
  ld_level :: LogLevel
  ld_format :: string
  ld_appenders :: "LogAppenderDefine list"

definition new_LogAppenderDefine :: LogAppenderDefine where
  "new_LogAppenderDefine = \<lparr>ad_type = 0, ad_level = UNKONWN, ad_format = [], ad_file = []\<rparr>"

definition new_LogDefine :: LogDefine where
  "new_LogDefine = \<lparr>ld_name = [], ld_level = UNKONWN, ld_format = [], ld_appenders = []\<rparr>"

definition LogAppenderDefine_eq :: "LogAppenderDefine \<Rightarrow> LogAppenderDefine \<Rightarrow> bool" where
  "LogAppenderDefine_eq lhs rhs \<longleftrightarrow>
     ad_type lhs = ad_type rhs \<and> ad_level lhs = ad_level rhs \<and> ad_format lhs = ad_format rhs \<and>
     ad_file lhs = ad_file rhs"

text \<open>The comparison of definitions, as written: it compares the appenders of the left-hand side
  with themselves.\<close>

definition LogDefine_eq :: "LogDefine \<Rightarrow> LogDefine \<Rightarrow> bool" where
  "LogDefine_eq lhs rhs \<longleftrightarrow>
     ld_name lhs = ld_name rhs \<and> ld_level lhs = ld_level rhs \<and> ld_format lhs = ld_format rhs \<and>
     list_all2 LogAppenderDefine_eq (ld_appenders lhs) (ld_appenders lhs)"

definition LogDefine_less :: "LogDefine \<Rightarrow> LogDefine \<Rightarrow> bool" where
  "LogDefine_less lhs oth \<longleftrightarrow> ld_name lhs < ld_name oth"

definition isValid :: "LogDefine \<Rightarrow> bool" where
  "isValid d \<longleftrightarrow> ld_name d \<noteq> []"

text \<open>Equality of two sets of definitions: the same size and equal elements in order.\<close>

definition defines_eq :: "LogDefine list \<Rightarrow> LogDefine list \<Rightarrow> bool" where
  "defines_eq = list_all2 LogDefine_eq"

section \<open>The listener\<close>

definition apply_appender :: "log_env \<Rightarrow> string \<Rightarrow> nat \<Rightarrow> LogAppenderDefine \<Rightarrow> log_state \<Rightarrow> log_state" where
  "apply_appender env name l d w =
     (let (a, w) = new_appender
            (if ad_type d = 0 then new_LogAppender StdOut else new_FileLogAppender env (ad_file d)) w;
          w = upd_appender a (ap_setLevel (ad_level d)) w;
          w = (if ad_format d \<noteq> [] then
                 let f = new_LogFormatter (ad_format d) in
                 if \<not> fm_error f then upd_appender a (ap_setFormatter (Some f)) w
                 else w\<lparr>console := console w @ ''log.name='' @ name @ '' appender type='' @
                          print_int (ad_type d) @ '' formatter='' @ ad_format d @ '' is invalid'' @
                          [CHR 0x0A]\<rparr>
               else w)
      in addAppender l (Some a) w)"

text \<open>One definition: the state reached, and the exception when its pattern is bad.\<close>

definition apply_define :: "log_env \<Rightarrow> LogDefine \<Rightarrow> log_state \<Rightarrow> log_state \<times> log_failure option" where
  "apply_define env d w =
     (let (l, w) = getLogger (ld_name d) w;
          w = setLevel l (ld_level d) w in
      case (if ld_format d \<noteq> [] then lg_setPattern l (ld_format d) w else Inr w) of
        Inl e \<Rightarrow> (w, Some e)
      | Inr w \<Rightarrow> (fold (apply_appender env (ld_name d) l) (ld_appenders d) (clearAppender l w), None))"

definition needs_apply :: "LogDefine list \<Rightarrow> LogDefine \<Rightarrow> bool" where
  "needs_apply old d =
     (case set_find LogDefine_less d old of None \<Rightarrow> True | Some it \<Rightarrow> \<not> LogDefine_eq it d)"

fun apply_loop ::
  "log_env \<Rightarrow> LogDefine list \<Rightarrow> LogDefine list \<Rightarrow> log_state \<Rightarrow> log_state \<times> log_failure option" where
  "apply_loop env old [] w = (w, None)"
| "apply_loop env old (d # ds) w =
     (if needs_apply old d then
        (case apply_define env d w of
           (w, None) \<Rightarrow> apply_loop env old ds w
         | (w, Some e) \<Rightarrow> (w, Some e))
      else apply_loop env old ds w)"

fun delete_loop :: "LogDefine list \<Rightarrow> LogDefine list \<Rightarrow> log_state \<Rightarrow> log_state" where
  "delete_loop new [] w = w"
| "delete_loop new (it # its) w =
     delete_loop new its
       (if set_find LogDefine_less it new = None then delLogger (ld_name it) w else w)"

definition log_listener ::
  "log_env \<Rightarrow> LogDefine list \<Rightarrow> LogDefine list \<Rightarrow> log_state \<Rightarrow> log_state \<times> log_failure option" where
  "log_listener env old_define new_define w =
     (case apply_loop env old_define new_define w of
        (w, None) \<Rightarrow> (delete_loop new_define old_define w, None)
      | (w, Some e) \<Rightarrow> (w, Some e))"

interpretation ld: strict_weak_order LogDefine_less
  by unfold_locales (auto simp: LogDefine_less_def)

section \<open>What the listener achieves\<close>

text \<open>The appender a definition asks for: its own formatter when it names a valid one, else the
  formatter of the logger.\<close>

definition defined_view ::
  "LogFormatter option \<Rightarrow> LogAppenderDefine \<Rightarrow>
   LogFormatter option \<times> LogLevel \<times> bool \<times> (string \<times> u64) option" where
  "defined_view f d =
     (let own = ad_format d \<noteq> [] \<and> \<not> fm_error (new_LogFormatter (ad_format d)) in
      (if own then Some (new_LogFormatter (ad_format d)) else f, ad_level d, own,
       (if ad_type d = 0 then None else Some (ad_file d, 0))))"

text \<open>The state of the loggers agrees with a definition: the logger of that name has the level and, if the
  definition has one, the pattern, its appenders are those asked for, and no other logger shares them.\<close>

definition attached :: "log_state \<Rightarrow> nat \<Rightarrow> nat list" where
  "attached w l = lg_appenders (loggers w ! l)"

definition has_pattern :: "log_state \<Rightarrow> nat \<Rightarrow> LogDefine \<Rightarrow> bool" where
  "has_pattern w l d \<longleftrightarrow>
     (ld_format d \<noteq> [] \<longrightarrow> lg_formatter (loggers w ! l) = Some (new_LogFormatter (ld_format d)))"

definition configured :: "log_state \<Rightarrow> LogDefine \<Rightarrow> bool" where
  "configured w d \<longleftrightarrow>
     (\<exists>l. m_loggers w (ld_name d) = Some l \<and> lg_level (loggers w ! l) = ld_level d \<and> has_pattern w l d \<and>
        map (\<lambda>a. ap_view (appenders w ! a)) (attached w l) =
          map (defined_view (lg_formatter (loggers w ! l))) (ld_appenders d) \<and>
        (\<forall>l' < length (loggers w). l' \<noteq> l \<longrightarrow> set (attached w l') \<inter> set (attached w l) = {}))"

text \<open>One appender: it is new, it is what was asked for, and it is attached last.\<close>

lemma apply_appender_effect:
  fixes env :: log_env and name :: string and d :: LogAppenderDefine
  assumes "l < length (loggers w)" and "lg_formatter (loggers w ! l) \<noteq> None"
  defines "w' \<equiv> apply_appender env name l d w"
  shows "loggers w' = (loggers w)[l := (loggers w ! l)\<lparr>lg_appenders := attached w l @ [length (appenders w)]\<rparr>]"
    and "\<exists>ap. appenders w' = appenders w @ [ap] \<and> ap_view ap = defined_view (lg_formatter (loggers w ! l)) d"
    and "m_loggers w' = m_loggers w" and "m_root w' = m_root w"
  using assms(1,2) unfolding w'_def attached_def
  by (simp_all add: apply_appender_def new_appender_def addAppender_def upd_logger_def upd_appender_def
      new_LogAppender_def new_FileLogAppender_def reopen_def ap_setLevel_def ap_setFormatter_def
      defined_view_def ap_view_def Let_def nth_append split: prod.splits)

lemma apply_appenders_effect:
  fixes env :: log_env and name :: string and ds :: "LogAppenderDefine list"
  assumes "l < length (loggers w)" and "lg_formatter (loggers w ! l) \<noteq> None"
  defines "w' \<equiv> fold (apply_appender env name l) ds w"
  shows "loggers w' = (loggers w)[l := (loggers w ! l)\<lparr>lg_appenders :=
      attached w l @ [length (appenders w)..<length (appenders w) + length ds]\<rparr>] \<and>
    (\<exists>aps. appenders w' = appenders w @ aps \<and>
       map ap_view aps = map (defined_view (lg_formatter (loggers w ! l))) ds) \<and>
    m_loggers w' = m_loggers w \<and> m_root w' = m_root w"
  using assms(1,2) unfolding w'_def
proof (induction ds arbitrary: w)
  case Nil
  then show ?case by (simp add: attached_def)
next
  case (Cons d ds)
  let ?w = "apply_appender env name l d w"
  note e = apply_appender_effect [OF Cons.prems, of env name d]
  obtain ap where ap: "appenders ?w = appenders w @ [ap]"
      "ap_view ap = defined_view (lg_formatter (loggers w ! l)) d" using e(2) by blast
  have l: "l < length (loggers ?w)" "lg_formatter (loggers ?w ! l) = lg_formatter (loggers w ! l)"
    "attached ?w l = attached w l @ [length (appenders w)]"
    using Cons.prems by (simp_all add: e(1) attached_def)
  obtain aps where aps: "appenders (fold (apply_appender env name l) ds ?w) = appenders ?w @ aps"
      "map ap_view aps = map (defined_view (lg_formatter (loggers ?w ! l))) ds"
    using Cons.IH [of ?w] l Cons.prems(2) by auto
  have "[length (appenders w)..<length (appenders w) + length (d # ds)] =
      length (appenders w) # [length (appenders ?w)..<length (appenders ?w) + length ds]"
    by (subst upt_conv_Cons) (simp_all add: ap(1))
  then show ?case
    using Cons.IH [of ?w] l Cons.prems(2) e(3,4) ap aps by (simp add: e(1))
qed

lemma log_ok_console: "log_ok w \<Longrightarrow> log_ok (w\<lparr>console := x\<rparr>)"
  by (erule log_ok_same_setup) (simp add: same_setup_def)

lemma log_ok_apply_appender:
  assumes "log_ok w" and "l < length (loggers w)"
  shows "log_ok (apply_appender env name l d w)"
proof -
  let ?ap = "if ad_type d = 0 then new_LogAppender StdOut else new_FileLogAppender env (ad_file d)"
  let ?a = "length (appenders w)"
  let ?w1 = "upd_appender ?a (ap_setLevel (ad_level d)) (snd (new_appender ?ap w))"
  define f where "f = new_LogFormatter (ad_format d)"
  have "log_ok (snd (new_appender ?ap w))"
    using assms(1) ap_ok_new by (intro log_ok_new_appender) auto
  then have 1: "log_ok ?w1" "?a < length (appenders ?w1)" "length (loggers ?w1) = length (loggers w)"
    by (simp_all add: log_ok_ap_ops) (simp_all add: new_appender_def)
  have "log_ok (addAppender l (Some ?a) ?w1)"
    "log_ok (addAppender l (Some ?a) (upd_appender ?a (ap_setFormatter (Some f)) ?w1))"
    "log_ok (addAppender l (Some ?a) (?w1\<lparr>console := x\<rparr>))" for x
    using assms(2) 1 log_ok_ap_ops(1) [OF 1(1)] log_ok_console [OF 1(1)]
    by (intro log_ok_addAppender; simp)+
  then show ?thesis
    by (simp add: apply_appender_def new_appender_def Let_def f_def split: prod.splits)
qed

lemma log_ok_apply_appenders:
  assumes "log_ok w" and "l < length (loggers w)"
  shows "log_ok (fold (apply_appender env name l) ds w)"
  using assms
proof (induction ds arbitrary: w)
  case (Cons d ds)
  then show ?case
    using log_ok_apply_appender [OF Cons.prems]
      apply_appender_effect(1) [OF Cons.prems(2) log_ok_formatter [OF Cons.prems]] by simp
qed simp

text \<open>One definition: afterwards it holds, the other loggers are what they were, and so are the
  appenders that were not attached to this logger.\<close>

lemma pass_formatter_simps [simp]:
  "loggers (pass_formatter f as w) = loggers w" "m_loggers (pass_formatter f as w) = m_loggers w"
  "m_root (pass_formatter f as w) = m_root w"
  "length (appenders (pass_formatter f as w)) = length (appenders w)"
  by (induction f as w rule: pass_formatter.induct) auto

lemma pass_formatter_other:
  "b \<notin> set as \<Longrightarrow> appenders (pass_formatter f as w) ! b = appenders w ! b"
  by (induction f as w rule: pass_formatter.induct) (auto simp: upd_appender_def)

definition old_attached :: "log_state \<Rightarrow> nat \<Rightarrow> nat list" where
  "old_attached w l = (if l < length (loggers w) then attached w l else [])"

definition kept_outside :: "nat \<Rightarrow> log_state \<Rightarrow> log_state \<Rightarrow> bool" where
  "kept_outside l w w' \<longleftrightarrow>
     (\<forall>l' < length (loggers w). l' \<noteq> l \<longrightarrow> loggers w' ! l' = loggers w ! l') \<and>
     length (loggers w) \<le> length (loggers w') \<and> length (appenders w) \<le> length (appenders w') \<and>
     (\<forall>a < length (appenders w). a \<notin> set (old_attached w l) \<longrightarrow> appenders w' ! a = appenders w ! a)"

lemma kept_getLogger:
  assumes "log_ok w" and "getLogger name w = (l, w')"
  shows "kept_outside l w w' \<and> (\<forall>n. n \<noteq> name \<longrightarrow> m_loggers w' n = m_loggers w n) \<and>
    length (loggers w') = max (length (loggers w)) (Suc l) \<and> l \<le> length (loggers w) \<and> appenders w' = appenders w \<and>
    attached w' l = old_attached w l"
  using assms log_ok_getLogger [OF assms]
  by (cases "m_loggers w name")
    (auto simp: getLogger_def Let_def kept_outside_def setRoot_def upd_logger_def nth_append new_Logger_def
      old_attached_def attached_def)

text \<open>The logger of a definition, with level and formatter set, before its appenders are replaced.\<close>

definition prepared :: "LogDefine \<Rightarrow> nat \<Rightarrow> log_state \<Rightarrow> log_state \<Rightarrow> bool" where
  "prepared d l w w' \<longleftrightarrow>
     log_ok w' \<and> l < length (loggers w') \<and> lg_level (loggers w' ! l) = ld_level d \<and>
     m_loggers w' (ld_name d) = Some l \<and> (\<forall>n. n \<noteq> ld_name d \<longrightarrow> m_loggers w' n = m_loggers w n) \<and>
     length (loggers w') = max (length (loggers w)) (Suc l) \<and> l \<le> length (loggers w) \<and>
     kept_outside l w w'"

lemma prepared_setLevel:
  assumes "log_ok w" and "getLogger (ld_name d) w = (l, w')"
  shows "prepared d l w (setLevel l (ld_level d) w')"
  using log_ok_getLogger [OF assms] kept_getLogger [OF assms] log_ok_logger_ops(3) [of w' l "ld_level d"]
  by (auto simp: prepared_def kept_outside_def setLevel_def nth_upd_logger)

lemma attached_setLevel:
  assumes "log_ok w" and "getLogger name w = (l, w')"
  shows "attached (setLevel l level w') l = old_attached w l"
  using kept_getLogger [OF assms] log_ok_getLogger [OF assms]
  by (simp add: setLevel_def attached_def nth_upd_logger)

lemma prepared_setFormatter:
  assumes "prepared d l w w'" and "attached w' l = old_attached w l"
  shows "prepared d l w (lg_setFormatter l (Some f) w')"
proof -
  have ok: "log_ok (lg_setFormatter l (Some f) w')"
    using assms(1) by (intro log_ok_setFormatter) (simp_all add: prepared_def)
  have "appenders (lg_setFormatter l (Some f) w') ! a = appenders w ! a"
    if "a < length (appenders w)" "a \<notin> set (old_attached w l)" for a
    using assms that
    by (auto simp: lg_setFormatter_def Let_def pass_formatter_other attached_def nth_upd_logger
        prepared_def kept_outside_def)
  then show ?thesis
    using ok assms(1)
    by (auto simp: prepared_def kept_outside_def lg_setFormatter_def Let_def nth_upd_logger)
qed

definition applied :: "LogDefine \<Rightarrow> nat \<Rightarrow> log_state \<Rightarrow> log_state \<Rightarrow> bool" where
  "applied d l w w' \<longleftrightarrow>
     prepared d l w w' \<and> has_pattern w' l d \<and> attached w' l = [length (appenders w)..<length (appenders w')] \<and>
     map (\<lambda>a. ap_view (appenders w' ! a)) (attached w' l) =
       map (defined_view (lg_formatter (loggers w' ! l))) (ld_appenders d)"

lemma map_nth_suffix: "map (\<lambda>a. f ((xs @ ys) ! a)) [length xs..<length xs + length ys] = map f ys"
  by (rule nth_equalityI) simp_all

lemma applied_appenders:
  assumes "prepared d l w v" and "length (appenders v) = length (appenders w)" and "has_pattern v l d"
  shows "applied d l w (fold (apply_appender env name l) (ld_appenders d) (clearAppender l v))"
    (is "applied d l w ?w'")
proof -
  let ?v = "clearAppender l v" and ?n = "length (appenders w)" and ?k = "length (ld_appenders d)"
  have l: "l < length (loggers v)" and ok: "log_ok v" using assms(1) by (simp_all add: prepared_def)
  have v: "l < length (loggers ?v)" "lg_formatter (loggers ?v ! l) \<noteq> None" "attached ?v l = []"
    "length (appenders ?v) = ?n"
    using l log_ok_formatter [OF ok l] assms(2) by (simp_all add: clearAppender_def attached_def nth_upd_logger)
  have "log_ok ?w'" using ok l by (intro log_ok_apply_appenders log_ok_logger_ops) (simp_all add: clearAppender_def)
  note e = apply_appenders_effect [OF v(1,2), of env name "ld_appenders d"]
  obtain aps where aps: "appenders ?w' = appenders ?v @ aps"
      "map ap_view aps = map (defined_view (lg_formatter (loggers ?v ! l))) (ld_appenders d)"
    using e by blast
  have len: "length aps = ?k" using arg_cong [OF aps(2), of length] by simp
  have lg: "loggers ?w' = (loggers ?v)[l := (loggers ?v ! l)\<lparr>lg_appenders := [?n..<?n + ?k]\<rparr>]"
    using e v by simp
  have att: "attached ?w' l = [?n..<?n + ?k]" using v(1) by (simp add: lg attached_def)
  have views: "map (\<lambda>a. ap_view (appenders ?w' ! a)) (attached ?w' l) =
      map (defined_view (lg_formatter (loggers ?w' ! l))) (ld_appenders d)"
    using map_nth_suffix [of ap_view "appenders ?v" aps] aps(2) v len
    unfolding att aps(1) lg by simp
  have "prepared d l w ?w'"
    using assms(1,2) \<open>log_ok ?w'\<close> e l
    unfolding prepared_def kept_outside_def lg aps(1)
    by (auto simp: clearAppender_def nth_upd_logger nth_append)
  moreover have "has_pattern ?w' l d"
    using assms(3) l unfolding has_pattern_def lg by (simp add: clearAppender_def nth_upd_logger)
  ultimately show ?thesis
    using att views aps(1) len v(4) by (simp add: applied_def)
qed

lemma apply_define_Some:
  assumes "log_ok w" and "apply_define env d w = (w', None)"
  shows "\<exists>l. applied d l w w'"
proof -
  obtain l v where v: "getLogger (ld_name d) w = (l, v)" by fastforce
  let ?v = "setLevel l (ld_level d) v" and ?f = "new_LogFormatter (ld_format d)"
  have p: "prepared d l w ?v" "attached ?v l = old_attached w l"
    using prepared_setLevel [OF assms(1) v] attached_setLevel [OF assms(1) v] by simp_all
  have len: "length (appenders ?v) = length (appenders w)"
    using kept_getLogger [OF assms(1) v] by (simp add: setLevel_def)
  show ?thesis
  proof (cases "ld_format d = []")
    case True
    then have "has_pattern ?v l d" by (simp add: has_pattern_def)
    then show ?thesis
      using assms(2) v True applied_appenders [OF p(1) len] by (auto simp: apply_define_def Let_def)
  next
    case False
    let ?u = "lg_setFormatter l (Some ?f) ?v"
    have "length (appenders ?u) = length (appenders w)" using len by (simp add: lg_setFormatter_def Let_def)
    moreover have "has_pattern ?u l d"
      using p(1) by (simp add: has_pattern_def lg_setFormatter_def Let_def prepared_def nth_upd_logger)
    ultimately show ?thesis
      using assms(2) v False applied_appenders [OF prepared_setFormatter [OF p]]
      by (auto simp: apply_define_def lg_setPattern_def Let_def split: if_splits)
  qed
qed

text \<open>A definition that was applied holds, and those applied before still do.\<close>

lemma applied_configured:
  assumes "log_ok w" and "applied d l w w'"
  shows "configured w' d"
proof -
  have old: "a < length (appenders w)" if "l' < length (loggers w)" "a \<in> set (attached w l')" for l' a
    using log_ok_attached [OF assms(1) that(1)] that(2) by (simp add: attached_def ap_ready_def)
  have "set (attached w' l') \<inter> set (attached w' l) = {}" if "l' < length (loggers w')" "l' \<noteq> l" for l'
  proof -
    have "l' < length (loggers w)" using assms(2) that by (auto simp: applied_def prepared_def)
    then show ?thesis
      using old that(2) assms(2)
      by (force simp: applied_def prepared_def kept_outside_def attached_def)
  qed
  then show ?thesis using assms(2) by (auto simp: configured_def applied_def prepared_def)
qed

lemma prepared_keeps_configured:
  assumes "log_ok w" and "prepared d l w w'" and "configured w c" and "ld_name c \<noteq> ld_name d"
    and "\<And>a. a < length (appenders w) \<Longrightarrow> a \<in> set (attached w' l) \<Longrightarrow> a \<in> set (old_attached w l)"
  shows "configured w' c"
proof -
  obtain k where k: "m_loggers w (ld_name c) = Some k" "lg_level (loggers w ! k) = ld_level c \<and> has_pattern w k c"
      "map (\<lambda>a. ap_view (appenders w ! a)) (attached w k) =
         map (defined_view (lg_formatter (loggers w ! k))) (ld_appenders c)"
      "\<And>l'. l' < length (loggers w) \<Longrightarrow> l' \<noteq> k \<Longrightarrow> set (attached w l') \<inter> set (attached w k) = {}"
    using assms(3) by (auto simp: configured_def)
  have kw: "k < length (loggers w)" using assms(1) k(1) by (simp add: log_ok_def)
  have "log_ok w'" "m_loggers w' (ld_name c) = Some k" "m_loggers w' (ld_name d) = Some l"
    using assms(2,4) k(1) by (auto simp: prepared_def)
  then have "k \<noteq> l" using assms(4) unfolding log_ok_def by metis
  then have same: "loggers w' ! k = loggers w ! k"
    using assms(2) kw by (simp add: prepared_def kept_outside_def)
  have small: "a < length (appenders w)" if "l' < length (loggers w)" "a \<in> set (attached w l')" for l' a
    using log_ok_attached [OF assms(1) that(1)] that(2) by (simp add: attached_def ap_ready_def)
  have "appenders w' ! a = appenders w ! a" if "a \<in> set (attached w k)" for a
    using that small [OF kw that] k(4) [of l] \<open>k \<noteq> l\<close> assms(2)
    by (auto simp: prepared_def kept_outside_def old_attached_def)
  then have views: "map (\<lambda>a. ap_view (appenders w' ! a)) (attached w k) =
      map (\<lambda>a. ap_view (appenders w ! a)) (attached w k)" by simp
  have "set (attached w' l') \<inter> set (attached w k) = {}" if "l' < length (loggers w')" "l' \<noteq> k" for l'
  proof (cases "l' = l")
    case True
    have "a \<notin> set (attached w k)" if "a \<in> set (attached w' l)" for a
      using assms(5) [of a] that small [OF kw, of a] k(4) [of l] \<open>k \<noteq> l\<close>
      by (auto simp: old_attached_def split: if_splits)
    then show ?thesis using True by blast
  next
    case False
    then have "l' < length (loggers w)" "attached w' l' = attached w l'"
      using assms(2) that by (auto simp: prepared_def kept_outside_def attached_def)
    then show ?thesis using k(4) that by simp
  qed
  then show ?thesis
    using \<open>m_loggers w' (ld_name c) = Some k\<close> same k(2,3) views
    by (auto simp: configured_def attached_def has_pattern_def)
qed

lemma applied_keeps_configured:
  assumes "log_ok w" and "applied d l w w'" and "configured w c" and "ld_name c \<noteq> ld_name d"
  shows "configured w' c"
proof (rule prepared_keeps_configured [OF assms(1) _ assms(3,4)])
  show "prepared d l w w'" using assms(2) by (simp add: applied_def)
qed (use assms(2) in \<open>simp add: applied_def\<close>)

lemma delete_loop_effect:
  "log_ok w \<Longrightarrow> log_ok (delete_loop new its w) \<and> loggers (delete_loop new its w) = loggers w \<and>
   appenders (delete_loop new its w) = appenders w \<and>
   m_loggers (delete_loop new its w) = (m_loggers w) |` (- {ld_name it | it. it \<in> set its \<and>
     set_find LogDefine_less it new = None})"
proof (induction its arbitrary: w)
  case (Cons it its)
  let ?w = "if set_find LogDefine_less it new = None then delLogger (ld_name it) w else w"
  have "log_ok ?w" using Cons.prems log_ok_delLogger by simp
  then show ?case
    using Cons.IH [of ?w] by (auto simp: delLogger_def restrict_map_def fun_eq_iff)
qed (simp add: restrict_map_def)

lemma same_name: "same_key LogDefine_less d e \<longleftrightarrow> ld_name d = ld_name e"
  by (auto simp: same_key_def LogDefine_less_def)

lemma ld_find_None:
  "sorted_wrt LogDefine_less ds \<Longrightarrow> set_find LogDefine_less d ds = None \<longleftrightarrow> ld_name d \<notin> ld_name ` set ds"
  by (auto simp: ld.set_find_None same_name)

lemma apply_loop_effect:
  assumes "log_ok w" and "apply_loop env old ds w = (w', None)" and "sorted_wrt LogDefine_less ds"
  shows "log_ok w' \<and> (\<forall>d \<in> set ds. needs_apply old d \<longrightarrow> configured w' d) \<and>
    (\<forall>c. configured w c \<and> ld_name c \<notin> ld_name ` set ds \<longrightarrow> configured w' c)"
  using assms
proof (induction ds arbitrary: w)
  case (Cons d ds)
  have names: "ld_name d \<notin> ld_name ` set ds"
    using Cons.prems(3) by (auto simp: LogDefine_less_def)
  show ?case
  proof (cases "needs_apply old d")
    case True
    obtain v where v: "apply_define env d w = (v, None)" "apply_loop env old ds v = (w', None)"
      using Cons.prems(2) True by (auto split: prod.splits option.splits)
    obtain l where l: "applied d l w v" using apply_define_Some [OF Cons.prems(1) v(1)] by blast
    have "log_ok v" using l by (simp add: applied_def prepared_def)
    then show ?thesis
      using Cons.IH [OF _ v(2)] Cons.prems names applied_configured [OF Cons.prems(1) l]
        applied_keeps_configured [OF Cons.prems(1) l] by auto
  next
    case False
    then show ?thesis using Cons by auto
  qed
qed simp

text \<open>A logger whose definition is not applied stays as it is.\<close>

lemma applied_other:
  assumes "log_ok w" and "applied d l w w'" and "m_loggers w n = Some k" and "n \<noteq> ld_name d"
  shows "m_loggers w' n = Some k \<and> loggers w' ! k = loggers w ! k"
proof -
  have "log_ok w'" "m_loggers w' n = Some k" "m_loggers w' (ld_name d) = Some l"
    using assms(2,3,4) by (auto simp: applied_def prepared_def)
  moreover from this have "k \<noteq> l" using assms(4) unfolding log_ok_def by metis
  moreover have "k < length (loggers w)" using assms(1,3) by (simp add: log_ok_def)
  ultimately show ?thesis using assms(2) by (simp add: applied_def prepared_def kept_outside_def)
qed

lemma apply_loop_other:
  assumes "log_ok w" and "apply_loop env old ds w = (w', None)" and "m_loggers w n = Some k"
    and "\<forall>d \<in> set ds. needs_apply old d \<longrightarrow> ld_name d \<noteq> n"
  shows "m_loggers w' n = Some k \<and> loggers w' ! k = loggers w ! k"
  using assms
proof (induction ds arbitrary: w)
  case (Cons d ds)
  show ?case
  proof (cases "needs_apply old d")
    case True
    obtain v where v: "apply_define env d w = (v, None)" "apply_loop env old ds v = (w', None)"
      using Cons.prems(2) True by (auto split: prod.splits option.splits)
    obtain l where l: "applied d l w v" using apply_define_Some [OF Cons.prems(1) v(1)] by blast
    then have "log_ok v" by (simp add: applied_def prepared_def)
    then show ?thesis
      using Cons.IH [OF _ v(2)] applied_other [OF Cons.prems(1) l Cons.prems(3)] Cons.prems(4) True by auto
  next
    case False
    then show ?thesis using Cons by auto
  qed
qed simp

text \<open>What the listener takes for unchanged: there was a definition with the same name, level and pattern, whatever its
  appenders.\<close>

definition same_define :: "LogDefine list \<Rightarrow> LogDefine \<Rightarrow> bool" where
  "same_define old d \<longleftrightarrow>
     (\<exists>it \<in> set old. ld_name it = ld_name d \<and> ld_level it = ld_level d \<and> ld_format it = ld_format d)"

lemma LogDefine_eq_same:
  "LogDefine_eq a b \<longleftrightarrow> ld_name a = ld_name b \<and> ld_level a = ld_level b \<and> ld_format a = ld_format b"
  by (auto simp: LogDefine_eq_def LogAppenderDefine_eq_def list.rel_refl)

lemma needs_apply_iff:
  assumes "sorted_wrt LogDefine_less old"
  shows "needs_apply old d \<longleftrightarrow> \<not> same_define old d"
proof (cases "set_find LogDefine_less d old")
  case None
  then have "ld_name d \<notin> ld_name ` set old" using ld_find_None [OF assms] by simp
  then have "\<not> same_define old d" by (auto simp: same_define_def dest: sym)
  then show ?thesis using None by (simp add: needs_apply_def)
next
  case (Some it)
  note find = ld.set_find_Some [OF assms, of d, unfolded same_name]
  have it: "it \<in> set old" "ld_name it = ld_name d" using Some find by auto
  have "it' = it" if "it' \<in> set old" "ld_name it' = ld_name d" for it'
    using that Some find [of it'] by simp
  then have "same_define old d \<longleftrightarrow> ld_level it = ld_level d \<and> ld_format it = ld_format d"
    using it unfolding same_define_def by blast
  then show ?thesis using Some it(2) by (simp add: needs_apply_def LogDefine_eq_same)
qed

text \<open>The pattern of a logger that raises an exception.\<close>

definition bad_pattern :: "LogDefine \<Rightarrow> bool" where
  "bad_pattern d \<longleftrightarrow> ld_format d \<noteq> [] \<and> fm_error (new_LogFormatter (ld_format d))"

lemma apply_define_throws:
  "snd (apply_define env d w) = (if bad_pattern d then Some PatternError else None)"
  by (simp add: apply_define_def bad_pattern_def lg_setPattern_def Let_def split: prod.split)

lemma apply_loop_throws:
  "snd (apply_loop env old ds w) =
     (if \<exists>d \<in> set ds. needs_apply old d \<and> bad_pattern d then Some PatternError else None)"
proof (induction ds arbitrary: w)
  case (Cons d ds)
  then show ?case
    using apply_define_throws [of env d w] by (auto split: prod.splits option.splits if_splits)
qed simp

lemma apply_loop_append:
  "apply_loop env old (ds @ es) w =
     (case apply_loop env old ds w of
        (w, None) \<Rightarrow> apply_loop env old es w
      | (w, Some e) \<Rightarrow> (w, Some e))"
  by (induction ds arbitrary: w) (auto split: prod.splits option.splits)

lemma apply_loop_registers:
  "log_ok w \<Longrightarrow> apply_loop env old ds w = (w', None) \<Longrightarrow> m_loggers w n \<noteq> None \<Longrightarrow> m_loggers w' n \<noteq> None"
proof (induction ds arbitrary: w)
  case (Cons d ds)
  show ?case
  proof (cases "needs_apply old d")
    case True
    obtain v where v: "apply_define env d w = (v, None)" "apply_loop env old ds v = (w', None)"
      using Cons.prems(2) True by (auto split: prod.splits option.splits)
    obtain l where l: "applied d l w v" using apply_define_Some [OF Cons.prems(1) v(1)] by blast
    then have "m_loggers v n \<noteq> None"
      using Cons.prems(3) by (cases "n = ld_name d") (auto simp: applied_def prepared_def)
    then show ?thesis using l Cons.IH [OF _ v(2)] by (simp add: applied_def prepared_def)
  next
    case False
    then show ?thesis using Cons by simp
  qed
qed simp

lemma log_definitions_core:
  assumes "log_ok w" and "sorted_wrt LogDefine_less old" and "sorted_wrt LogDefine_less new"
    and "\<forall>d \<in> set new. \<not> bad_pattern d"
  shows "\<exists>w'. log_listener env old new w = (w', None) \<and>
    (\<forall>d \<in> set new. \<not> same_define old d \<longrightarrow> configured w' d) \<and>
    (\<forall>d \<in> set new. \<forall>l. same_define old d \<and> m_loggers w (ld_name d) = Some l \<longrightarrow>
       m_loggers w' (ld_name d) = Some l \<and> loggers w' ! l = loggers w ! l) \<and>
    (\<forall>d \<in> set old. ld_name d \<notin> ld_name ` set new \<longrightarrow> m_loggers w' (ld_name d) = None) \<and> log_ok w'"
proof -
  obtain v where v: "apply_loop env old new w = (v, None)"
    using apply_loop_throws [of env old new w] assms(4) by (cases "apply_loop env old new w") auto
  define w' where "w' = delete_loop new old v"
  have ok: "log_ok v" and conf: "\<And>d. d \<in> set new \<Longrightarrow> needs_apply old d \<Longrightarrow> configured v d"
    using apply_loop_effect [OF assms(1) v assms(3)] by auto
  note e = delete_loop_effect [OF ok, of new old, folded w'_def]
  have same: "m_loggers w' (ld_name d) = m_loggers v (ld_name d)" if "d \<in> set new" for d
    using e imageI [OF that, of ld_name] ld_find_None [OF assms(3)] by (auto simp: restrict_map_def)
  have "configured w' d" if "d \<in> set new" "\<not> same_define old d" for d
    using conf [OF that(1)] e that same needs_apply_iff [OF assms(2)]
    by (simp add: configured_def attached_def has_pattern_def)
  moreover have "m_loggers w' (ld_name d) = Some l \<and> loggers w' ! l = loggers w ! l"
    if "d \<in> set new" "same_define old d" "m_loggers w (ld_name d) = Some l" for d l
  proof -
    have "e = d" if "e \<in> set new" "ld_name e = ld_name d" for e
      using that \<open>d \<in> set new\<close> ld.set_find_Some [OF assms(3), of d, unfolded same_name] by (metis option.inject)
    then have "\<forall>e \<in> set new. needs_apply old e \<longrightarrow> ld_name e \<noteq> ld_name d"
      using that(2) needs_apply_iff [OF assms(2)] by auto
    then show ?thesis
      using apply_loop_other [OF assms(1) v that(3)] same [OF that(1)] e by simp
  qed
  moreover have "m_loggers w' (ld_name d) = None" if "d \<in> set old" "ld_name d \<notin> ld_name ` set new" for d
    using e that ld_find_None [OF assms(3)] by (auto simp: restrict_map_def)
  moreover have "log_listener env old new w = (w', None)" by (simp add: log_listener_def v w'_def)
  ultimately show ?thesis using e by blast
qed

text \<open>C28: When the configured set of log definitions changes and the patterns of the loggers are
  valid, every definition for which the old set has none of the same name, level and pattern is what its logger
  is afterwards: the logger of that name has the level, the pattern if one is given, and exactly the appenders asked for, each
  with its own formatter or the logger's, shared with no other logger.  A logger whose definition differs at most in
  the appenders stays as it is: such a change is not noticed.  Loggers whose definition is gone are removed from the manager.\<close>

theorem log_definitions_applied:
  assumes "log_reach w" and "sorted_wrt LogDefine_less old" and "sorted_wrt LogDefine_less new"
    and "\<forall>d \<in> set new. \<not> bad_pattern d"
  shows "\<exists>w'. log_listener env old new w = (w', None) \<and>
    (\<forall>d \<in> set new. \<not> same_define old d \<longrightarrow> configured w' d) \<and>
    (\<forall>d \<in> set new. \<forall>l. same_define old d \<and> m_loggers w (ld_name d) = Some l \<longrightarrow>
       m_loggers w' (ld_name d) = Some l \<and> loggers w' ! l = loggers w ! l) \<and>
    (\<forall>d \<in> set old. ld_name d \<notin> ld_name ` set new \<longrightarrow> m_loggers w' (ld_name d) = None) \<and> log_ok w'"
  using log_definitions_core [OF log_reach_ok [OF assms(1)] assms(2-4)] .

definition file_define :: LogDefine where
  "file_define = \<lparr>ld_name = ''system'', ld_level = WARN, ld_format = ''%p %m%n'',
     ld_appenders = [\<lparr>ad_type = 1, ad_level = ERROR, ad_format = [], ad_file = ''a.log''\<rparr>]\<rparr>"

lemma file_define_pattern: "\<not> bad_pattern file_define"
  by (simp add: bad_pattern_def file_define_def new_LogFormatter_def itemMap_def)

theorem log_definitions_applied_witness:
  "\<exists>w'. log_listener plain_env [] [file_define] new_LoggerManager = (w', None) \<and>
     configured w' file_define"
proof -
  have "\<not> same_define [] file_define" by (simp add: same_define_def)
  then show ?thesis
    using log_definitions_applied [OF log_reach.start, of "[]" "[file_define]" plain_env] file_define_pattern
    by auto
qed

text \<open>C31: A logger pattern that is not valid raises an exception out of the listener: the
  definitions in front of it are applied, the level of its own logger is set and nothing else of
  it, the definitions behind it are not looked at and no logger is removed.\<close>

theorem bad_pattern_stops:
  assumes "log_reach w" and "sorted_wrt LogDefine_less (ds @ d # es)"
    and "needs_apply old d" and "bad_pattern d" and "\<forall>c \<in> set ds. \<not> bad_pattern c"
  shows "\<exists>w'. log_listener env old (ds @ d # es) w = (w', Some PatternError) \<and>
    (\<forall>c \<in> set ds. needs_apply old c \<longrightarrow> configured w' c) \<and>
    (\<exists>l. m_loggers w' (ld_name d) = Some l \<and> lg_level (loggers w' ! l) = ld_level d) \<and>
    (\<forall>n. m_loggers w n \<noteq> None \<longrightarrow> m_loggers w' n \<noteq> None)"
proof -
  obtain v where v: "apply_loop env old ds w = (v, None)"
    using apply_loop_throws [of env old ds w] assms(5) by (cases "apply_loop env old ds w") auto
  have sorted: "sorted_wrt LogDefine_less ds" and names: "ld_name d \<notin> ld_name ` set ds"
    using assms(2) by (auto simp: sorted_wrt_append LogDefine_less_def)
  have ok: "log_ok v" and conf: "\<And>c. c \<in> set ds \<Longrightarrow> needs_apply old c \<Longrightarrow> configured v c"
    using apply_loop_effect [OF log_reach_ok [OF assms(1)] v sorted] by auto
  obtain l u where u: "getLogger (ld_name d) v = (l, u)" by fastforce
  let ?w = "setLevel l (ld_level d) u"
  have p: "prepared d l v ?w" by (rule prepared_setLevel [OF ok u])
  have "apply_define env d v = (?w, Some PatternError)"
    using assms(4) u by (simp add: apply_define_def bad_pattern_def lg_setPattern_def Let_def)
  then have "log_listener env old (ds @ d # es) w = (?w, Some PatternError)"
    using assms(3) v by (simp add: log_listener_def apply_loop_append)
  moreover have "m_loggers ?w n \<noteq> None" if "m_loggers w n \<noteq> None" for n
    using apply_loop_registers [OF log_reach_ok [OF assms(1)] v that] p
    by (cases "n = ld_name d") (auto simp: prepared_def)
  moreover have "configured ?w c" if "c \<in> set ds" "needs_apply old c" for c
  proof (rule prepared_keeps_configured [OF ok p conf [OF that]])
    show "ld_name c \<noteq> ld_name d" using names that(1) by (metis imageI)
  qed (simp add: attached_setLevel [OF ok u])
  ultimately show ?thesis using p by (auto simp: prepared_def)
qed

theorem bad_pattern_stops_witness:
  "\<exists>w'. log_listener plain_env [] [file_define, file_define\<lparr>ld_name := ''t'', ld_format := ''%q''\<rparr>]
     new_LoggerManager = (w', Some PatternError) \<and> configured w' file_define"
proof -
  let ?d = "file_define\<lparr>ld_name := ''t'', ld_format := ''%q''\<rparr>"
  have bad: "bad_pattern ?d"
    by (simp add: bad_pattern_def file_define_def new_LogFormatter_def itemMap_def)
  have sorted: "sorted_wrt LogDefine_less ([file_define] @ ?d # [])"
    by (simp add: LogDefine_less_def file_define_def less_char_def)
  have "needs_apply [] d" for d by (simp add: needs_apply_def set_find_def)
  then show ?thesis
    using bad_pattern_stops [OF log_reach.start sorted _ bad, of "[]" plain_env] file_define_pattern by auto
qed

end
