(* ===== verification/Configuration.thy ===== *)
theory Configuration
  imports Log_Config Ordered_Map "HOL-Library.Monad_Syntax"
begin

text \<open>
  The configuration system (\<^verbatim>\<open>config.h\<close>, \<^verbatim>\<open>config.cpp\<close>) and the log definitions it carries
  (\<^verbatim>\<open>log.cpp\<close>): conversion of values from and to text, variables with listeners, the registry of
  variables and loading from a YAML tree.  YAML itself is the library yaml-cpp: its functions
  are the fields of the record \<open>yaml_lib\<close>, an argument of the definitions that call them.  The text
  a conversion raises is not kept: an exception is \<open>None\<close>.  Diagnostics written to the log are
  left out.
\<close>

section \<open>YAML\<close>

text \<open>A node is a scalar, a sequence, a map (with the text of its keys) or null.\<close>

datatype yaml = YNull | YScalar string | YSeq "yaml list" | YMap "(string \<times> yaml) list"

text \<open>\<^verbatim>\<open>YAML::Load\<close> and \<^verbatim>\<open>operator<<\<close>; \<^verbatim>\<open>n[key]\<close>, which may raise an exception (\<open>None\<close>) or give an
  undefined node (\<open>Some None\<close>); the elements \<^verbatim>\<open>n[0]\<close> up to \<^verbatim>\<open>n[n.size() - 1]\<close>; the
  entries an iteration over the node meets, with the text of their keys; and
  \<^verbatim>\<open>as<std::string>\<close>.\<close>

record yaml_lib =
  yl_load :: "string \<Rightarrow> yaml option"
  yl_emit :: "yaml \<Rightarrow> string"
  yl_get :: "yaml \<Rightarrow> string \<Rightarrow> yaml option option"
  yl_elems :: "yaml \<Rightarrow> yaml list"
  yl_entries :: "yaml \<Rightarrow> (string \<times> yaml) list option"
  yl_text :: "yaml \<Rightarrow> string option"

text \<open>What the library documents of nodes of the kind a call is meant for.\<close>

definition yaml_lib_ok :: "yaml_lib \<Rightarrow> bool" where
  "yaml_lib_ok lib \<longleftrightarrow>
     (\<forall>kvs k. yl_get lib (YMap kvs) k = Some (map_of kvs k)) \<and>
     (\<forall>ns. yl_elems lib (YSeq ns) = ns) \<and>
     (\<forall>kvs. yl_entries lib (YMap kvs) = Some kvs) \<and> (\<forall>s. yl_text lib (YScalar s) = Some s)"

section \<open>Conversion of scalars\<close>

definition isspace :: "char \<Rightarrow> bool" where
  "isspace c \<longleftrightarrow> c \<in> set [CHR '' '', CHR 0x09, CHR 0x0A, CHR 0x0B, CHR 0x0C, CHR 0x0D]"

definition skip_ws :: "string \<Rightarrow> string" where
  "skip_ws s = dropWhile isspace s"

definition isdigit :: "char \<Rightarrow> bool" where
  "isdigit c \<longleftrightarrow> 48 \<le> (of_char c :: nat) \<and> (of_char c :: nat) \<le> 57"

definition digits_value :: "string \<Rightarrow> nat" where
  "digits_value ds = foldl (\<lambda>n c. n * 10 + (of_char c - 48)) 0 ds"

text \<open>\<^verbatim>\<open>operator>>\<close> on a stream holding \<open>s\<close>: the value and what is left of the stream, \<open>None\<close> when the
  stream fails.  A word ends at white space; a number has an optional sign and digits, and one
  out of range fails.\<close>

definition get_word :: "string \<Rightarrow> (string \<times> string) option" where
  "get_word s =
     (let s = skip_ws s; w = takeWhile (\<lambda>c. \<not> isspace c) s in
      if w = [] then None else Some (w, dropWhile (\<lambda>c. \<not> isspace c) s))"

definition get_number :: "string \<Rightarrow> (int \<times> string) option" where
  "get_number s =
     (let s = skip_ws s;
          neg = (take 1 s = ''-'');
          s = (if take 1 s = ''-'' \<or> take 1 s = ''+'' then drop 1 s else s);
          ds = takeWhile isdigit s;
          n = int (digits_value ds) in
      if ds = [] then None else Some (if neg then - n else n, dropWhile isdigit s))"

definition get_int :: "string \<Rightarrow> (u32 \<times> string) option" where
  "get_int s =
     do { (n, rest) \<leftarrow> get_number s;
          if - (2 ^ 31) \<le> n \<and> n < 2 ^ 31 then Some (word_of_int n, rest) else None }"

text \<open>Reading an unsigned number takes a minus sign as well; the magnitude has to fit.\<close>

definition get_uint32 :: "string \<Rightarrow> (u32 \<times> string) option" where
  "get_uint32 s =
     do { (n, rest) \<leftarrow> get_number s;
          if \<bar>n\<bar> < 2 ^ 32 then Some (word_of_int n, rest) else None }"

definition get_uint64 :: "string \<Rightarrow> (u64 \<times> string) option" where
  "get_uint64 s =
     do { (n, rest) \<leftarrow> get_number s;
          if \<bar>n\<bar> < 2 ^ 64 then Some (word_of_int n, rest) else None }"

text \<open>\<^verbatim>\<open>lexical_cast\<close> for a text and the reading of the target type.  The condition is as written:
  the value is returned when the end of the stream is \<^emph>\<open>not\<close> reached after white space.\<close>

definition lexical_cast :: "(string \<Rightarrow> ('t \<times> string) option) \<Rightarrow> string \<Rightarrow> 't option" where
  "lexical_cast get arg =
     do { (result, rest) \<leftarrow> get arg;
          if \<not> (skip_ws rest = []) then Some result else None }"

section \<open>Conversion of log definitions\<close>

text \<open>\<^verbatim>\<open>n[key].IsDefined() ? n[key].as<std::string>() : dflt\<close>.\<close>

definition text_or :: "yaml_lib \<Rightarrow> yaml \<Rightarrow> string \<Rightarrow> string \<Rightarrow> string option" where
  "text_or lib n k dflt =
     do { v \<leftarrow> yl_get lib n k;
          case v of None \<Rightarrow> Some dflt | Some x \<Rightarrow> yl_text lib x }"

text \<open>One appender: \<open>Some None\<close> is an entry that is skipped.\<close>

definition parse_appender :: "yaml_lib \<Rightarrow> yaml \<Rightarrow> LogAppenderDefine option option" where
  "parse_appender lib a =
     do { t \<leftarrow> yl_get lib a ''type'';
          case t of
            None \<Rightarrow> Some None
          | Some tn \<Rightarrow>
              do { type \<leftarrow> yl_text lib tn;
                   if type = ''FileLogAppender'' then
                     do { f \<leftarrow> yl_get lib a ''file'';
                          case f of
                            None \<Rightarrow> Some None
                          | Some fn \<Rightarrow>
                              do { file \<leftarrow> yl_text lib fn;
                                   fmt \<leftarrow> text_or lib a ''format'' [];
                                   Some (Some (new_LogAppenderDefine
                                     \<lparr>ad_type := 1, ad_file := file, ad_format := fmt\<rparr>)) } }
                   else if type = ''StdoutLogAppender'' then
                     do { fmt \<leftarrow> text_or lib a ''format'' [];
                          Some (Some (new_LogAppenderDefine\<lparr>ad_type := 0, ad_format := fmt\<rparr>)) }
                   else Some None } }"

fun parse_appenders :: "yaml_lib \<Rightarrow> yaml list \<Rightarrow> LogAppenderDefine list option" where
  "parse_appenders lib [] = Some []"
| "parse_appenders lib (n # ns) =
     do { a \<leftarrow> parse_appender lib n;
          as \<leftarrow> parse_appenders lib ns;
          Some (case a of None \<Rightarrow> as | Some x \<Rightarrow> x # as) }"

text \<open>\<^verbatim>\<open>LexicalCast<std::string, LogDefine>\<close>.\<close>

definition parse_define :: "yaml_lib \<Rightarrow> string \<Rightarrow> LogDefine option" where
  "parse_define lib v =
     do { n \<leftarrow> yl_load lib v;
          nm \<leftarrow> yl_get lib n ''name'';
          case nm of
            None \<Rightarrow> None
          | Some x \<Rightarrow>
              do { name \<leftarrow> yl_text lib x;
                   level \<leftarrow> text_or lib n ''level'' [];
                   fmt \<leftarrow> text_or lib n ''format'' [];
                   aps \<leftarrow> yl_get lib n ''appenders'';
                   as \<leftarrow> (case aps of None \<Rightarrow> Some [] | Some an \<Rightarrow> parse_appenders lib (yl_elems lib an));
                   Some \<lparr>ld_name = name, ld_level = FromString level, ld_format = fmt, ld_appenders = as\<rparr> } }"

text \<open>\<^verbatim>\<open>LexicalCast<LogDefine, std::string>\<close>: the node, in the order of the assignments.\<close>

definition appender_node :: "LogAppenderDefine \<Rightarrow> yaml" where
  "appender_node a = YMap
     ((if ad_type a = 0 then [(''type'', YScalar ''StdoutLogAppender'')]
       else if ad_type a = 1 then [(''type'', YScalar ''FileLogAppender''), (''file'', YScalar (ad_file a))]
       else []) @
      (if ad_level a \<noteq> UNKONWN then [(''level'', YScalar (ToString (ad_level a)))] else []) @
      (if ad_format a \<noteq> [] then [(''format'', YScalar (ad_format a))] else []))"

definition define_node :: "LogDefine \<Rightarrow> yaml" where
  "define_node d = YMap
     ([(''name'', YScalar (ld_name d))] @
      (if ld_level d \<noteq> UNKONWN then [(''level'', YScalar (ToString (ld_level d)))] else []) @
      (if ld_appenders d \<noteq> [] then [(''appenders'', YSeq (map appender_node (ld_appenders d)))] else []))"

definition print_define :: "yaml_lib \<Rightarrow> LogDefine \<Rightarrow> string" where
  "print_define lib d = yl_emit lib (define_node d)"

text \<open>\<^verbatim>\<open>LexicalCast<std::string, std::set<T>>\<close> and back, for the conversion of an element.\<close>

fun insert_elems ::
  "(string \<Rightarrow> 't option) \<Rightarrow> ('t \<Rightarrow> 't \<Rightarrow> bool) \<Rightarrow> yaml_lib \<Rightarrow> yaml list \<Rightarrow> 't list \<Rightarrow> 't list option" where
  "insert_elems cast lt lib [] ans = Some ans"
| "insert_elems cast lt lib (n # ns) ans =
     do { x \<leftarrow> cast (yl_emit lib n);
          insert_elems cast lt lib ns (set_insert lt x ans) }"

definition parse_set ::
  "(string \<Rightarrow> 't option) \<Rightarrow> ('t \<Rightarrow> 't \<Rightarrow> bool) \<Rightarrow> yaml_lib \<Rightarrow> string \<Rightarrow> 't list option" where
  "parse_set cast lt lib f =
     do { n \<leftarrow> yl_load lib f;
          insert_elems cast lt lib (yl_elems lib n) [] }"

definition print_set :: "('t \<Rightarrow> string option) \<Rightarrow> yaml_lib \<Rightarrow> 't list \<Rightarrow> string option" where
  "print_set cast lib f =
     do { ss \<leftarrow> those (map cast f);
          Some (yl_emit lib (YSeq (map YScalar ss))) }"

text \<open>\<^verbatim>\<open>LexicalCast<std::string, std::vector<T>>\<close> and back; and maps with text keys.\<close>

definition parse_vector :: "(string \<Rightarrow> 't option) \<Rightarrow> yaml_lib \<Rightarrow> string \<Rightarrow> 't list option" where
  "parse_vector cast lib f =
     do { n \<leftarrow> yl_load lib f;
          those (map (\<lambda>x. cast (yl_emit lib x)) (yl_elems lib n)) }"

definition print_vector :: "('t \<Rightarrow> string option) \<Rightarrow> yaml_lib \<Rightarrow> 't list \<Rightarrow> string option" where
  "print_vector cast lib f =
     do { ns \<leftarrow> those (map (\<lambda>x. cast x \<bind> yl_load lib) f);
          Some (yl_emit lib (YSeq ns)) }"

definition parse_map :: "(string \<Rightarrow> 't option) \<Rightarrow> yaml_lib \<Rightarrow> string \<Rightarrow> (string, 't) omap option" where
  "parse_map cast lib f =
     do { n \<leftarrow> yl_load lib f;
          kvs \<leftarrow> yl_entries lib n;
          xs \<leftarrow> those (map (\<lambda>(k, v). map_option (Pair k) (cast (yl_emit lib v))) kvs);
          Some (fold (\<lambda>(k, x) ans. map_insert (<) k x ans) xs []) }"

definition print_map :: "('t \<Rightarrow> string option) \<Rightarrow> yaml_lib \<Rightarrow> (string, 't) omap \<Rightarrow> string option" where
  "print_map cast lib f =
     do { kvs \<leftarrow> those (map (\<lambda>(k, x). map_option (Pair k) (cast x \<bind> yl_load lib)) f);
          Some (yl_emit lib (YMap kvs)) }"

section \<open>Values\<close>

text \<open>The types of variables the framework has: \<^verbatim>\<open>int\<close>, \<^verbatim>\<open>uint32_t\<close>, \<^verbatim>\<open>uint64_t\<close>, \<^verbatim>\<open>std::string\<close> and
  \<^verbatim>\<open>std::set<LogDefine>\<close>.\<close>

datatype ctype = TInt | TU32 | TU64 | TStr | TLogs

datatype cvalue = CInt u32 | CU32 u32 | CU64 u64 | CStr string | CLogs "LogDefine list"

fun type_of :: "cvalue \<Rightarrow> ctype" where
  "type_of (CInt _) = TInt"
| "type_of (CU32 _) = TU32"
| "type_of (CU64 _) = TU64"
| "type_of (CStr _) = TStr"
| "type_of (CLogs _) = TLogs"

fun cvalue_eq :: "cvalue \<Rightarrow> cvalue \<Rightarrow> bool" where
  "cvalue_eq (CLogs a) (CLogs b) \<longleftrightarrow> defines_eq a b"
| "cvalue_eq a b \<longleftrightarrow> a = b"

text \<open>\<^verbatim>\<open>LexicalCast<std::string, T>\<close> and \<^verbatim>\<open>LexicalCast<T, std::string>\<close>: a number is printed to the
  stream and the result read back as a word.\<close>

fun from_text :: "yaml_lib \<Rightarrow> ctype \<Rightarrow> string \<Rightarrow> cvalue option" where
  "from_text lib TInt f = map_option CInt (lexical_cast get_int f)"
| "from_text lib TU32 f = map_option CU32 (lexical_cast get_uint32 f)"
| "from_text lib TU64 f = map_option CU64 (lexical_cast get_uint64 f)"
| "from_text lib TStr f = map_option CStr (lexical_cast get_word f)"
| "from_text lib TLogs f = map_option CLogs (parse_set (parse_define lib) LogDefine_less lib f)"

fun to_text :: "yaml_lib \<Rightarrow> cvalue \<Rightarrow> string option" where
  "to_text lib (CInt v) = lexical_cast get_word (print_int v)"
| "to_text lib (CU32 v) = lexical_cast get_word (dec (unat v))"
| "to_text lib (CU64 v) = lexical_cast get_word (dec (unat v))"
| "to_text lib (CStr v) = lexical_cast get_word v"
| "to_text lib (CLogs v) = print_set (\<lambda>d. Some (print_define lib d)) lib v"

section \<open>Variables\<close>

text \<open>A listener is called with the old and the new value, changes the world and may raise an
  exception.\<close>

type_synonym 'w listener = "cvalue \<Rightarrow> cvalue \<Rightarrow> 'w \<Rightarrow> 'w \<times> bool"

record 'w ConfigVar =
  cv_name :: string
  cv_description :: string
  cv_val :: cvalue
  cv_listeners :: "(u64, 'w listener) omap"

definition to_lower :: "char \<Rightarrow> char" where
  "to_lower c = (let n = of_char c :: nat in if 65 \<le> n \<and> n \<le> 90 then char_of (n + 32) else c)"

definition new_ConfigVar :: "string \<Rightarrow> cvalue \<Rightarrow> string \<Rightarrow> 'w ConfigVar" where
  "new_ConfigVar name default_value description =
     \<lparr>cv_name = map to_lower name, cv_description = description, cv_val = default_value,
      cv_listeners = []\<rparr>"

definition cv_toString :: "yaml_lib \<Rightarrow> 'w ConfigVar \<Rightarrow> string" where
  "cv_toString lib var = (case to_text lib (cv_val var) of None \<Rightarrow> [] | Some s \<Rightarrow> s)"

text \<open>The calls of the listeners, in the order of their numbers, up to one that raises an exception.\<close>

fun call_listeners :: "(u64, 'w listener) omap \<Rightarrow> cvalue \<Rightarrow> cvalue \<Rightarrow> 'w \<Rightarrow> 'w \<times> bool" where
  "call_listeners [] old new w = (w, False)"
| "call_listeners ((i, cb) # ls) old new w =
     (case cb old new w of (w, thrown) \<Rightarrow> if thrown then (w, True) else call_listeners ls old new w)"

definition cv_setValue :: "cvalue \<Rightarrow> 'w ConfigVar \<Rightarrow> 'w \<Rightarrow> 'w ConfigVar \<times> 'w \<times> bool" where
  "cv_setValue val var w =
     (if cvalue_eq val (cv_val var) then (var, w, False)
      else case call_listeners (cv_listeners var) (cv_val var) val w of
        (w, True) \<Rightarrow> (var, w, True)
      | (w, False) \<Rightarrow> (var\<lparr>cv_val := val\<rparr>, w, False))"

definition cv_fromString :: "yaml_lib \<Rightarrow> string \<Rightarrow> 'w ConfigVar \<Rightarrow> 'w \<Rightarrow> 'w ConfigVar \<times> 'w" where
  "cv_fromString lib f var w =
     (case from_text lib (type_of (cv_val var)) f of
        None \<Rightarrow> (var, w)
      | Some v \<Rightarrow> (case cv_setValue v var w of (var, w, thrown) \<Rightarrow> (var, w)))"

text \<open>The number of a listener comes from a counter that all variables of a type share.\<close>

definition cv_addListener :: "'w listener \<Rightarrow> u64 \<Rightarrow> 'w ConfigVar \<Rightarrow> u64 \<times> 'w ConfigVar" where
  "cv_addListener cb s_listener_id var =
     (let i = s_listener_id + 1 in (i, var\<lparr>cv_listeners := map_set (<) i cb (cv_listeners var)\<rparr>))"

definition cv_delListener :: "u64 \<Rightarrow> 'w ConfigVar \<Rightarrow> 'w ConfigVar" where
  "cv_delListener i var = var\<lparr>cv_listeners := map_erase (<) i (cv_listeners var)\<rparr>"

definition cv_getListener :: "u64 \<Rightarrow> 'w ConfigVar \<Rightarrow> 'w listener option" where
  "cv_getListener i var = map_find (<) i (cv_listeners var)"

definition cv_clearListener :: "'w ConfigVar \<Rightarrow> 'w ConfigVar" where
  "cv_clearListener var = var\<lparr>cv_listeners := []\<rparr>"

section \<open>The registry\<close>

text \<open>The map of variables, and the counter of listeners of each type.\<close>

record 'w Config =
  cf_map :: "string \<rightharpoonup> 'w ConfigVar"
  cf_ids :: "ctype \<Rightarrow> u64"

definition name_chars :: string where
  "name_chars = ''abcdefghijklmnopqrstuvwxyz._1234567890''"

definition LookupBase :: "string \<Rightarrow> 'w Config \<Rightarrow> 'w ConfigVar option" where
  "LookupBase name cf = cf_map cf name"

text \<open>Both forms of \<^verbatim>\<open>Lookup\<close>.  A pointer to a variable is its name: \<open>Inl\<close> is the exception for an
  invalid name, \<open>None\<close> the null pointer for a variable of another type.\<close>

definition Lookup ::
  "string \<Rightarrow> cvalue \<Rightarrow> string \<Rightarrow> 'w Config \<Rightarrow> (string + string option) \<times> 'w Config" where
  "Lookup name defaultVal description cf =
     (case cf_map cf name of
        Some var \<Rightarrow> (Inr (if type_of (cv_val var) = type_of defaultVal then Some name else None), cf)
      | None \<Rightarrow>
          if find_first_not_of name name_chars \<noteq> None then (Inl name, cf)
          else (Inr (Some name),
                cf\<lparr>cf_map := (cf_map cf)(name \<mapsto> new_ConfigVar name defaultVal description)\<rparr>))"

definition Lookup_existing :: "ctype \<Rightarrow> string \<Rightarrow> 'w Config \<Rightarrow> string option" where
  "Lookup_existing T name cf =
     (case cf_map cf name of
        None \<Rightarrow> None
      | Some var \<Rightarrow> if type_of (cv_val var) = T then Some name else None)"

text \<open>Operations on a variable of the registry.\<close>

definition addListener :: "string \<Rightarrow> 'w listener \<Rightarrow> 'w Config \<Rightarrow> u64 option \<times> 'w Config" where
  "addListener name cb cf =
     (case cf_map cf name of
        None \<Rightarrow> (None, cf)
      | Some var \<Rightarrow>
          let T = type_of (cv_val var); (i, var) = cv_addListener cb (cf_ids cf T) var
          in (Some i, cf\<lparr>cf_map := (cf_map cf)(name \<mapsto> var), cf_ids := (cf_ids cf)(T := i)\<rparr>))"

definition setValue :: "string \<Rightarrow> cvalue \<Rightarrow> 'w Config \<times> 'w \<Rightarrow> 'w Config \<times> 'w" where
  "setValue name val = (\<lambda>(cf, w).
     case cf_map cf name of
       None \<Rightarrow> (cf, w)
     | Some var \<Rightarrow>
         (case cv_setValue val var w of
            (var, w, thrown) \<Rightarrow> (cf\<lparr>cf_map := (cf_map cf)(name \<mapsto> var)\<rparr>, w)))"

definition fromString :: "yaml_lib \<Rightarrow> string \<Rightarrow> string \<Rightarrow> 'w Config \<times> 'w \<Rightarrow> 'w Config \<times> 'w" where
  "fromString lib name f = (\<lambda>(cf, w).
     case LookupBase name cf of
       None \<Rightarrow> (cf, w)
     | Some var \<Rightarrow>
         (case cv_fromString lib f var w of
            (var, w) \<Rightarrow> (cf\<lparr>cf_map := (cf_map cf)(name \<mapsto> var)\<rparr>, w)))"

section \<open>Loading\<close>

text \<open>\<^verbatim>\<open>ListAllNodes\<close>.  The loop over the entries of a map assigns the first key to the prefix when
  the prefix is empty.\<close>

function (sequential) ListAllNodes :: "string \<Rightarrow> yaml \<Rightarrow> (string \<times> yaml) list"
  and node_loop :: "string \<Rightarrow> (string \<times> yaml) list \<Rightarrow> (string \<times> yaml) list" where
  "ListAllNodes prefix (YMap kvs) = (prefix, YMap kvs) # node_loop prefix kvs"
| "ListAllNodes prefix node = [(prefix, node)]"
| "node_loop prefix [] = []"
| "node_loop prefix ((k, v) # kvs) =
     (if prefix = [] then ListAllNodes k v @ node_loop k kvs
      else ListAllNodes (prefix @ ''.'' @ k) v @ node_loop prefix kvs)"
  by pat_completeness auto
termination
  by (relation "measure (\<lambda>x. case x of Inl (_, n) \<Rightarrow> size n
      | Inr (_, kvs) \<Rightarrow> size_list (\<lambda>x. Suc (size (snd x))) kvs)") (auto simp: size_prod_simp)

definition load_node :: "yaml_lib \<Rightarrow> string \<times> yaml \<Rightarrow> 'w Config \<times> 'w \<Rightarrow> 'w Config \<times> 'w" where
  "load_node lib = (\<lambda>(key, n) st.
     if key = [] then st
     else fromString lib key (case n of YScalar s \<Rightarrow> s | _ \<Rightarrow> yl_emit lib n) st)"

definition LoadFromYaml :: "yaml_lib \<Rightarrow> yaml \<Rightarrow> 'w Config \<times> 'w \<Rightarrow> 'w Config \<times> 'w" where
  "LoadFromYaml lib root st = fold (load_node lib) (ListAllNodes [] root) st"

text \<open>\<^verbatim>\<open>LoadFromConfDir\<close>, for what \<^verbatim>\<open>YAML::LoadFile\<close> gives for each file, \<open>None\<close> when it raises an
  exception.\<close>

definition LoadFromConfDir :: "yaml_lib \<Rightarrow> yaml option list \<Rightarrow> 'w Config \<times> 'w \<Rightarrow> 'w Config \<times> 'w" where
  "LoadFromConfDir lib docs st =
     fold (\<lambda>doc st. case doc of None \<Rightarrow> st | Some n \<Rightarrow> LoadFromYaml lib n st) docs st"

text \<open>\<^verbatim>\<open>Visit\<close>, with the order in which the hash table is walked.\<close>

definition Visit :: "string list \<Rightarrow> ('w ConfigVar \<Rightarrow> 'w \<Rightarrow> 'w) \<Rightarrow> 'w Config \<Rightarrow> 'w \<Rightarrow> 'w" where
  "Visit order cb cf w =
     fold (\<lambda>name w. case cf_map cf name of None \<Rightarrow> w | Some var \<Rightarrow> cb var w) order w"

section \<open>The variable of log definitions\<close>

text \<open>The listener of \<^verbatim>\<open>LogIniter\<close> and its registration on the variable \<^verbatim>\<open>logs\<close>.\<close>

definition logs_listener :: "log_env \<Rightarrow> log_state listener" where
  "logs_listener env = (\<lambda>old new w.
     case (old, new) of
       (CLogs old_define, CLogs new_define) \<Rightarrow>
         (case log_listener env old_define new_define w of (w, e) \<Rightarrow> (w, e \<noteq> None))
     | _ \<Rightarrow> (w, False))"

definition LogIniter :: "log_env \<Rightarrow> log_state Config \<Rightarrow> log_state Config" where
  "LogIniter env cf =
     snd (addListener ''logs'' (logs_listener env) (snd (Lookup ''logs'' (CLogs []) ''log config'' cf)))"

section \<open>Names of loaded nodes\<close>

text \<open>The nodes of a tree with the keys that lead to them, in order.\<close>

function (sequential) node_paths :: "yaml \<Rightarrow> (string list \<times> yaml) list"
  and entry_paths :: "(string \<times> yaml) list \<Rightarrow> (string list \<times> yaml) list" where
  "node_paths (YMap kvs) = ([], YMap kvs) # entry_paths kvs"
| "node_paths node = [([], node)]"
| "entry_paths [] = []"
| "entry_paths ((k, v) # kvs) = map (apfst (Cons k)) (node_paths v) @ entry_paths kvs"
  by pat_completeness auto
termination
  by (relation "measure (\<lambda>x. case x of Inl n \<Rightarrow> size n
      | Inr kvs \<Rightarrow> size_list (\<lambda>x. Suc (size (snd x))) kvs)") (auto simp: size_prod_simp)

text \<open>The name of a path: its keys separated by dots.\<close>

fun dotted :: "string list \<Rightarrow> string" where
  "dotted [] = []"
| "dotted [k] = k"
| "dotted (k # ks) = k @ ''.'' @ dotted ks"

lemma dotted_join: "dotted ((p @ CHR ''.'' # k) # ks) = p @ CHR ''.'' # dotted (k # ks)"
  by (cases ks) simp_all

lemma ListAllNodes_paths:
  "prefix \<noteq> [] \<Longrightarrow> ListAllNodes prefix n = map (\<lambda>(ks, m). (dotted (prefix # ks), m)) (node_paths n)"
  "prefix \<noteq> [] \<Longrightarrow> node_loop prefix kvs = map (\<lambda>(ks, m). (dotted (prefix # ks), m)) (entry_paths kvs)"
  by (induction prefix n and prefix kvs rule: ListAllNodes_node_loop.induct)
    (simp_all add: dotted_join case_prod_beta)

text \<open>The names under which the nodes of a configuration file are looked up.  Everything below
  the first key of the file has the name its path spells; everything below another key of the file
  has the name of its path behind the first key.\<close>

lemma loaded_names:
  assumes "k \<noteq> []"
  shows "ListAllNodes [] (YMap ((k, v) # kvs)) =
    ([], YMap ((k, v) # kvs)) #
    map (\<lambda>(ks, n). (dotted (k # ks), n)) (node_paths v) @
    map (\<lambda>(ks, n). (dotted (k # ks), n)) (entry_paths kvs)"
  using assms by (simp add: ListAllNodes_paths)

lemma loaded_names_example:
  "map fst (ListAllNodes [] (YMap
     [(''tcp'', YMap [(''timeout'', YScalar ''5'')]), (''http'', YMap [(''size'', YScalar ''1'')])])) =
   [[], ''tcp'', ''tcp.timeout'', ''tcp.http'', ''tcp.http.size'']"
  using loaded_names [of "''tcp''" "YMap [(''timeout'', YScalar ''5'')]"
      "[(''http'', YMap [(''size'', YScalar ''1'')])]"] by simp

section \<open>Scalars\<close>

lemma of_char_digit: "n < 10 \<Longrightarrow> of_char (char_of (48 + n) :: char) = (48 + n :: nat)"
  by (simp add: of_char_of)

lemma dec_digits: "list_all isdigit (dec n) \<and> dec n \<noteq> [] \<and> digits_value (dec n) = n"
proof (induction n rule: dec.induct)
  case (1 n)
  have "isdigit (char_of (48 + n mod 10))" "of_char (char_of (48 + n mod 10) :: char) - 48 = n mod 10"
    using of_char_digit [of "n mod 10"] by (simp_all add: isdigit_def)
  then show ?case
    using 1 by (subst (1 2 3) dec.simps) (auto simp: digits_value_def)
qed

lemma isdigit_not_space: "isdigit c \<Longrightarrow> \<not> isspace c"
  by (auto simp: isdigit_def isspace_def)

lemma digits_split:
  assumes "list_all isdigit ds" and "take 1 rest = [] \<or> \<not> isdigit (hd rest)"
  shows "takeWhile isdigit (ds @ rest) = ds" "dropWhile isdigit (ds @ rest) = rest"
  using assms by (induction ds) (cases rest; simp)+

lemma word_split:
  assumes "list_all (\<lambda>c. \<not> isspace c) w" and "take 1 rest = [] \<or> isspace (hd rest)"
  shows "takeWhile (\<lambda>c. \<not> isspace c) (w @ rest) = w" "dropWhile (\<lambda>c. \<not> isspace c) (w @ rest) = rest"
  using assms by (induction w) (cases rest; simp)+

lemma skip_ws_word: "list_all (\<lambda>c. \<not> isspace c) w \<Longrightarrow> w \<noteq> [] \<Longrightarrow> skip_ws (w @ rest) = w @ rest"
  by (cases w) (simp_all add: skip_ws_def)

lemma get_word_word:
  assumes "list_all (\<lambda>c. \<not> isspace c) w" and "w \<noteq> []" and "take 1 rest = [] \<or> isspace (hd rest)"
  shows "get_word (w @ rest) = Some (w, rest)"
  using assms by (simp add: get_word_def Let_def skip_ws_word word_split)

text \<open>The text of an integer, as the standard library prints it.\<close>

definition int_text :: "int \<Rightarrow> string" where
  "int_text n = (if n < 0 then ''-'' @ dec (nat (- n)) else dec (nat n))"

lemma sign_facts [simp]:
  "\<not> isdigit CHR ''-''" "\<not> isspace CHR ''-''" "\<not> isdigit CHR ''+''"
  by (simp_all add: isdigit_def isspace_def)

lemma dec_no_space: "list_all (\<lambda>c. \<not> isspace c) (dec n)"
  using dec_digits [of n] isdigit_not_space by (auto simp: list_all_iff)

lemma int_text_word: "list_all (\<lambda>c. \<not> isspace c) (int_text n) \<and> int_text n \<noteq> []"
  using dec_no_space dec_digits by (simp add: int_text_def)

lemma dec_no_sign: "take 1 (dec n @ rest) \<noteq> ''-''" "take 1 (dec n @ rest) \<noteq> ''+''"
  using dec_digits [of n] by (cases "dec n"; auto)+

lemma get_number_text:
  assumes "take 1 rest = [] \<or> \<not> isdigit (hd rest)"
  shows "get_number (int_text n @ rest) = Some (n, rest)"
proof -
  have "skip_ws (int_text n @ rest) = int_text n @ rest"
    using int_text_word [of n] by (simp add: skip_ws_word)
  then show ?thesis
    using dec_digits dec_no_sign [of "nat n" rest] digits_split [OF _ assms]
    by (simp add: get_number_def Let_def int_text_def)
qed

text \<open>The text a value is written with in a file.\<close>

fun scalar_text :: "cvalue \<Rightarrow> string" where
  "scalar_text (CInt v) = int_text (sint v)"
| "scalar_text (CU32 v) = int_text (uint v)"
| "scalar_text (CU64 v) = int_text (uint v)"
| "scalar_text (CStr s) = s"
| "scalar_text (CLogs ds) = []"

definition is_scalar :: "cvalue \<Rightarrow> bool" where
  "is_scalar v \<longleftrightarrow> type_of v \<noteq> TLogs \<and> list_all (\<lambda>c. \<not> isspace c) (scalar_text v) \<and> scalar_text v \<noteq> []"

lemma dec_unat: "dec (unat v) = int_text (uint v)"
  by (simp add: int_text_def not_less)

lemma print_int_text: "print_int v = int_text (sint v)"
  by (simp add: print_int_def int_text_def)

lemma cast_word: "list_all (\<lambda>c. \<not> isspace c) w \<Longrightarrow> lexical_cast get_word w = None"
  using get_word_word [of w "[]"]
  by (cases "w = []") (simp_all add: lexical_cast_def skip_ws_def get_word_def)

lemma from_text_scalar:
  assumes "is_scalar v" and "take 1 rest = [] \<or> isspace (hd rest)"
  shows "from_text lib (type_of v) (scalar_text v @ rest) = (if skip_ws rest = [] then None else Some v)"
proof -
  have rest: "take 1 rest = [] \<or> \<not> isdigit (hd rest)" using assms(2) isdigit_not_space by blast
  have range: "- (2 ^ 31) \<le> sint (x :: u32) \<and> sint x < 2 ^ 31" "\<bar>uint x\<bar> < 2 ^ 32" "\<bar>uint (y :: u64)\<bar> < 2 ^ 64" for x y
    using sint_greater_eq [of x] sint_less [of x] uint_bounded [of x] uint_bounded [of y] by simp_all
  show ?thesis
  proof (cases v)
    case (CStr s)
    then show ?thesis
      using assms get_word_word [of s rest] by (simp add: is_scalar_def lexical_cast_def)
  qed (use assms(1) get_number_text [OF rest] range in
      \<open>simp_all add: is_scalar_def lexical_cast_def get_int_def get_uint32_def get_uint64_def\<close>)
qed

lemma to_text_scalar: "is_scalar v \<Longrightarrow> to_text lib v = None"
  by (cases v) (simp_all add: is_scalar_def dec_unat print_int_text cast_word)

text \<open>A scalar variable is never loaded from the text of its value: the conversion refuses every
  text that is a value and nothing else, in either direction, and takes a value only when other
  text follows it.\<close>

lemma scalar_conversion_refused:
  assumes "is_scalar v" and "type_of v = type_of (cv_val var)"
  shows "cv_fromString lib (scalar_text v) var w = (var, w) \<and>
    cv_toString lib (var\<lparr>cv_val := v\<rparr>) = [] \<and>
    (\<not> isspace c \<longrightarrow> cv_fromString lib (scalar_text v @ '' '' @ [c]) var w =
       (case cv_setValue v var w of (var, w, thrown) \<Rightarrow> (var, w)))"
proof -
  have "isspace CHR '' ''" by (simp add: isspace_def)
  then show ?thesis
    using from_text_scalar [OF assms(1), of "[]" lib] from_text_scalar [OF assms(1), of "'' '' @ [c]" lib]
      to_text_scalar [OF assms(1)] assms(2)
    by (simp add: cv_fromString_def cv_toString_def skip_ws_def)
qed

text \<open>A library for examples: it knows the text of the nodes of a table.\<close>

definition table_lib :: "(yaml \<times> string) list \<Rightarrow> yaml_lib" where
  "table_lib tbl =
     \<lparr>yl_load = map_of (map prod.swap tbl),
      yl_emit = (\<lambda>n. case map_of tbl n of None \<Rightarrow> [] | Some s \<Rightarrow> s),
      yl_get = (\<lambda>n k. case n of YMap kvs \<Rightarrow> Some (map_of kvs k) | YScalar _ \<Rightarrow> None | _ \<Rightarrow> Some None),
      yl_elems = (\<lambda>n. case n of YSeq ns \<Rightarrow> ns | _ \<Rightarrow> []),
      yl_entries = (\<lambda>n. case n of YMap kvs \<Rightarrow> Some kvs | _ \<Rightarrow> Some []),
      yl_text = (\<lambda>n. case n of YScalar s \<Rightarrow> Some s | _ \<Rightarrow> None)\<rparr>"

lemma table_lib_ok: "yaml_lib_ok (table_lib tbl)"
  by (simp add: yaml_lib_ok_def table_lib_def)

lemma scalar_conversion_refused_example:
  "cv_fromString (table_lib []) ''80'' (new_ConfigVar ''port'' (CU64 8) [] :: unit ConfigVar) () =
     (new_ConfigVar ''port'' (CU64 8) [], ()) \<and>
   cv_fromString (table_lib []) ''80 x'' (new_ConfigVar ''port'' (CU64 8) [] :: unit ConfigVar) () =
     (new_ConfigVar ''port'' (CU64 80) [], ())"
proof -
  let ?var = "new_ConfigVar ''port'' (CU64 8) [] :: unit ConfigVar"
  have eighty: "scalar_text (CU64 80) = ''80''"
    by code_simp
  then have scalar: "is_scalar (CU64 80)" by (simp add: is_scalar_def isspace_def)
  have "cv_setValue (CU64 80) ?var () = (new_ConfigVar ''port'' (CU64 80) [], (), False)"
    by (simp add: cv_setValue_def new_ConfigVar_def)
  then show ?thesis
    using scalar_conversion_refused [OF scalar, of ?var "table_lib []" "()" "CHR ''x''"] eighty
    by (simp add: new_ConfigVar_def isspace_def)
qed

section \<open>Change notification\<close>

interpretation ids: strict_weak_order "(<) :: u64 \<Rightarrow> u64 \<Rightarrow> bool"
  by unfold_locales auto

lemma call_listeners_append:
  "call_listeners (as @ bs) old new w =
     (case call_listeners as old new w of (w, thrown) \<Rightarrow> if thrown then (w, True) else call_listeners bs old new w)"
  by (induction as arbitrary: w) (auto split: prod.splits)

text \<open>Calling a list of listeners one after the other.\<close>

definition call_all :: "(u64, 'w listener) omap \<Rightarrow> cvalue \<Rightarrow> cvalue \<Rightarrow> 'w \<Rightarrow> 'w" where
  "call_all ls old new w = fold (\<lambda>(i, cb) w. fst (cb old new w)) ls w"

lemma call_listeners_quiet:
  assumes "\<forall>l \<in> set ls. \<forall>v. \<not> snd (snd l old new v)"
  shows "call_listeners ls old new w = (call_all ls old new w, False)"
  using assms
proof (induction ls arbitrary: w)
  case (Cons l ls)
  obtain i cb where l: "l = (i, cb)" by (cases l)
  obtain w' where "cb old new w = (w', False)"
    using Cons.prems l by (cases "cb old new w") (metis list.set_intros(1) snd_conv)
  then show ?case using Cons.IH [of w'] Cons.prems l by (simp add: call_all_def)
qed (simp add: call_all_def)

lemma cvalue_eq_refl [simp]: "cvalue_eq v v"
  by (cases v) (simp_all add: defines_eq_def LogDefine_eq_def LogAppenderDefine_eq_def list.rel_refl)

text \<open>C29: A value that differs from the current one is reported to every listener once, in the
  order of registration, with the old and the new value, and is stored after the last call; an
  equal value is reported to nobody.  When a listener raises an exception the listeners behind it
  are not called and the old value stays, whatever the others have already done.  Registering
  gives a listener that is found under its number until it is deleted.\<close>

theorem change_notification:
  assumes "map_ok (<) (cv_listeners var)" and "\<not> cvalue_eq val (cv_val var)"
    and "cv_listeners var = as @ bs"
    and "\<forall>l \<in> set as. \<forall>v. \<not> snd (snd l (cv_val var) val v)"
    and "bs \<noteq> [] \<longrightarrow> (\<forall>v. snd (snd (hd bs) (cv_val var) val v))"
  shows "cv_setValue val var w =
      (if bs = [] then (var\<lparr>cv_val := val\<rparr>, call_all as (cv_val var) val w, False)
       else (var, fst (snd (hd bs) (cv_val var) val (call_all as (cv_val var) val w)), True)) \<and>
    sorted_wrt (<) (map fst (cv_listeners var)) \<and>
    cv_setValue (cv_val var) var w = (var, w, False) \<and>
    (\<forall>cb n i var'. cv_addListener cb n var = (i, var') \<longrightarrow>
       cv_getListener i var' = Some cb \<and> cv_getListener i (cv_delListener i var') = None)"
proof (intro conjI allI impI)
  have "call_listeners (cv_listeners var) (cv_val var) val w =
      (if bs = [] then (call_all as (cv_val var) val w, False)
       else (fst (snd (hd bs) (cv_val var) val (call_all as (cv_val var) val w)), True))"
    using assms(5) unfolding assms(3)
    by (cases bs; cases "snd (hd bs) (cv_val var) val (call_all as (cv_val var) val w)")
      (auto simp: call_listeners_append call_listeners_quiet [OF assms(4)] dest!: spec [of _ "call_all as (cv_val var) val w"])
  then show "cv_setValue val var w =
      (if bs = [] then (var\<lparr>cv_val := val\<rparr>, call_all as (cv_val var) val w, False)
       else (var, fst (snd (hd bs) (cv_val var) val (call_all as (cv_val var) val w)), True))"
    using assms(2) by (simp add: cv_setValue_def)
  show "sorted_wrt (<) (map fst (cv_listeners var))" using assms(1) by (simp add: map_ok_def)
  show "cv_setValue (cv_val var) var w = (var, w, False)" by (simp add: cv_setValue_def)
  fix cb n i var'
  assume "cv_addListener cb n var = (i, var')"
  then show "cv_getListener i var' = Some cb" "cv_getListener i (cv_delListener i var') = None"
    using assms(1)
    by (auto simp: cv_addListener_def cv_getListener_def cv_delListener_def Let_def same_key_def
        ids.map_ok_set ids.map_find_set ids.map_find_erase)
qed

definition note_listener :: "nat \<Rightarrow> bool \<Rightarrow> nat list listener" where
  "note_listener n thrown = (\<lambda>old new w. (w @ [n], thrown))"

theorem change_notification_witness:
  "cv_setValue (CU32 9) ((new_ConfigVar ''a'' (CU32 5) [])
     \<lparr>cv_listeners := [(1, note_listener 1 False), (2, note_listener 2 True), (3, note_listener 3 False)]\<rparr>) [] =
   ((new_ConfigVar ''a'' (CU32 5) [])
     \<lparr>cv_listeners := [(1, note_listener 1 False), (2, note_listener 2 True), (3, note_listener 3 False)]\<rparr>,
    [1, 2], True)"
  using change_notification [where var = "(new_ConfigVar ''a'' (CU32 5) [])
     \<lparr>cv_listeners := [(1, note_listener 1 False), (2, note_listener 2 True), (3, note_listener 3 False)]\<rparr>"
      and as = "[(1, note_listener 1 False)]" and bs = "[(2, note_listener 2 True), (3, note_listener 3 False)]"
      and val = "CU32 9" and w = "[]"]
  by (auto simp: map_ok_Cons new_ConfigVar_def note_listener_def call_all_def)

section \<open>Changes of log definitions\<close>

lemma LogDefine_eq_iff:
  "LogDefine_eq a b \<longleftrightarrow> a\<lparr>ld_appenders := []\<rparr> = b\<lparr>ld_appenders := []\<rparr>"
  by (cases a; cases b) (auto simp: LogDefine_eq_def LogAppenderDefine_eq_def list.rel_refl)

lemma list_all2_map_eq: "list_all2 (\<lambda>a b. f a = f b) xs ys \<longleftrightarrow> map f xs = map f ys"
  by (simp add: list.rel_eq [symmetric] list.rel_map)

text \<open>A new set of log definitions is taken for the old one, and neither stored nor reported to
  the loggers, exactly when the two agree in everything but the appenders: a change of the appenders
  of a logger has no effect.\<close>

lemma appender_change_ignored:
  assumes "cv_val var = CLogs old"
  shows "(map (ld_appenders_update (\<lambda>_. [])) new = map (ld_appenders_update (\<lambda>_. [])) old \<longrightarrow>
      cv_setValue (CLogs new) var w = (var, w, False)) \<and>
    (cvalue_eq (CLogs new) (CLogs old) \<longleftrightarrow>
      map (ld_appenders_update (\<lambda>_. [])) new = map (ld_appenders_update (\<lambda>_. [])) old)"
proof -
  have "cvalue_eq (CLogs new) (CLogs old) \<longleftrightarrow>
      map (ld_appenders_update (\<lambda>_. [])) new = map (ld_appenders_update (\<lambda>_. [])) old"
    by (simp add: defines_eq_def list_all2_map_eq [symmetric] LogDefine_eq_iff [abs_def])
  then show ?thesis using assms by (simp add: cv_setValue_def)
qed

lemma appender_change_ignored_example:
  "cv_setValue (CLogs [file_define\<lparr>ld_appenders := []\<rparr>])
     (new_ConfigVar ''logs'' (CLogs [file_define]) [] :: log_state ConfigVar) new_LoggerManager =
   (new_ConfigVar ''logs'' (CLogs [file_define]) [], new_LoggerManager, False)"
  using appender_change_ignored [of "new_ConfigVar ''logs'' (CLogs [file_define]) [] :: log_state ConfigVar"
      "[file_define]" "[file_define\<lparr>ld_appenders := []\<rparr>]" new_LoggerManager]
  by (simp add: new_ConfigVar_def)

section \<open>The registry\<close>

definition value_ok :: "cvalue \<Rightarrow> bool" where
  "value_ok v \<longleftrightarrow> (\<forall>ds. v = CLogs ds \<longrightarrow> sorted_wrt LogDefine_less ds)"

definition var_ok :: "string \<Rightarrow> 'w ConfigVar \<Rightarrow> bool" where
  "var_ok name var \<longleftrightarrow>
     set name \<subseteq> set name_chars \<and> cv_name var = name \<and> map_ok (<) (cv_listeners var) \<and> value_ok (cv_val var)"

definition config_ok :: "'w Config \<Rightarrow> bool" where
  "config_ok cf \<longleftrightarrow> (\<forall>name var. cf_map cf name = Some var \<longrightarrow> var_ok name var)"

text \<open>The steps of the interface, on the registry and the world the listeners change.  A typed
  pointer to a variable exists only when its type is that of the variable.\<close>

inductive config_step :: "'w Config \<times> 'w \<Rightarrow> 'w Config \<times> 'w \<Rightarrow> bool" where
  Lookup: "value_ok v \<Longrightarrow> Lookup name v description cf = (r, cf') \<Longrightarrow> config_step (cf, w) (cf', w)"
| setValue: "value_ok v \<Longrightarrow> Lookup_existing (type_of v) name cf \<noteq> None \<Longrightarrow>
    config_step (cf, w) (setValue name v (cf, w))"
| fromString: "config_step st (fromString lib name f st)"
| addListener: "addListener name cb cf = (r, cf') \<Longrightarrow> config_step (cf, w) (cf', w)"
| delListener: "cf_map cf name = Some var \<Longrightarrow>
    config_step (cf, w) (cf\<lparr>cf_map := (cf_map cf)(name \<mapsto> cv_delListener i var)\<rparr>, w)"
| clearListener: "cf_map cf name = Some var \<Longrightarrow>
    config_step (cf, w) (cf\<lparr>cf_map := (cf_map cf)(name \<mapsto> cv_clearListener var)\<rparr>, w)"

definition new_Config :: "'w Config" where
  "new_Config = \<lparr>cf_map = Map.empty, cf_ids = (\<lambda>_. 0)\<rparr>"

lemma to_lower_name: "c \<in> set name_chars \<Longrightarrow> to_lower c = c"
  by (auto simp: name_chars_def to_lower_def)

lemma insert_elems_sorted:
  "insert_elems cast LogDefine_less lib ns ans = Some r \<Longrightarrow> sorted_wrt LogDefine_less ans \<Longrightarrow>
   sorted_wrt LogDefine_less r"
  by (induction cast LogDefine_less lib ns ans rule: insert_elems.induct)
    (auto simp: ld.sorted_insert bind_eq_Some_conv)

lemma from_text_type: "from_text lib T f = Some v \<Longrightarrow> type_of v = T \<and> value_ok v"
  by (cases T) (auto simp: value_ok_def parse_set_def bind_eq_Some_conv intro: insert_elems_sorted)

lemma var_ok_new:
  assumes "set name \<subseteq> set name_chars" and "value_ok v"
  shows "var_ok name (new_ConfigVar name v description)"
proof -
  have "map to_lower name = name" using assms(1) to_lower_name by (intro map_idI) blast
  then show ?thesis using assms by (simp add: var_ok_def new_ConfigVar_def)
qed

text \<open>What an operation may do to a variable.\<close>

definition var_kept :: "'w ConfigVar \<Rightarrow> 'w ConfigVar \<Rightarrow> bool" where
  "var_kept var var' \<longleftrightarrow> type_of (cv_val var') = type_of (cv_val var) \<and> cv_name var' = cv_name var"

lemma cv_setValue_kept:
  assumes "cv_setValue v var w = (var', w', thrown)" and "type_of v = type_of (cv_val var)" and "value_ok v"
  shows "var_kept var var' \<and> (var_ok name var \<longrightarrow> var_ok name var')"
  using assms by (auto simp: cv_setValue_def var_kept_def var_ok_def split: if_splits prod.splits bool.splits)

lemma cv_fromString_kept:
  assumes "cv_fromString lib f var w = (var', w')"
  shows "var_kept var var' \<and> (var_ok name var \<longrightarrow> var_ok name var')"
proof (cases "from_text lib (type_of (cv_val var)) f")
  case None
  then show ?thesis using assms by (simp add: cv_fromString_def var_kept_def)
next
  case (Some v)
  obtain thrown where "cv_setValue v var w = (var', w', thrown)"
    using assms Some by (auto simp: cv_fromString_def split: prod.splits)
  then show ?thesis using cv_setValue_kept [of v var w var' w' thrown name] from_text_type [OF Some] by simp
qed

lemma listeners_kept:
  "var_kept var (cv_delListener i var)" "var_ok name var \<Longrightarrow> var_ok name (cv_delListener i var)"
  "var_kept var (cv_clearListener var)" "var_ok name var \<Longrightarrow> var_ok name (cv_clearListener var)"
  "cv_addListener cb n var = (j, var') \<Longrightarrow> var_kept var var'"
  "cv_addListener cb n var = (j, var') \<Longrightarrow> var_ok name var \<Longrightarrow> var_ok name var'"
  by (auto simp: var_kept_def var_ok_def cv_delListener_def cv_clearListener_def cv_addListener_def Let_def
      ids.map_ok_ops)

text \<open>A step keeps the invariant, and every variable with its type.\<close>

definition config_kept :: "'w Config \<Rightarrow> 'w Config \<Rightarrow> bool" where
  "config_kept cf cf' \<longleftrightarrow> (config_ok cf \<longrightarrow> config_ok cf') \<and>
     (\<forall>name var. cf_map cf name = Some var \<longrightarrow> (\<exists>var'. cf_map cf' name = Some var' \<and> var_kept var var'))"

lemma var_kept_refl [simp]: "var_kept var var"
  by (simp add: var_kept_def)

lemma config_kept_update:
  assumes "cf_map cf name = Some var" and "var_kept var var'" and "var_ok name var \<Longrightarrow> var_ok name var'"
    and "cf_map cf' = (cf_map cf)(name \<mapsto> var')"
  shows "config_kept cf cf'"
  using assms by (auto simp: config_kept_def config_ok_def)

lemma config_kept_same [simp]: "config_kept cf cf"
  by (auto simp: config_kept_def)

lemma config_step_kept: "config_step st st' \<Longrightarrow> config_kept (fst st) (fst st')"
proof (induction rule: config_step.induct)
  case (Lookup v name description cf r cf' w)
  then show ?case
    using var_ok_new [of name v description]
    by (auto simp: Lookup_def config_kept_def config_ok_def find_first_None
        split: option.splits if_splits)
next
  case (setValue v name cf w)
  then obtain var where var: "cf_map cf name = Some var" "type_of v = type_of (cv_val var)"
    by (auto simp: Lookup_existing_def split: option.splits if_splits)
  obtain var' w' thrown where r: "cv_setValue v var w = (var', w', thrown)" by (cases "cv_setValue v var w")
  show ?case
    using var cv_setValue_kept [OF r var(2) setValue(1)] r
    by (auto simp: setValue_def intro!: config_kept_update)
next
  case (fromString st lib name f)
  obtain cf w where st: "st = (cf, w)" by (cases st)
  show ?case
  proof (cases "cf_map cf name")
    case None
    then show ?thesis by (simp add: st fromString_def LookupBase_def)
  next
    case (Some var)
    obtain var' w' where r: "cv_fromString lib f var w = (var', w')" by fastforce
    show ?thesis
      using cv_fromString_kept [OF r] Some r
      by (auto simp: st fromString_def LookupBase_def intro!: config_kept_update [OF Some])
  qed
next
  case (addListener name cb cf r cf' w)
  show ?case
  proof (cases "cf_map cf name")
    case None
    then show ?thesis using addListener by (simp add: addListener_def)
  next
    case (Some var)
    obtain i var' where a: "cv_addListener cb (cf_ids cf (type_of (cv_val var))) var = (i, var')" by fastforce
    show ?thesis
      using addListener Some a listeners_kept(5,6) [OF a]
      by (auto simp: addListener_def Let_def intro!: config_kept_update [OF Some])
  qed
next
  case (delListener cf name var w i)
  then show ?case using config_kept_update [OF delListener listeners_kept(1,2)] by simp
next
  case (clearListener cf name var w)
  then show ?case using config_kept_update [OF clearListener listeners_kept(3,4)] by simp
qed

lemma config_kept_trans: "config_kept a b \<Longrightarrow> config_kept b c \<Longrightarrow> config_kept a c"
  unfolding config_kept_def var_kept_def by metis

lemma config_steps_kept: "config_step\<^sup>*\<^sup>* st st' \<Longrightarrow> config_kept (fst st) (fst st')"
  by (induction rule: rtranclp_induct) (auto dest: config_step_kept intro: config_kept_trans)

lemma load_node_steps: "config_step\<^sup>*\<^sup>* st (load_node lib n st)"
  by (cases n) (auto simp: load_node_def intro: config_step.fromString)

lemma fold_steps:
  assumes "\<And>x st. r\<^sup>*\<^sup>* st (f x st)"
  shows "r\<^sup>*\<^sup>* st (fold f xs st)"
proof (induction xs arbitrary: st)
  case (Cons x xs)
  then show ?case using rtranclp_trans [OF assms [of st x] Cons [of "f x st"]] by simp
qed simp

lemma LoadFromYaml_steps: "config_step\<^sup>*\<^sup>* st (LoadFromYaml lib root st)"
  unfolding LoadFromYaml_def by (intro fold_steps load_node_steps)

lemma LoadFromConfDir_steps: "config_step\<^sup>*\<^sup>* st (LoadFromConfDir lib docs st)"
  unfolding LoadFromConfDir_def by (rule fold_steps) (simp add: LoadFromYaml_steps split: option.split)

text \<open>C22: In every state of the registry the name of a variable is the key it is found under and
  consists of valid characters, and its listeners are ordered by their numbers; and once a variable
  was created, no operation, loading of files included, removes it or changes its type, so that a
  pointer of its type stays valid.\<close>

theorem registry_typed:
  assumes "config_step\<^sup>*\<^sup>* (new_Config, w0) (cf, w)" and "config_step\<^sup>*\<^sup>* (cf, w) (cf', w')"
    and "Lookup_existing T name cf = Some name"
  shows "config_ok cf \<and> Lookup_existing T name (fst (LoadFromConfDir lib docs (cf', w'))) = Some name \<and>
    (\<exists>var. LookupBase name cf' = Some var \<and> cv_name var = name \<and> set name \<subseteq> set name_chars)"
proof -
  have ok: "config_ok cf"
    using config_steps_kept [OF assms(1)] by (simp add: config_kept_def config_ok_def new_Config_def)
  obtain var where var: "cf_map cf name = Some var" "type_of (cv_val var) = T"
    using assms(3) by (auto simp: Lookup_existing_def split: option.splits if_splits)
  have kept: "config_kept cf cf'" "config_kept cf (fst (LoadFromConfDir lib docs (cf', w')))"
    using config_steps_kept [OF assms(2)] config_steps_kept [OF LoadFromConfDir_steps, of "(cf', w')" lib docs]
    by (auto intro: config_kept_trans)
  obtain var1 var2 where v: "cf_map cf' name = Some var1" "var_kept var var1"
      "cf_map (fst (LoadFromConfDir lib docs (cf', w'))) name = Some var2" "var_kept var var2"
    using kept var(1) unfolding config_kept_def by blast
  have "var_ok name var" using ok var(1) by (simp add: config_ok_def)
  then show ?thesis
    using ok var v by (simp add: Lookup_existing_def LookupBase_def var_kept_def var_ok_def)
qed

theorem registry_typed_witness:
  "\<exists>cf. config_ok (cf :: unit Config) \<and>
     Lookup_existing TU32 ''a.b'' (fst (LoadFromConfDir (table_lib []) [None] (cf, ()))) = Some ''a.b''"
proof -
  let ?cf = "snd (Lookup ''a.b'' (CU32 1) [] (new_Config :: unit Config))"
  have step: "config_step (new_Config, ()) (?cf, ())"
    by (rule config_step.Lookup [where v = "CU32 1" and name = "''a.b''" and description = "[]"
          and r = "fst (Lookup ''a.b'' (CU32 1) [] (new_Config :: unit Config))"])
      (simp_all add: value_ok_def)
  have "Lookup_existing TU32 ''a.b'' ?cf = Some ''a.b''"
    by (simp add: Lookup_existing_def Lookup_def new_Config_def name_chars_def new_ConfigVar_def)
  then show ?thesis
    using registry_typed [of "()" ?cf "()" ?cf "()" TU32 "''a.b''" "table_lib []" "[None]"] step by blast
qed

section \<open>Text of log definitions\<close>

text \<open>What is kept of a definition that is written and read again: not its pattern, and of an
  appender neither the level nor, when it writes to the standard output, the file.\<close>

definition kept_appender :: "LogAppenderDefine \<Rightarrow> LogAppenderDefine" where
  "kept_appender a = a\<lparr>ad_level := UNKONWN, ad_file := (if ad_type a = 0 then [] else ad_file a)\<rparr>"

definition kept_define :: "LogDefine \<Rightarrow> LogDefine" where
  "kept_define d = d\<lparr>ld_format := [], ld_appenders := map kept_appender (ld_appenders d)\<rparr>"

lemma parse_appender_node:
  assumes "yaml_lib_ok lib" and "ad_type a = 0 \<or> ad_type a = 1"
  shows "parse_appender lib (appender_node a) = Some (Some (kept_appender a))"
  using assms
  by (auto simp: parse_appender_def appender_node_def yaml_lib_ok_def text_or_def kept_appender_def
      new_LogAppenderDefine_def)

lemma parse_appenders_nodes:
  assumes "yaml_lib_ok lib" and "\<forall>a \<in> set as. ad_type a = 0 \<or> ad_type a = 1"
  shows "parse_appenders lib (map appender_node as) = Some (map kept_appender as)"
  using assms by (induction as) (simp_all add: parse_appender_node)

lemma parse_print_define:
  assumes "yaml_lib_ok lib" and "\<forall>a \<in> set (ld_appenders d). ad_type a = 0 \<or> ad_type a = 1"
    and "yl_load lib (print_define lib d) = Some (define_node d)"
  shows "parse_define lib (print_define lib d) = Some (kept_define d)"
proof -
  have lib: "yl_get lib (YMap kvs) k = Some (map_of kvs k)" "yl_text lib (YScalar s) = Some s"
    "yl_elems lib (YSeq ns) = ns" for kvs k s ns
    using assms(1) by (simp_all add: yaml_lib_ok_def)
  have level: "FromString [] = UNKONWN" by (simp add: FromString_def level_names_def)
  show ?thesis
    unfolding parse_define_def assms(3) bind.bind_lunit
    using parse_appenders_nodes [OF assms(1,2)]
    by (simp add: define_node_def lib text_or_def kept_define_def level)
qed

text \<open>A log definition that is written as text and read again comes back with its name, its level
  and its appenders with their kinds, patterns and files; the pattern of the logger and the levels of
  the appenders are lost.\<close>

lemma log_definition_round_trip:
  assumes "yaml_lib_ok lib" and "\<forall>a \<in> set (ld_appenders d). ad_type a = 0 \<or> ad_type a = 1"
    and "yl_load lib (print_define lib d) = Some (define_node d)"
  shows "parse_define lib (print_define lib d) = Some (kept_define d)"
  using assms by (rule parse_print_define)

lemma log_definition_round_trip_example:
  "parse_define (table_lib [(define_node file_define, ''t'')])
     (print_define (table_lib [(define_node file_define, ''t'')]) file_define) = Some (kept_define file_define)"
  by (rule log_definition_round_trip [OF table_lib_ok])
    (simp_all add: file_define_def table_lib_def print_define_def)

section \<open>From the file to the loggers\<close>

lemma insert_elems_set:
  assumes "list_all2 (\<lambda>n d. cast (yl_emit lib n) = Some d) ns ds"
    and "sorted_wrt LogDefine_less ans" and "distinct (map ld_name ds)"
    and "ld_name ` set ds \<inter> ld_name ` set ans = {}"
  shows "\<exists>r. insert_elems cast LogDefine_less lib ns ans = Some r \<and> sorted_wrt LogDefine_less r \<and>
    set r = set ans \<union> set ds"
  using assms
proof (induction ns ds arbitrary: ans rule: list_all2_induct)
  case (Cons n ns d ds)
  have none: "set_find LogDefine_less d ans = None" using Cons.prems by (auto simp: ld_find_None)
  have "ld_name ` set ds \<inter> ld_name ` set (set_insert LogDefine_less d ans) = {}"
    using Cons.prems by (auto simp: ld.set_set_insert [OF none])
  then show ?case
    using Cons.IH [OF ld.sorted_insert [OF Cons.prems(1), of d]] Cons.prems Cons.hyps
    by (auto simp: ld.set_set_insert [OF none])
qed simp

text \<open>The registry as far as the log definitions are concerned: the variable \<^verbatim>\<open>logs\<close> has the value \<open>old\<close> and the listener
  of the logging, and no variable has a name below it.\<close>

definition logs_var :: "log_env \<Rightarrow> LogDefine list \<Rightarrow> log_state Config \<Rightarrow> bool" where
  "logs_var env old cf \<longleftrightarrow>
     (\<exists>var i. cf_map cf ''logs'' = Some var \<and> cv_val var = CLogs old \<and> cv_listeners var = [(i, logs_listener env)]) \<and>
     (\<forall>n. cf_map cf (''logs.'' @ n) = None)"

lemma logs_var_start: "logs_var env [] (LogIniter env new_Config)"
  by (simp add: logs_var_def LogIniter_def Lookup_def new_Config_def name_chars_def addListener_def cv_addListener_def
      new_ConfigVar_def Let_def)

lemma entry_paths_nonempty: "(ks, n) \<in> set (entry_paths kvs) \<Longrightarrow> ks \<noteq> []"
  by (induction kvs) auto

lemma fold_skip: "(\<And>x. x \<in> set xs \<Longrightarrow> f x st = st) \<Longrightarrow> fold f xs st = st"
  by (induction xs) auto

text \<open>In a file whose first key is \<^verbatim>\<open>logs\<close> nothing else is found.\<close>

lemma load_logs_first:
  assumes "fromString lib ''logs'' (yl_emit lib (YSeq ns)) (cf, w) = (cf', w')" and "\<forall>n. cf_map cf' (''logs.'' @ n) = None"
  shows "LoadFromYaml lib (YMap ((''logs'', YSeq ns) # kvs)) (cf, w) = (cf', w')"
proof -
  have "load_node lib x (cf', w') = (cf', w')"
    if x: "x \<in> set (map (\<lambda>(ks, n). (dotted (''logs'' # ks), n)) (entry_paths kvs))" for x
  proof -
    obtain ks n where kn: "x = (dotted (''logs'' # ks), n)" "(ks, n) \<in> set (entry_paths kvs)" using x by auto
    then obtain k ks' where "ks = k # ks'" using entry_paths_nonempty by (cases ks) auto
    then have "dotted (''logs'' # ks) = ''logs.'' @ dotted ks" by simp
    then have "cf_map cf' (dotted (''logs'' # ks)) = None" using assms(2) by simp
    then show ?thesis by (simp add: kn(1) load_node_def fromString_def LookupBase_def)
  qed
  then have "fold (load_node lib) (map (\<lambda>(ks, n). (dotted (''logs'' # ks), n)) (entry_paths kvs)) (cf', w') = (cf', w')"
    by (rule fold_skip)
  moreover have "load_node lib ([], n) (cf, w) = (cf, w)" "load_node lib (''logs'', YSeq ns) (cf, w) = (cf', w')" for n
    using assms(1) by (simp_all add: load_node_def)
  ultimately show ?thesis by (simp add: LoadFromYaml_def loaded_names del: ListAllNodes.simps)
qed

lemma defines_eq_same:
  assumes "defines_eq r old"
  shows "\<forall>d \<in> set r. same_define old d" and "ld_name ` set old \<subseteq> ld_name ` set r"
proof -
  show "\<forall>d \<in> set r. same_define old d"
    using assms unfolding defines_eq_def
    by (induction r old rule: list_all2_induct) (auto simp: same_define_def LogDefine_eq_same)
  show "ld_name ` set old \<subseteq> ld_name ` set r"
    using assms unfolding defines_eq_def
    by (induction r old rule: list_all2_induct) (auto simp: LogDefine_eq_same)
qed

text \<open>Assigning a set of definitions to the variable.\<close>

lemma logs_assigned:
  assumes "log_ok w" and "logs_var env old cf" and "sorted_wrt LogDefine_less old" and "sorted_wrt LogDefine_less r"
    and "\<forall>d \<in> set r. \<not> bad_pattern d" and "from_text lib TLogs f = Some (CLogs r)"
  shows "\<exists>cf' w'. fromString lib ''logs'' f (cf, w) = (cf', w') \<and>
    logs_var env (if defines_eq r old then old else r) cf' \<and>
    (\<forall>d \<in> set r. \<not> same_define old d \<longrightarrow> configured w' d) \<and>
    (\<forall>d \<in> set r. \<forall>l. same_define old d \<and> m_loggers w (ld_name d) = Some l \<longrightarrow>
       m_loggers w' (ld_name d) = Some l \<and> loggers w' ! l = loggers w ! l) \<and>
    (\<forall>d \<in> set old. ld_name d \<notin> ld_name ` set r \<longrightarrow> m_loggers w' (ld_name d) = None) \<and> log_ok w'"
proof -
  obtain var i where var: "cf_map cf ''logs'' = Some var" "cv_val var = CLogs old"
      "cv_listeners var = [(i, logs_listener env)]"
    using assms(2) by (auto simp: logs_var_def)
  show ?thesis
  proof (cases "defines_eq r old")
    case True
    then have "fromString lib ''logs'' f (cf, w) = (cf, w)"
      using var assms(6)
      by (simp add: fromString_def LookupBase_def cv_fromString_def cv_setValue_def map_upd_triv)
    then show ?thesis using True assms(1,2) defines_eq_same [OF True] by auto
  next
    case False
    obtain w' where w': "log_listener env old r w = (w', None)"
        "\<forall>d \<in> set r. \<not> same_define old d \<longrightarrow> configured w' d"
        "\<forall>d \<in> set r. \<forall>l. same_define old d \<and> m_loggers w (ld_name d) = Some l \<longrightarrow>
           m_loggers w' (ld_name d) = Some l \<and> loggers w' ! l = loggers w ! l"
        "\<forall>d \<in> set old. ld_name d \<notin> ld_name ` set r \<longrightarrow> m_loggers w' (ld_name d) = None" "log_ok w'"
      using log_definitions_core [OF assms(1,3-5), of env] by blast
    let ?cf = "cf\<lparr>cf_map := (cf_map cf)(''logs'' \<mapsto> var\<lparr>cv_val := CLogs r\<rparr>)\<rparr>"
    have "fromString lib ''logs'' f (cf, w) = (?cf, w')"
      using var assms(6) False w'(1)
      by (simp add: fromString_def LookupBase_def cv_fromString_def cv_setValue_def logs_listener_def)
    moreover have "logs_var env r ?cf" using assms(2) var by (simp add: logs_var_def)
    ultimately show ?thesis using False w'(2-5) by (intro exI [of _ ?cf] exI [of _ w']) simp
  qed
qed

text \<open>C8: From the configuration file to the loggers: a file whose first key is \<^verbatim>\<open>logs\<close> with a list of log definitions,
  of distinct names and with valid patterns, followed by anything, is loaded while the variable has the value \<open>old\<close>, at the
  first time or later.  Then every definition for which \<open>old\<close> has none of the same name, level and pattern is
  realised: its logger has the level, the pattern and exactly the appenders it asks for.  The other loggers named in
  the file stay as they are (a change of the appenders alone is not noticed), loggers whose
  definition is gone are removed, and the variable has the new value unless no name, level or pattern has changed.\<close>

theorem log_file_configures_loggers:
  assumes "log_ok w" and "yaml_lib_ok lib" and "logs_var env old cf" and "sorted_wrt LogDefine_less old"
    and "yl_load lib (yl_emit lib (YSeq ns)) = Some (YSeq ns)"
    and "list_all2 (\<lambda>n d. parse_define lib (yl_emit lib n) = Some d) ns ds"
    and "distinct (map ld_name ds)" and "\<forall>d \<in> set ds. \<not> bad_pattern d"
  shows "\<exists>cf' w' r. LoadFromYaml lib (YMap ((''logs'', YSeq ns) # kvs)) (cf, w) = (cf', w') \<and>
    sorted_wrt LogDefine_less r \<and> set r = set ds \<and> logs_var env (if defines_eq r old then old else r) cf' \<and>
    (\<forall>d \<in> set ds. \<not> same_define old d \<longrightarrow> configured w' d) \<and>
    (\<forall>d \<in> set ds. \<forall>l. same_define old d \<and> m_loggers w (ld_name d) = Some l \<longrightarrow>
       m_loggers w' (ld_name d) = Some l \<and> loggers w' ! l = loggers w ! l) \<and>
    (\<forall>d \<in> set old. ld_name d \<notin> ld_name ` set ds \<longrightarrow> m_loggers w' (ld_name d) = None) \<and> log_ok w'"
proof -
  obtain r where r: "insert_elems (parse_define lib) LogDefine_less lib ns [] = Some r"
      "sorted_wrt LogDefine_less r" "set r = set ds"
    using insert_elems_set [OF assms(6) _ assms(7), of "[]"] by auto
  have cast: "from_text lib TLogs (yl_emit lib (YSeq ns)) = Some (CLogs r)"
    using assms(2,5) r(1) by (simp add: parse_set_def yaml_lib_ok_def)
  obtain cf' w' where l: "fromString lib ''logs'' (yl_emit lib (YSeq ns)) (cf, w) = (cf', w')"
      "logs_var env (if defines_eq r old then old else r) cf'"
      "\<forall>d \<in> set ds. \<not> same_define old d \<longrightarrow> configured w' d"
      "\<forall>d \<in> set ds. \<forall>l. same_define old d \<and> m_loggers w (ld_name d) = Some l \<longrightarrow>
         m_loggers w' (ld_name d) = Some l \<and> loggers w' ! l = loggers w ! l"
      "\<forall>d \<in> set old. ld_name d \<notin> ld_name ` set ds \<longrightarrow> m_loggers w' (ld_name d) = None" "log_ok w'"
    using logs_assigned [OF assms(1,3,4) r(2) _ cast] assms(8) unfolding r(3) by blast
  have "\<forall>n. cf_map cf' (''logs.'' @ n) = None" using l(2) by (simp add: logs_var_def)
  then show ?thesis using load_logs_first [OF l(1), of kvs] l(2-6) r(2,3) by blast
qed

theorem log_file_configures_loggers_witness:
  "\<exists>cf' w'. LoadFromYaml
       (table_lib [(define_node (kept_define file_define), ''e''), (YSeq [define_node (kept_define file_define)], ''s'')])
       (YMap [(''logs'', YSeq [define_node (kept_define file_define)]), (''x'', YNull)])
       (LogIniter plain_env new_Config, new_LoggerManager) = (cf', w') \<and>
     configured w' (kept_define file_define)"
proof -
  define d where "d = kept_define file_define"
  let ?n = "define_node d"
  let ?lib = "table_lib [(?n, ''e''), (YSeq [?n], ''s'')]"
  have seq: "YSeq [?n] \<noteq> ?n" by (simp add: define_node_def)
  have 1: "yl_load ?lib (yl_emit ?lib (YSeq [?n])) = Some (YSeq [?n])"
    and 2: "yl_load ?lib (print_define ?lib d) = Some ?n"
    using seq by (simp_all add: table_lib_def print_define_def)
  have kept: "kept_define d = d" and types: "\<forall>a \<in> set (ld_appenders d). ad_type a = 0 \<or> ad_type a = 1"
    and good: "\<not> bad_pattern d"
    by (simp_all add: d_def kept_define_def kept_appender_def file_define_def bad_pattern_def)
  have 3: "list_all2 (\<lambda>n d. parse_define ?lib (yl_emit ?lib n) = Some d) [?n] [d]"
    using parse_print_define [OF table_lib_ok types 2] kept by (simp add: print_define_def)
  have "log_ok new_LoggerManager" by (rule log_reach_ok [OF log_reach.start])
  moreover have "\<not> same_define [] d" by (simp add: same_define_def)
  ultimately show ?thesis
    using log_file_configures_loggers [OF _ table_lib_ok logs_var_start _ 1 3, where w = new_LoggerManager and env = plain_env and kvs = "[(''x'', YNull)]"]
      good unfolding d_def by auto
qed

end
