(* ===== verification/File_Util.thy ===== *)
theory File_Util
  imports Configuration "HOL-Library.Sublist"
begin

text \<open>
  \<^verbatim>\<open>FSUtil\<close> of \<^verbatim>\<open>util.cpp\<close>: listing, removing and creating directories, and files that hold the
  number of a process.  What is at a path is a tree of directory entries, as \<^verbatim>\<open>lstat\<close> and
  \<^verbatim>\<open>readdir\<close> show it; the operations that recurse over directories return the tree they leave.
  What the kernel refuses is an argument.  \<^verbatim>\<open>Mkdir\<close>, which goes along a path name, works on any
  state with the three calls it makes.
\<close>

section \<open>Trees of directory entries\<close>

datatype fkind = S_IFIFO | S_IFCHR | S_IFBLK | S_IFREG | S_IFLNK | S_IFSOCK

text \<open>A directory has its entries in the order of \<^verbatim>\<open>readdir\<close>, and may be closed to the process.\<close>

datatype fnode = Leaf fkind | Dir bool "(string \<times> fnode) list"

definition S_IFDIR :: u32 where
  "S_IFDIR = 0x4000"

fun st_mode :: "fnode \<Rightarrow> u32" where
  "st_mode (Dir _ _) = S_IFDIR"
| "st_mode (Leaf S_IFIFO) = 0x1000"
| "st_mode (Leaf S_IFCHR) = 0x2000"
| "st_mode (Leaf S_IFBLK) = 0x6000"
| "st_mode (Leaf S_IFREG) = 0x8000"
| "st_mode (Leaf S_IFLNK) = 0xA000"
| "st_mode (Leaf S_IFSOCK) = 0xC000"

definition is_dots :: "string \<Rightarrow> bool" where
  "is_dots d_name \<longleftrightarrow> d_name = ''.'' \<or> d_name = ''..''"

definition below :: "string \<Rightarrow> string \<Rightarrow> string" where
  "below path d_name = path @ ''/'' @ d_name"

lemma size_entry [termination_simp]: "x \<in> set es \<Longrightarrow> size (snd x) \<le> size_list (\<lambda>x. Suc (size (snd x))) es"
  by (induction es) auto

section \<open>Operations\<close>

text \<open>\<^verbatim>\<open>ListAllFile\<close>: the files are collected in the vector.\<close>

definition takes_file :: "string \<Rightarrow> string \<Rightarrow> bool" where
  "takes_file subfix filename \<longleftrightarrow>
     (if subfix = [] then True
      else if length filename < length subfix then False
      else drop (length filename - length subfix) filename = subfix)"

function (sequential) ListAllFile :: "string list \<Rightarrow> string \<Rightarrow> string \<Rightarrow> fnode option \<Rightarrow> string list"
  and list_loop :: "string list \<Rightarrow> string \<Rightarrow> string \<Rightarrow> (string \<times> fnode) list \<Rightarrow> string list" where
  "ListAllFile out path subfix (Some (Dir True es)) = list_loop out path subfix es"
| "ListAllFile out path subfix _ = out"
| "list_loop out path subfix [] = out"
| "list_loop out path subfix ((d_name, Dir r sub) # es) =
     (if is_dots d_name then list_loop out path subfix es
      else list_loop (ListAllFile out (below path d_name) subfix (Some (Dir r sub))) path subfix es)"
| "list_loop out path subfix ((d_name, Leaf S_IFREG) # es) =
     list_loop (if takes_file subfix d_name then out @ [below path d_name] else out) path subfix es"
| "list_loop out path subfix (_ # es) = list_loop out path subfix es"
  by pat_completeness auto
termination
  by (relation "measure (\<lambda>x. case x of Inl (_, _, _, n) \<Rightarrow> (case n of None \<Rightarrow> 0 | Some n \<Rightarrow> size n)
      | Inr (_, _, _, es) \<Rightarrow> size_list (\<lambda>x. Suc (size (snd x))) es)") (auto simp: size_prod_simp)

text \<open>\<^verbatim>\<open>Unlink\<close> and \<^verbatim>\<open>Rm\<close>; \<open>deny\<close> are the paths the kernel refuses to remove.\<close>

definition Unlink :: "(string \<Rightarrow> bool) \<Rightarrow> string \<Rightarrow> bool \<Rightarrow> fnode option \<Rightarrow> bool \<times> fnode option" where
  "Unlink deny filename exist node =
     (case node of
        None \<Rightarrow> (\<not> exist, None)
      | Some (Dir r es) \<Rightarrow> (False, node)
      | Some (Leaf k) \<Rightarrow> if deny filename then (False, node) else (True, None))"

function (sequential) Rm :: "(string \<Rightarrow> bool) \<Rightarrow> string \<Rightarrow> fnode option \<Rightarrow> bool \<times> fnode option"
  and rm_loop :: "(string \<Rightarrow> bool) \<Rightarrow> string \<Rightarrow> bool \<Rightarrow> (string \<times> fnode) list \<Rightarrow> bool \<times> (string \<times> fnode) list" where
  "Rm deny path None = (True, None)"
| "Rm deny path (Some (Leaf k)) =
     (if st_mode (Leaf k) AND S_IFDIR = 0 then Unlink deny path False (Some (Leaf k))
      else (False, Some (Leaf k)))"
| "Rm deny path (Some (Dir r es)) =
     (if \<not> r then (False, Some (Dir r es))
      else
        let (ret, es') = rm_loop deny path True es in
        if deny path \<or> \<not> list_all (\<lambda>e. is_dots (fst e)) es' then (False, Some (Dir r es'))
        else (ret, None))"
| "rm_loop deny path ret [] = (ret, [])"
| "rm_loop deny path ret ((d_name, n) # es) =
     (if is_dots d_name then
        (case rm_loop deny path ret es of (ret, es') \<Rightarrow> (ret, (d_name, n) # es'))
      else
        case Rm deny (below path d_name) (Some n) of
          (ret, None) \<Rightarrow> rm_loop deny path ret es
        | (ret, Some n') \<Rightarrow> (case rm_loop deny path ret es of (ret, es') \<Rightarrow> (ret, (d_name, n') # es')))"
  by pat_completeness auto
termination
  by (relation "measure (\<lambda>x. case x of Inl (_, _, n) \<Rightarrow> (case n of None \<Rightarrow> 0 | Some n \<Rightarrow> size n)
      | Inr (_, _, _, es) \<Rightarrow> size_list (\<lambda>x. Suc (size (snd x))) es)") (auto simp: size_prod_simp)

text \<open>\<^verbatim>\<open>Mv\<close> and \<^verbatim>\<open>Symlink\<close>: the target is removed first; \<open>rename_ok\<close> and \<open>symlink_ok\<close> are the kernel's
  answers.\<close>

definition Mv ::
  "(string \<Rightarrow> bool) \<Rightarrow> bool \<Rightarrow> string \<Rightarrow> fnode option \<Rightarrow> fnode option \<Rightarrow> bool \<times> fnode option \<times> fnode option" where
  "Mv deny rename_ok to from_node to_node =
     (case Rm deny to to_node of
        (False, to_node) \<Rightarrow> (False, from_node, to_node)
      | (True, to_node) \<Rightarrow>
          if rename_ok \<and> from_node \<noteq> None then (True, None, from_node) else (False, from_node, to_node))"

definition Symlink :: "(string \<Rightarrow> bool) \<Rightarrow> bool \<Rightarrow> string \<Rightarrow> fnode option \<Rightarrow> bool \<times> fnode option" where
  "Symlink deny symlink_ok to to_node =
     (case Rm deny to to_node of
        (False, to_node) \<Rightarrow> (False, to_node)
      | (True, to_node) \<Rightarrow> if symlink_ok then (True, Some (Leaf S_IFLNK)) else (False, to_node))"

definition Realpath :: "string option \<Rightarrow> fnode option \<Rightarrow> string \<Rightarrow> bool \<times> string" where
  "Realpath resolved node rpath =
     (case node of
        None \<Rightarrow> (False, rpath)
      | Some _ \<Rightarrow> (case resolved of None \<Rightarrow> (False, rpath) | Some p \<Rightarrow> (True, p)))"

section \<open>Creating directories\<close>

text \<open>The calls of \<^verbatim>\<open>Mkdir\<close> on the state of the file system: whether a path name is there, and creating
  a directory.\<close>

record 'fs fs_calls =
  lstat_ok :: "string \<Rightarrow> 'fs \<Rightarrow> bool"
  access_ok :: "string \<Rightarrow> 'fs \<Rightarrow> bool"
  sys_mkdir :: "string \<Rightarrow> 'fs \<Rightarrow> bool \<times> 'fs"

datatype fs_error = OutOfBounds

definition mkdir1 :: "'fs fs_calls \<Rightarrow> string \<Rightarrow> 'fs \<Rightarrow> bool \<times> 'fs" where
  "mkdir1 sys dirname fs = (if access_ok sys dirname fs then (True, fs) else sys_mkdir sys dirname fs)"

definition strchr :: "string \<Rightarrow> nat \<Rightarrow> char \<Rightarrow> nat option" where
  "strchr s i c = find (\<lambda>k. s ! k = c) [i..<length s]"

lemma strchr_Some:
  "strchr s i c = Some k \<longleftrightarrow> i \<le> k \<and> k < length s \<and> s ! k = c \<and> (\<forall>j. i \<le> j \<and> j < k \<longrightarrow> s ! j \<noteq> c)"
  by (auto simp: strchr_def find_Some_iff nth_append intro!: exI [of _ "k - i"])
    (metis le_add_diff_inverse nat_add_left_cancel_less)

text \<open>The loop over the slashes of the path: up to each, the directory is created.\<close>

function mkdir_loop :: "'fs fs_calls \<Rightarrow> string \<Rightarrow> nat option \<Rightarrow> 'fs \<Rightarrow> bool \<times> 'fs" where
  "mkdir_loop sys path None fs = (True, fs)"
| "mkdir_loop sys path (Some ptr) fs =
     (case mkdir1 sys (take ptr path) fs of
        (False, fs) \<Rightarrow> (False, fs)
      | (True, fs) \<Rightarrow> mkdir_loop sys path (strchr path (Suc ptr) (CHR ''/'')) fs)"
  by pat_completeness auto
termination
  by (relation "measure (\<lambda>(sys, path, ptr, fs). case ptr of None \<Rightarrow> 0 | Some k \<Rightarrow> Suc (length path - k))")
    (auto simp: strchr_Some split: option.split)

definition Mkdir :: "'fs fs_calls \<Rightarrow> string \<Rightarrow> 'fs \<Rightarrow> fs_error + bool \<times> 'fs" where
  "Mkdir sys dirname fs =
     (let path = c_str dirname in
      if lstat_ok sys path fs then Inr (True, fs)
      else if path = [] then Inl OutOfBounds
      else case mkdir_loop sys path (strchr path 1 (CHR ''/'')) fs of
        (False, fs) \<Rightarrow> Inr (False, fs)
      | (True, fs) \<Rightarrow> Inr (mkdir1 sys path fs))"

text \<open>Opening a file for writing creates the directory when the first attempt fails.\<close>

definition OpenFileForRead :: "(string \<Rightarrow> 'fs \<Rightarrow> bool) \<Rightarrow> string \<Rightarrow> 'fs \<Rightarrow> bool" where
  "OpenFileForRead opens filename fs = opens filename fs"

definition OpenFileForWrite ::
  "'fs fs_calls \<Rightarrow> (string \<Rightarrow> 'fs \<Rightarrow> bool \<times> 'fs) \<Rightarrow> string \<Rightarrow> 'fs \<Rightarrow> fs_error + bool \<times> 'fs" where
  "OpenFileForWrite sys opens filename fs =
     (case opens filename fs of
        (True, fs) \<Rightarrow> Inr (True, fs)
      | (False, fs) \<Rightarrow>
          rbind (Mkdir sys (Dirname filename) fs) (\<lambda>(_, fs). Inr (opens filename fs)))"

section \<open>Process numbers in files\<close>

text \<open>\<^verbatim>\<open>atoi\<close>; a number out of range is undefined.\<close>

definition atoi :: "string \<Rightarrow> int option" where
  "atoi s =
     (case get_number s of
        None \<Rightarrow> Some 0
      | Some (n, _) \<Rightarrow> if - (2 ^ 31) \<le> n \<and> n < 2 ^ 31 then Some n else None)"

text \<open>\<^verbatim>\<open>IsRunningPidfile\<close>: \<open>file\<close> is the contents of the file when it can be read, \<open>alive\<close> the answer of
  \<^verbatim>\<open>kill\<close> with signal 0.  The outer \<open>None\<close> is the undefined conversion.\<close>

definition IsRunningPidfile :: "(int \<Rightarrow> bool) \<Rightarrow> bool \<Rightarrow> string option \<Rightarrow> bool option" where
  "IsRunningPidfile alive lstat_succeeds file =
     (if \<not> lstat_succeeds then Some False
      else case file of
        None \<Rightarrow> Some False
      | Some txt \<Rightarrow>
          let line = takeWhile (\<lambda>c. c \<noteq> CHR 0x0A) txt in
          if line = [] then Some False
          else case atoi (c_str line) of
            None \<Rightarrow> None
          | Some pid \<Rightarrow> if pid \<le> 1 then Some False else Some (alive pid))"


section \<open>Listing\<close>

text \<open>The regular files below a directory, by the names of the entries on the way.\<close>

inductive has_file :: "fnode \<Rightarrow> string list \<Rightarrow> bool" where
  here: "(x, Leaf S_IFREG) \<in> set es \<Longrightarrow> has_file (Dir True es) [x]"
| deeper: "(x, n) \<in> set es \<Longrightarrow> \<not> is_dots x \<Longrightarrow> has_file n ns \<Longrightarrow> has_file (Dir True es) (x # ns)"

inductive_simps has_file_Leaf [simp]: "has_file (Leaf k) ns"
inductive_simps has_file_Dir: "has_file (Dir r es) ns"

lemma takes_file_suffix [simp]: "takes_file sub x \<longleftrightarrow> suffix sub x"
proof -
  have "drop (length x - length sub) x = sub \<longleftrightarrow> suffix sub x" if "length sub \<le> length x"
    using that suffix_drop [of "length x - length sub" x] by (auto simp: suffix_def)
  then show ?thesis using suffix_length_le [of sub x] by (auto simp: takes_file_def)
qed

definition listed :: "string \<Rightarrow> string \<Rightarrow> (string \<times> fnode) list \<Rightarrow> string set" where
  "listed path sub es =
     {foldl below path ns | ns. has_file (Dir True es) ns \<and> suffix sub (last ns)}"

lemma has_file_nonempty: "has_file n ns \<Longrightarrow> ns \<noteq> []"
  by (induction rule: has_file.induct) auto

lemma has_file_Cons_dir:
  "has_file (Dir True ((x, n) # es)) ns \<longleftrightarrow>
     (case n of Leaf k \<Rightarrow> k = S_IFREG \<and> ns = [x] | Dir r sub \<Rightarrow> \<not> is_dots x \<and> (\<exists>ms. ns = x # ms \<and> has_file n ms)) \<or>
     has_file (Dir True es) ns"
  unfolding has_file_Dir [of True "(x, n) # es"] has_file_Dir [of True es] by (cases n) auto

lemma listed_Nil [simp]: "listed path sub [] = {}"
  by (auto simp: listed_def has_file_Dir)

lemma listed_Leaf:
  "listed path sub ((x, Leaf k) # es) =
     (if k = S_IFREG \<and> suffix sub x then insert (below path x) (listed path sub es) else listed path sub es)"
  by (auto simp: listed_def has_file_Cons_dir intro: exI [of _ "[x]"])

lemma listed_Dir:
  "listed path sub ((x, Dir r ds) # es) =
     (if is_dots x \<or> \<not> r then {} else listed (below path x) sub ds) \<union> listed path sub es"
proof -
  have "last (x # ms) = last ms" if "has_file (Dir r ds) ms" for ms
    using has_file_nonempty [OF that] by simp
  then show ?thesis
    by (auto 0 4 simp: listed_def has_file_Cons_dir has_file_Dir [of False] intro: exI [of _ "x # _"])
qed

lemma listing_sets:
  "set (ListAllFile out path sub n) =
     set out \<union> (case n of Some (Dir True es) \<Rightarrow> listed path sub es | _ \<Rightarrow> {})"
  "set (list_loop out path sub es) = set out \<union> listed path sub es"
  by (induction out path sub n and out path sub es rule: ListAllFile_list_loop.induct)
    (auto simp: listed_Leaf listed_Dir split: if_splits)


text \<open>\<^verbatim>\<open>ListAllFile\<close> appends the regular files below a directory whose names end as asked, in all
  directories that can be opened, and nothing else; a path that is no directory has none.\<close>

lemma list_all_files:
  "set (ListAllFile out path sub node) =
     set out \<union> {foldl below path ns | ns. \<exists>n. node = Some n \<and> has_file n ns \<and> suffix sub (last ns)}"
proof (cases node)
  case (Some n)
  then show ?thesis
    by (cases n) (auto simp: listing_sets listed_def has_file_Dir [of False] split: bool.split)
qed (simp add: listing_sets)

section \<open>Removing\<close>

lemma is_dir_bit [simp]: "st_mode (Leaf k) AND S_IFDIR = 0 \<longleftrightarrow> k \<noteq> S_IFSOCK \<and> k \<noteq> S_IFBLK"
  by (cases k) (simp_all add: S_IFDIR_def)

text \<open>What can be removed: nothing below is refused, no directory is closed, and no socket or block
  device is among the entries.\<close>

inductive removable :: "(string \<Rightarrow> bool) \<Rightarrow> string \<Rightarrow> fnode \<Rightarrow> bool" for deny where
  leaf: "\<not> deny path \<Longrightarrow> k \<noteq> S_IFSOCK \<Longrightarrow> k \<noteq> S_IFBLK \<Longrightarrow> removable deny path (Leaf k)"
| dir: "\<not> deny path \<Longrightarrow> \<forall>(x, n) \<in> set es. is_dots x \<or> removable deny (below path x) n \<Longrightarrow>
    removable deny path (Dir True es)"

inductive_simps removable_Leaf [simp]: "removable deny path (Leaf k)"
inductive_simps removable_Dir [simp]: "removable deny path (Dir r es)"

text \<open>The result of the last entry overwrites those of the others; since \<^verbatim>\<open>rmdir\<close> fails when an entry is
  left, this does no harm.\<close>

lemma rm_result:
  "(fst (Rm deny path node) \<longleftrightarrow> snd (Rm deny path node) = None) \<and>
   (snd (Rm deny path node) = None \<longleftrightarrow> (\<forall>n. node = Some n \<longrightarrow> removable deny path n))"
  "(list_all (\<lambda>e. is_dots (fst e)) (snd (rm_loop deny path ret es)) \<longleftrightarrow>
     (\<forall>(x, n) \<in> set es. is_dots x \<or> removable deny (below path x) n)) \<and>
   (list_all (\<lambda>e. is_dots (fst e)) (snd (rm_loop deny path ret es)) \<longrightarrow>
     fst (rm_loop deny path ret es) = (ret \<or> \<not> list_all (\<lambda>e. is_dots (fst e)) es))"
proof (induction deny path node and deny path ret es rule: Rm_rm_loop.induct)
  case (3 deny path r es)
  then show ?case by (simp add: split_beta Let_def)
next
  case (5 deny path ret d_name n es)
  obtain r n' where rm: "Rm deny (below path d_name) (Some n) = (r, n')" by fastforce
  show ?case
    using 5 rm by (cases "is_dots d_name"; cases n') (simp_all add: split_beta)
qed (auto simp: Unlink_def)


text \<open>C27: \<^verbatim>\<open>Rm\<close> reports success exactly when nothing is left at the path, which is when everything below could
  be removed.  Sockets and block devices have the bit of \<^verbatim>\<open>S_IFDIR\<close> in their mode: they are taken for
  directories and are never removed.\<close>

theorem rm_removes:
  "(fst (Rm deny path (Some n)) \<longleftrightarrow> removable deny path n) \<and>
   (snd (Rm deny path (Some n)) = None \<longleftrightarrow> removable deny path n) \<and>
   Rm deny path None = (True, None)"
  using rm_result(1) [of deny path "Some n"] by auto

section \<open>Creating directories\<close>

lemma rfind_append:
  "rfind (xs @ ys) x = (case rfind ys x of Some n \<Rightarrow> Some (length xs + n) | None \<Rightarrow> rfind xs x)"
  by (induction xs) (auto split: option.split)

lemma Dirname_snoc_slash: "p \<noteq> [] \<Longrightarrow> Dirname (p @ ''/'') = p"
  by (simp add: Dirname_def rfind_append substr_def)

lemma Dirname_append:
  assumes "xs \<noteq> []" and "CHR ''/'' \<notin> set ys"
  shows "Dirname (xs @ ys) = Dirname xs"
proof -
  have "rfind ys (CHR ''/'') = None" using assms(2) by (simp add: rfind_None)
  then show ?thesis
    using assms(1) by (auto simp: Dirname_def rfind_append substr_def dest!: rfind_Some split: option.split)
qed

lemma Dirname_take:
  assumes "1 \<le> i" and "i \<le> k" and "k \<le> length path" and "\<forall>j. i \<le> j \<and> j < k \<longrightarrow> path ! j \<noteq> CHR ''/''"
  shows "Dirname (take k path) = Dirname (take i path)"
proof -
  have "take k path = take i path @ take (k - i) (drop i path)"
    using take_add [of i "k - i" path] assms(2) by simp
  moreover have "CHR ''/'' \<notin> set (take (k - i) (drop i path))"
  proof
    assume "CHR ''/'' \<in> set (take (k - i) (drop i path))"
    then obtain j where "j < k - i" "i + j < length path" "path ! (i + j) = CHR ''/''"
      by (auto simp: in_set_conv_nth)
    then show False using assms(4) by auto
  qed
  ultimately show ?thesis using assms by (auto intro!: Dirname_append)
qed

lemma Dirname_take1: "path \<noteq> [] \<Longrightarrow> Dirname (take 1 path) = ''/'' \<or> Dirname (take 1 path) = ''.''"
  by (cases path) (auto simp: Dirname_def)

lemma strchr_None: "strchr s i c = None \<longleftrightarrow> (\<forall>j. i \<le> j \<and> j < length s \<longrightarrow> s ! j \<noteq> c)"
  by (auto simp: strchr_def find_None_iff)

lemma mkdir1_creates:
  assumes "\<And>fs p. \<not> access_ok sys p fs \<Longrightarrow> access_ok sys (Dirname p) fs \<Longrightarrow> fst (sys_mkdir sys p fs)"
    and "\<And>fs p fs'. sys_mkdir sys p fs = (True, fs') \<Longrightarrow>
      access_ok sys p fs' \<and> (\<forall>q. access_ok sys q fs \<longrightarrow> access_ok sys q fs')"
    and "access_ok sys (Dirname p) fs"
  shows "\<exists>fs'. mkdir1 sys p fs = (True, fs') \<and> access_ok sys p fs' \<and> (\<forall>q. access_ok sys q fs \<longrightarrow> access_ok sys q fs')"
  using assms(1) [of p fs] assms(2) [of p fs] assms(3)
  by (cases "sys_mkdir sys p fs") (auto simp: mkdir1_def)

lemma mkdir_loop_creates:
  assumes can: "\<And>fs p. \<not> access_ok sys p fs \<Longrightarrow> access_ok sys (Dirname p) fs \<Longrightarrow> fst (sys_mkdir sys p fs)"
    and keeps: "\<And>fs p fs'. sys_mkdir sys p fs = (True, fs') \<Longrightarrow>
      access_ok sys p fs' \<and> (\<forall>q. access_ok sys q fs \<longrightarrow> access_ok sys q fs')"
    and "1 \<le> i" and "i \<le> length path" and "access_ok sys (Dirname (take i path)) fs"
  shows "\<exists>fs'. mkdir_loop sys path (strchr path i (CHR ''/'')) fs = (True, fs') \<and>
    (\<forall>q. access_ok sys q fs \<longrightarrow> access_ok sys q fs') \<and> access_ok sys (Dirname path) fs' \<and>
    (\<forall>k. i \<le> k \<and> k < length path \<and> path ! k = CHR ''/'' \<longrightarrow> access_ok sys (take k path) fs')"
  using assms(3-)
proof (induction "length path - i" arbitrary: i fs rule: less_induct)
  case less
  show ?case
  proof (cases "strchr path i (CHR ''/'')")
    case None
    then have "Dirname path = Dirname (take i path)"
      using Dirname_take [of i "length path" path] less.prems by (simp add: strchr_None)
    moreover have "\<forall>j. i \<le> j \<and> j < length path \<longrightarrow> path ! j \<noteq> CHR ''/''"
      using None by (simp add: strchr_None)
    ultimately show ?thesis using None less.prems by auto
  next
    case (Some k)
    then have k: "i \<le> k" "k < length path" "path ! k = CHR ''/''" "\<forall>j. i \<le> j \<and> j < k \<longrightarrow> path ! j \<noteq> CHR ''/''"
      by (auto simp: strchr_Some)
    then have "Dirname (take k path) = Dirname (take i path)"
      using Dirname_take [of i k path] less.prems by simp
    then obtain fs1 where fs1: "mkdir1 sys (take k path) fs = (True, fs1)" "access_ok sys (take k path) fs1"
        "\<forall>q. access_ok sys q fs \<longrightarrow> access_ok sys q fs1"
      using mkdir1_creates [OF can keeps, of "take k path" fs] less.prems(3) by auto
    have "path \<noteq> []" using k by auto
    then have "Dirname (take (Suc k) path) = take k path"
      using Dirname_snoc_slash [of "take k path"] k less.prems(1) by (auto simp: take_Suc_conv_app_nth)
    moreover have "length path - Suc k < length path - i" using k by linarith
    ultimately obtain fs2 where fs2: "mkdir_loop sys path (strchr path (Suc k) (CHR ''/'')) fs1 = (True, fs2)"
        "\<forall>q. access_ok sys q fs1 \<longrightarrow> access_ok sys q fs2" "access_ok sys (Dirname path) fs2"
        "\<forall>j. Suc k \<le> j \<and> j < length path \<and> path ! j = CHR ''/'' \<longrightarrow> access_ok sys (take j path) fs2"
      using less.hyps [of "Suc k" fs1] fs1(2) k by auto
    have "access_ok sys (take j path) fs2"
      if "i \<le> j" "j < length path" "path ! j = CHR ''/''" for j
      using that k fs1 fs2 by (cases j k rule: linorder_cases) auto
    then show ?thesis using Some fs1 fs2 by auto
  qed
qed

text \<open>On a file system where a directory can be created whenever its parent is there, \<^verbatim>\<open>Mkdir\<close> creates
  the directory and all directories on the way, and succeeds.\<close>

lemma mkdir_creates:
  assumes "\<And>fs p. \<not> access_ok sys p fs \<Longrightarrow> access_ok sys (Dirname p) fs \<Longrightarrow> fst (sys_mkdir sys p fs)"
    and "\<And>fs p fs'. sys_mkdir sys p fs = (True, fs') \<Longrightarrow>
      access_ok sys p fs' \<and> (\<forall>q. access_ok sys q fs \<longrightarrow> access_ok sys q fs')"
    and "access_ok sys ''.'' fs" and "access_ok sys ''/'' fs"
    and "\<not> lstat_ok sys (c_str d) fs" and "c_str d \<noteq> []"
  shows "\<exists>fs'. Mkdir sys d fs = Inr (True, fs') \<and> access_ok sys (c_str d) fs' \<and>
    (\<forall>k. 1 \<le> k \<and> k < length (c_str d) \<and> c_str d ! k = CHR ''/'' \<longrightarrow> access_ok sys (take k (c_str d)) fs')"
proof -
  let ?p = "c_str d"
  have "access_ok sys (Dirname (take 1 ?p)) fs"
    using Dirname_take1 [OF assms(6)] assms(3,4) by auto
  moreover have "1 \<le> length ?p" using assms(6) by (cases "c_str d") auto
  ultimately obtain fs1 where fs1: "mkdir_loop sys ?p (strchr ?p 1 (CHR ''/'')) fs = (True, fs1)"
      "access_ok sys (Dirname ?p) fs1"
      "\<forall>k. 1 \<le> k \<and> k < length ?p \<and> ?p ! k = CHR ''/'' \<longrightarrow> access_ok sys (take k ?p) fs1"
    using mkdir_loop_creates [OF assms(1,2), of 1 ?p fs] by auto
  obtain fs2 where "mkdir1 sys ?p fs1 = (True, fs2)" "access_ok sys ?p fs2"
      "\<forall>q. access_ok sys q fs1 \<longrightarrow> access_ok sys q fs2"
    using mkdir1_creates [OF assms(1,2) fs1(2)] by auto
  then show ?thesis using fs1 assms(5,6) by (auto simp: Mkdir_def Let_def)
qed


text \<open>A file system that is the list of its directories.\<close>

definition list_fs :: "string list fs_calls" where
  "list_fs =
     \<lparr>lstat_ok = (\<lambda>p fs. p \<in> set fs), access_ok = (\<lambda>p fs. p \<in> set fs),
      sys_mkdir = (\<lambda>p fs. if p \<notin> set fs \<and> Dirname p \<in> set fs then (True, p # fs) else (False, fs))\<rparr>"

lemma mkdir_creates_example:
  "\<exists>fs'. Mkdir list_fs ''/a/b'' [''.'', ''/''] = Inr (True, fs') \<and> ''/a/b'' \<in> set fs' \<and> ''/a'' \<in> set fs'"
proof -
  have "\<exists>fs'. Mkdir list_fs ''/a/b'' [''.'', ''/''] = Inr (True, fs') \<and> access_ok list_fs (c_str ''/a/b'') fs' \<and>
      (\<forall>k. 1 \<le> k \<and> k < length (c_str ''/a/b'') \<and> c_str ''/a/b'' ! k = CHR ''/'' \<longrightarrow>
        access_ok list_fs (take k (c_str ''/a/b'')) fs')"
    by (rule mkdir_creates) (auto simp: list_fs_def c_str_def split: if_splits)
  then obtain fs' where "Mkdir list_fs ''/a/b'' [''.'', ''/''] = Inr (True, fs')" "''/a/b'' \<in> set fs'"
      "access_ok list_fs (take 2 (c_str ''/a/b'')) fs'"
    by (auto simp: c_str_def list_fs_def dest: spec [of _ 2])
  then show ?thesis by (simp add: c_str_def list_fs_def)
qed

text \<open>An empty name is not created: the search for slashes starts behind the end of its copy.\<close>

lemma mkdir_empty: "\<not> lstat_ok sys [] fs \<Longrightarrow> Mkdir sys [] fs = Inl OutOfBounds"
  by (simp add: Mkdir_def c_str_def)

section \<open>Process numbers\<close>

text \<open>The number a server writes to its file is found there again.\<close>

lemma dec_clean: "takeWhile (\<lambda>c. c \<noteq> CHR 0x0A) (dec n) = dec n" "c_str (dec n) = dec n"
  using dec_digits [of n] by (auto simp: c_str_def takeWhile_eq_all_conv list_all_iff isdigit_def)

lemma pid_file_round_trip:
  assumes "1 < pid" and "pid < 2 ^ 31"
  shows "IsRunningPidfile alive True (Some (dec pid)) = Some (alive (int pid))"
proof -
  have "atoi (dec pid) = Some (int pid)"
    using get_number_text [of "[]" "int pid"] assms by (simp add: atoi_def int_text_def)
  then show ?thesis
    using assms dec_digits [of pid] by (simp add: IsRunningPidfile_def dec_clean Let_def)
qed

text \<open>Without a readable number above 1 in the first line no server counts as running.\<close>

lemma pid_file_no_number:
  assumes "txt = None \<or> get_number (c_str (takeWhile (\<lambda>c. c \<noteq> CHR 0x0A) (the txt))) = None"
  shows "IsRunningPidfile alive exists txt = Some False"
  using assms by (auto simp: IsRunningPidfile_def atoi_def Let_def split: option.split)

end
