(* ===== verification/Environment.thy ===== *)
theory Environment
  imports File_Util
begin

text \<open>
  \<^verbatim>\<open>env.cpp\<close>: the command line of the program, its help texts, the variables of the process and the
  paths that are relative to the program.  What the kernel says about the process (the name of the
  executable) is an argument.
\<close>

section \<open>State\<close>

record Env =
  m_args :: "(string, string) omap"
  m_args_helps :: "(string \<times> string) list"
  m_program :: string
  m_exe :: string
  m_cwd :: string

datatype env_error = NoProgramName | Unterminated | NullVariable

definition new_Env :: Env where
  "new_Env = \<lparr>m_args = [], m_args_helps = [], m_program = [], m_exe = [], m_cwd = []\<rparr>"

section \<open>Arguments\<close>

definition addArg :: "string \<Rightarrow> string \<Rightarrow> Env \<Rightarrow> Env" where
  "addArg key val env = env\<lparr>m_args := map_set (<) key val (m_args env)\<rparr>"

definition hasArg :: "string \<Rightarrow> Env \<Rightarrow> bool" where
  "hasArg key env \<longleftrightarrow> map_find (<) key (m_args env) \<noteq> None"

definition delArg :: "string \<Rightarrow> Env \<Rightarrow> Env" where
  "delArg key env = env\<lparr>m_args := map_erase (<) key (m_args env)\<rparr>"

definition env_get :: "string \<Rightarrow> string \<Rightarrow> Env \<Rightarrow> string" where
  "env_get key def env = (case map_find (<) key (m_args env) of None \<Rightarrow> def | Some v \<Rightarrow> v)"

text \<open>The loop of \<^verbatim>\<open>init\<close> over the arguments behind the name of the program; \<open>now_key\<close> is the option
  that waits for a value.\<close>

fun arg_loop :: "string option \<Rightarrow> string list \<Rightarrow> Env \<Rightarrow> bool \<times> Env" where
  "arg_loop now_key [] env = (True, case now_key of Some k \<Rightarrow> addArg k [] env | None \<Rightarrow> env)"
| "arg_loop now_key (arg # args) env =
     (if take 1 arg = ''-'' then
        if length arg > 1 then
          arg_loop (Some (drop 1 arg)) args (case now_key of Some k \<Rightarrow> addArg k [] env | None \<Rightarrow> env)
        else (False, env)
      else
        case now_key of
          Some k \<Rightarrow> arg_loop None args (addArg k arg env)
        | None \<Rightarrow> (False, env))"

text \<open>\<open>link\<close> is what \<^verbatim>\<open>readlink\<close> finds for the executable: it is written to an array of 1024 characters
  without a terminating NUL, and nothing is written when it fails.\<close>

definition env_init :: "string option \<Rightarrow> string list \<Rightarrow> Env \<Rightarrow> env_error + bool \<times> Env" where
  "env_init link argv env =
     (let path = (case link of None \<Rightarrow> [] | Some l \<Rightarrow> take 1024 l) in
      if length path = 1024 \<and> CHR 0x00 \<notin> set path then Inl Unterminated
      else
        let exe = c_str path;
            dir = (case rfind exe (CHR ''/'') of None \<Rightarrow> exe | Some pos \<Rightarrow> substr exe 0 pos);
            env = env\<lparr>m_exe := exe, m_cwd := dir @ ''/''\<rparr> in
        case argv of
          [] \<Rightarrow> Inl NoProgramName
        | p # args \<Rightarrow> Inr (arg_loop None args (env\<lparr>m_program := p\<rparr>)))"

section \<open>Help texts\<close>

text \<open>The loop of \<^verbatim>\<open>removeArgHrlp\<close>; the counter is decremented after an erasure and incremented again
  by the loop.\<close>

function help_loop :: "string \<Rightarrow> nat \<Rightarrow> (string \<times> string) list \<Rightarrow> (string \<times> string) list" where
  "help_loop key i helps =
     (if i < length helps then
        if fst (helps ! i) = key then help_loop key i (take i helps @ drop (Suc i) helps)
        else help_loop key (Suc i) helps
      else helps)"
  by pat_completeness auto
termination
  by (relation "measure (\<lambda>(key, i, helps). length helps - i)") auto

declare help_loop.simps [simp del]

definition removeArgHrlp :: "string \<Rightarrow> Env \<Rightarrow> Env" where
  "removeArgHrlp key env = env\<lparr>m_args_helps := help_loop key 0 (m_args_helps env)\<rparr>"

definition addArgHelp :: "string \<Rightarrow> string \<Rightarrow> Env \<Rightarrow> Env" where
  "addArgHelp key help_desc env =
     (let env = removeArgHrlp key env in env\<lparr>m_args_helps := m_args_helps env @ [(key, help_desc)]\<rparr>)"

definition print_line :: "string \<times> string \<Rightarrow> string" where
  "print_line kv = ''    -'' @ fst kv @ '' : '' @ snd kv @ [CHR 0x0A]"

definition printHelp :: "Env \<Rightarrow> string" where
  "printHelp env =
     ''Usage: '' @ m_program env @ '' [options]'' @ [CHR 0x0A] @ concat (map print_line (m_args_helps env))"

definition printArg :: "Env \<Rightarrow> string" where
  "printArg env = concat (map print_line (m_args env))"

section \<open>Variables of the process\<close>

text \<open>\<^verbatim>\<open>setenv\<close> refuses an empty name and one with an equals sign.\<close>

definition setEnv :: "string \<Rightarrow> string \<Rightarrow> (string \<rightharpoonup> string) \<Rightarrow> bool \<times> (string \<rightharpoonup> string)" where
  "setEnv key val environ =
     (let k = c_str key in
      if k = [] \<or> CHR ''='' \<in> set k then (False, environ) else (True, environ(k \<mapsto> c_str val)))"

definition getEnv :: "string \<Rightarrow> string \<Rightarrow> (string \<rightharpoonup> string) \<Rightarrow> string" where
  "getEnv key def environ = (case environ (c_str key) of None \<Rightarrow> def | Some v \<Rightarrow> v)"

section \<open>Paths\<close>

definition getAbsolutePath :: "string \<Rightarrow> Env \<Rightarrow> string" where
  "getAbsolutePath path env =
     (if path = [] then ''/'' else if take 1 path = ''/'' then path else m_cwd env @ path)"

text \<open>\<open>g\<close> is the pointer of the function, which the first call that gets there looks up; a null pointer
  is followed.\<close>

definition getAbsoluteWorkPath ::
  "string \<Rightarrow> 'w Config \<Rightarrow> string option option \<Rightarrow> (env_error + string) \<times> string option option" where
  "getAbsoluteWorkPath path cf g =
     (if path = [] then (Inr ''/'', g)
      else if take 1 path = ''/'' then (Inr path, g)
      else
        let p = (case g of Some p \<Rightarrow> p | None \<Rightarrow> Lookup_existing TStr ''server.work_path'' cf) in
        (case p of
           None \<Rightarrow> Inl NullVariable
         | Some name \<Rightarrow>
             (case cf_map cf name of
                Some var \<Rightarrow> (case cv_val var of CStr s \<Rightarrow> Inr (s @ ''/'' @ path) | _ \<Rightarrow> Inl NullVariable)
              | None \<Rightarrow> Inl NullVariable),
         Some p))"

definition getConfigPath :: "Env \<Rightarrow> string" where
  "getConfigPath env = getAbsolutePath (env_get ''c'' ''conf'' env) env"


section \<open>Command lines\<close>

interpretation args: strict_weak_order "(<) :: string \<Rightarrow> string \<Rightarrow> bool"
  by unfold_locales auto

lemma same_key_string [simp]: "same_key (<) (a :: string) b \<longleftrightarrow> a = b"
  by (auto simp: same_key_def)

text \<open>A command line as it is meant: options with or without a value.\<close>

type_synonym cmd_option = "string \<times> string option"

definition cmdline :: "cmd_option list \<Rightarrow> string list" where
  "cmdline opts = concat (map (\<lambda>(k, v). (''-'' @ k) # (case v of None \<Rightarrow> [] | Some w \<Rightarrow> [w])) opts)"

definition opts_ok :: "cmd_option list \<Rightarrow> bool" where
  "opts_ok opts \<longleftrightarrow> (\<forall>(k, v) \<in> set opts. k \<noteq> [] \<and> (\<forall>w. v = Some w \<longrightarrow> take 1 w \<noteq> ''-''))"

definition opt_value :: "string option \<Rightarrow> string" where
  "opt_value v = (case v of None \<Rightarrow> [] | Some w \<Rightarrow> w)"

definition set_args :: "cmd_option list \<Rightarrow> Env \<Rightarrow> Env" where
  "set_args opts env = foldl (\<lambda>env (k, v). addArg k (opt_value v) env) env opts"

lemma cmdline_simps [simp]:
  "cmdline [] = []"
  "cmdline ((k, v) # opts) = (''-'' @ k) # (case v of None \<Rightarrow> [] | Some w \<Rightarrow> [w]) @ cmdline opts"
  by (simp_all add: cmdline_def)

lemma opts_ok_simps [simp]:
  "opts_ok []"
  "opts_ok ((k, v) # opts) \<longleftrightarrow> k \<noteq> [] \<and> (\<forall>w. v = Some w \<longrightarrow> take 1 w \<noteq> ''-'') \<and> opts_ok opts"
  by (auto simp: opts_ok_def)

lemma set_args_simps [simp]:
  "set_args [] env = env" "set_args ((k, v) # opts) env = set_args opts (addArg k (opt_value v) env)"
  by (simp_all add: set_args_def)

text \<open>The loop reads a command line; a pending option is set without a value.\<close>

lemma arg_loop_cmdline:
  assumes "opts_ok opts"
  shows "arg_loop None (cmdline opts) env = (True, set_args opts env)"
    and "arg_loop (Some k) (cmdline opts) env = (True, set_args opts (addArg k [] env))"
  using assms
proof (induction opts arbitrary: env k)
  case (Cons x opts)
  obtain k' v where x: "x = (k', v)" by fastforce
  {
    case 1
    then show ?case using Cons.IH by (cases v) (simp_all add: x opt_value_def)
  next
    case 2
    then show ?case using Cons.IH by (cases v) (simp_all add: x opt_value_def)
  }
qed simp_all

text \<open>Whatever the loop accepts is a command line.\<close>

lemma arg_loop_accepts:
  assumes "fst (arg_loop now_key args env)" and "\<forall>k. now_key = Some k \<longrightarrow> k \<noteq> []"
  shows "\<exists>opts. opts_ok opts \<and> (case now_key of None \<Rightarrow> args | Some k \<Rightarrow> (''-'' @ k) # args) = cmdline opts"
  using assms
proof (induction now_key args env rule: arg_loop.induct)
  case (1 now_key env)
  then show ?case
    by (cases now_key) (auto intro: exI [of _ "[]"] exI [of _ "[(the now_key, None)]"])
next
  case (2 now_key arg args env)
  show ?case
  proof (cases "take 1 arg = ''-''")
    case True
    then obtain key where arg: "arg = CHR ''-'' # key" by (cases arg) auto
    then obtain opts where "opts_ok opts" "arg # args = cmdline opts"
      using 2 True by (auto split: if_splits)
    then show ?thesis
      using 2(4) by (cases now_key) (auto intro: exI [of _ opts] exI [of _ "(the now_key, None) # opts"])
  next
    case False
    then obtain key where key: "now_key = Some key" "key \<noteq> []" using 2 by (cases now_key) auto
    then obtain opts where "opts_ok opts" "args = cmdline opts"
      using 2 False by auto
    then show ?thesis using False key by (auto intro!: exI [of _ "(key, Some arg) # opts"])
  qed
qed

lemma map_ok_set_args: "map_ok (<) (m_args env) \<Longrightarrow> map_ok (<) (m_args (set_args opts env))"
  by (induction opts arbitrary: env) (auto simp: addArg_def args.map_ok_set)

lemma find_set_args:
  assumes "map_ok (<) (m_args env)"
  shows "map_find (<) key (m_args (set_args opts env)) =
    (case map_of (rev opts) key of None \<Rightarrow> map_find (<) key (m_args env) | Some v \<Rightarrow> Some (opt_value v))"
  using assms
proof (induction opts arbitrary: env)
  case (Cons x opts)
  obtain k v where x: "x = (k, v)" by fastforce
  have "map_ok (<) (m_args (addArg k (opt_value v) env))"
    using Cons.prems by (simp add: addArg_def args.map_ok_set)
  from Cons.IH [OF this] show ?case
    using Cons.prems by (auto simp: x addArg_def args.map_find_set map_add_def split: option.split)
qed simp

lemma set_args_other [simp]:
  "m_program (set_args opts env) = m_program env" "m_cwd (set_args opts env) = m_cwd env"
  "m_exe (set_args opts env) = m_exe env" "m_args_helps (set_args opts env) = m_args_helps env"
  by (induction opts arbitrary: env) (auto simp: addArg_def)


lemma command_line_parsed:
  assumes "length link < 1024" and "map_ok (<) (m_args env)"
  shows "\<exists>ok env'. env_init (Some link) (p # line) env = Inr (ok, env') \<and>
      (ok \<longleftrightarrow> (\<exists>opts. opts_ok opts \<and> line = cmdline opts))"
    and "opts_ok opts \<Longrightarrow> \<exists>env'. env_init (Some link) (p # cmdline opts) env = Inr (True, env') \<and>
      m_program env' = p \<and> map_ok (<) (m_args env') \<and>
      (\<forall>key def. env_get key def env' =
        (case map_of (rev opts) key of None \<Rightarrow> env_get key def env | Some v \<Rightarrow> opt_value v)) \<and>
      (\<forall>key. hasArg key env' \<longleftrightarrow> hasArg key env \<or> key \<in> fst ` set opts)"
proof -
  define env0 where "env0 = env\<lparr>m_exe := c_str link, m_cwd :=
      (case rfind (c_str link) (CHR ''/'') of None \<Rightarrow> c_str link | Some pos \<Rightarrow> substr (c_str link) 0 pos) @ ''/'',
      m_program := p\<rparr>"
  have init: "env_init (Some link) (p # line) env = Inr (arg_loop None line env0)" for line
    using assms(1) by (simp add: env_init_def env0_def Let_def)
  have args0: "m_args env0 = m_args env" by (simp add: env0_def)
  have "fst (arg_loop None line env0) \<longleftrightarrow> (\<exists>opts. opts_ok opts \<and> line = cmdline opts)"
    using arg_loop_accepts [of None line env0] by (auto simp: arg_loop_cmdline(1))
  then show "\<exists>ok env'. env_init (Some link) (p # line) env = Inr (ok, env') \<and>
      (ok \<longleftrightarrow> (\<exists>opts. opts_ok opts \<and> line = cmdline opts))"
    using init [of line] by (cases "arg_loop None line env0") simp
  assume ok: "opts_ok opts"
  have "map_ok (<) (m_args env0)" using assms(2) args0 by simp
  note found = find_set_args [OF this, of _ opts] map_ok_set_args [OF this, of opts]
  have "key \<in> fst ` set opts \<longleftrightarrow> map_of (rev opts) key \<noteq> None" for key
    by (simp add: map_of_eq_None_iff)
  then show "\<exists>env'. env_init (Some link) (p # cmdline opts) env = Inr (True, env') \<and>
      m_program env' = p \<and> map_ok (<) (m_args env') \<and>
      (\<forall>key def. env_get key def env' =
        (case map_of (rev opts) key of None \<Rightarrow> env_get key def env | Some v \<Rightarrow> opt_value v)) \<and>
      (\<forall>key. hasArg key env' \<longleftrightarrow> hasArg key env \<or> key \<in> fst ` set opts)"
    using init [of "cmdline opts"] arg_loop_cmdline(1) [OF ok, of env0] found
    by (auto simp: env_get_def hasArg_def args0 env0_def split: option.split)
qed

text \<open>C26: The parser accepts exactly the command lines that consist of options with or without a value that
  does not look like an option; then an option has the value of its last occurrence, the empty one
  when it was given without, and the arguments that were there before keep theirs.\<close>

theorem command_line_accepted:
  assumes "length link < 1024" and "map_ok (<) (m_args env)"
  shows "\<exists>ok env'. env_init (Some link) (p # line) env = Inr (ok, env') \<and>
    (ok \<longleftrightarrow> (\<exists>opts. opts_ok opts \<and> line = cmdline opts)) \<and>
    (\<forall>opts. opts_ok opts \<and> line = cmdline opts \<longrightarrow>
      m_program env' = p \<and> map_ok (<) (m_args env') \<and>
      (\<forall>key def. env_get key def env' =
        (case map_of (rev opts) key of None \<Rightarrow> env_get key def env | Some v \<Rightarrow> opt_value v)) \<and>
      (\<forall>key. hasArg key env' \<longleftrightarrow> hasArg key env \<or> key \<in> fst ` set opts))"
proof -
  obtain ok env' where r: "env_init (Some link) (p # line) env = Inr (ok, env')"
      "ok \<longleftrightarrow> (\<exists>opts. opts_ok opts \<and> line = cmdline opts)"
    using command_line_parsed(1) [OF assms] by blast
  moreover have "m_program env' = p \<and> map_ok (<) (m_args env') \<and>
      (\<forall>key def. env_get key def env' =
        (case map_of (rev opts) key of None \<Rightarrow> env_get key def env | Some v \<Rightarrow> opt_value v)) \<and>
      (\<forall>key. hasArg key env' \<longleftrightarrow> hasArg key env \<or> key \<in> fst ` set opts)"
    if ok: "opts_ok opts \<and> line = cmdline opts" for opts
  proof -
    obtain e where e: "env_init (Some link) (p # cmdline opts) env = Inr (True, e)"
        "m_program e = p \<and> map_ok (<) (m_args e) \<and>
        (\<forall>key def. env_get key def e =
          (case map_of (rev opts) key of None \<Rightarrow> env_get key def env | Some v \<Rightarrow> opt_value v)) \<and>
        (\<forall>key. hasArg key e \<longleftrightarrow> hasArg key env \<or> key \<in> fst ` set opts)"
      using command_line_parsed(2) [OF assms, of opts p] ok by blast
    then have "e = env'" using r(1) ok by simp
    then show ?thesis using e(2) by simp
  qed
  ultimately show ?thesis by blast
qed

theorem command_line_accepted_witness:
  "\<exists>env'. env_init (Some ''/bin/xzmjx'') [''xzmjx'', ''-d'', ''-c'', ''etc''] new_Env = Inr (True, env') \<and>
     env_get ''c'' ''conf'' env' = ''etc'' \<and> hasArg ''d'' env' \<and> \<not> hasArg ''p'' env'"
proof -
  let ?opts = "[(''d'', None), (''c'', Some ''etc'')]"
  have c: "[''-d'', ''-c'', ''etc''] = cmdline ?opts" "opts_ok ?opts" by simp_all
  have "length ''/bin/xzmjx'' < 1024" "map_ok (<) (m_args new_Env)" by (simp_all add: new_Env_def)
  from command_line_accepted [OF this, of "''xzmjx''" "cmdline ?opts"] obtain ok env' where
    r: "env_init (Some ''/bin/xzmjx'') (''xzmjx'' # cmdline ?opts) new_Env = Inr (ok, env')"
      "ok \<longleftrightarrow> (\<exists>opts. opts_ok opts \<and> cmdline ?opts = cmdline opts)"
      "\<forall>opts. opts_ok opts \<and> cmdline ?opts = cmdline opts \<longrightarrow>
        m_program env' = ''xzmjx'' \<and> map_ok (<) (m_args env') \<and>
        (\<forall>key def. env_get key def env' =
          (case map_of (rev opts) key of None \<Rightarrow> env_get key def new_Env | Some v \<Rightarrow> opt_value v)) \<and>
        (\<forall>key. hasArg key env' \<longleftrightarrow> hasArg key new_Env \<or> key \<in> fst ` set opts)"
    by blast
  have "ok = True" using r(2) c(2) by blast
  note r(1) [unfolded this]
  moreover have "env_get ''c'' ''conf'' env' = ''etc''" "hasArg ''d'' env'" "\<not> hasArg ''p'' env'"
    using r(3) [rule_format, of ?opts] c(2) by (auto simp: opt_value_def hasArg_def new_Env_def)
  ultimately show ?thesis unfolding c(1) by blast
qed

section \<open>Help texts\<close>

lemma help_loop_filter: "help_loop key i helps = take i helps @ filter (\<lambda>h. fst h \<noteq> key) (drop i helps)"
proof (induction key i helps rule: help_loop.induct)
  case (1 key i helps)
  show ?case
  proof (cases "i < length helps")
    case True
    then have d: "drop i helps = helps ! i # drop (Suc i) helps" by (simp add: Cons_nth_drop_Suc)
    show ?thesis
      using 1 True by (subst help_loop.simps) (auto simp: d take_Suc_conv_app_nth min_def)
  qed (simp add: help_loop.simps [of _ i])
qed

text \<open>There is one help text for each option, the one added last, and it comes last.\<close>

lemma addArgHelp_replaces:
  assumes "distinct (map fst (m_args_helps env))"
  shows "m_args_helps (addArgHelp key desc env) = filter (\<lambda>h. fst h \<noteq> key) (m_args_helps env) @ [(key, desc)]"
    and "distinct (map fst (m_args_helps (addArgHelp key desc env)))"
proof -
  show eq: "m_args_helps (addArgHelp key desc env) = filter (\<lambda>h. fst h \<noteq> key) (m_args_helps env) @ [(key, desc)]"
    by (simp add: addArgHelp_def removeArgHrlp_def help_loop_filter Let_def)
  show "distinct (map fst (m_args_helps (addArgHelp key desc env)))"
    using assms distinct_map_filter unfolding eq by auto
qed

end
