(* ===== verification/Modules.thy ===== *)
theory Modules
  imports Environment
begin

text \<open>
  \<^verbatim>\<open>module.cpp\<close> and \<^verbatim>\<open>library.cpp\<close>: modules that are loaded from shared libraries, and the manager that
  keeps them by their id.  The callbacks of a module are not known here; a call is an event of a trace.
  The dynamic linker is an argument.  A module is destroyed when its last shared pointer goes, which
  calls its library's \<^verbatim>\<open>DestoryModule\<close> and closes the library; \<open>shared\<close> tells of which modules somebody
  outside of the manager has a pointer.
\<close>

section \<open>Modules and libraries\<close>

record Module =
  md_name :: string
  md_version :: string
  md_filename :: string
  md_id :: string

definition new_Module :: "string \<Rightarrow> string \<Rightarrow> string \<Rightarrow> Module" where
  "new_Module name version filename =
     \<lparr>md_name = name, md_version = version, md_filename = filename, md_id = name @ ''/'' @ version\<rparr>"

definition statusString :: "Module \<Rightarrow> string" where
  "statusString m =
     ''Module name='' @ md_name m @ '' version='' @ md_version m @ '' filename='' @ md_filename m @ [CHR 0x0A]"

text \<open>A pointer to a module with its \<^verbatim>\<open>ModuleCloser\<close>: the handle of the library and whether
  \<^verbatim>\<open>DestoryModule\<close> was found there.\<close>

record module_ptr =
  mp_module :: Module
  mp_handle :: nat
  mp_destory :: bool

datatype mod_event =
  OnBeforeArgsParse module_ptr | OnAfterArgsParse module_ptr | OnLoad module_ptr | OnUnload module_ptr
| OnConnect module_ptr | OnServerReady module_ptr | OnServerUp module_ptr | Destory module_ptr | Dlclose nat

datatype mod_error = NullFunction | NullModule

text \<open>The dynamic linker: the handle of a library, what its \<^verbatim>\<open>CreateModule\<close> returns when the symbol is
  there, and whether \<^verbatim>\<open>DestoryModule\<close> is.\<close>

record linker =
  dl_open :: "string \<Rightarrow> nat option"
  dl_create :: "nat \<Rightarrow> Module option option"
  dl_destory :: "nat \<Rightarrow> bool"

definition ModuleCloser :: "module_ptr \<Rightarrow> mod_error + mod_event list" where
  "ModuleCloser p = (if mp_destory p then Inr [Destory p, Dlclose (mp_handle p)] else Inl NullFunction)"

definition GetModule :: "linker \<Rightarrow> string \<Rightarrow> mod_error + module_ptr option \<times> mod_event list" where
  "GetModule dl path =
     (case dl_open dl (c_str path) of
        None \<Rightarrow> Inr (None, [])
      | Some handle \<Rightarrow>
          (case dl_create dl handle of
             None \<Rightarrow> Inr (None, [Dlclose handle])
           | Some None \<Rightarrow> Inl NullModule
           | Some (Some m) \<Rightarrow>
               Inr (Some \<lparr>mp_module = m\<lparr>md_filename := path\<rparr>, mp_handle = handle,
                          mp_destory = dl_destory dl handle\<rparr>, [])))"

section \<open>The manager\<close>

type_synonym modules = "string \<rightharpoonup> module_ptr"

text \<open>Dropping a pointer.\<close>

definition drop_ptr :: "(module_ptr \<Rightarrow> bool) \<Rightarrow> module_ptr \<Rightarrow> mod_error + mod_event list" where
  "drop_ptr shared p = (if shared p then Inr [] else ModuleCloser p)"

definition mm_add ::
  "(module_ptr \<Rightarrow> bool) \<Rightarrow> module_ptr \<Rightarrow> modules \<times> mod_event list \<Rightarrow> mod_error + modules \<times> mod_event list" where
  "mm_add shared p st =
     (let (ms, tr) = st; key = md_id (mp_module p) in
      case ms key of
        None \<Rightarrow> Inr (ms(key \<mapsto> p), tr)
      | Some old \<Rightarrow> rbind (drop_ptr shared old) (\<lambda>es. Inr (ms(key \<mapsto> p), tr @ es)))"

definition mm_del ::
  "(module_ptr \<Rightarrow> bool) \<Rightarrow> string \<Rightarrow> modules \<times> mod_event list \<Rightarrow> mod_error + modules \<times> mod_event list" where
  "mm_del shared key st =
     (let (ms, tr) = st in
      case ms key of
        None \<Rightarrow> Inr (ms, tr)
      | Some p \<Rightarrow> rbind (drop_ptr shared p) (\<lambda>es. Inr (ms(key := None), tr @ OnUnload p # es)))"

text \<open>\<^verbatim>\<open>delAll\<close> deletes the keys of a copy of the map; the copy, in whose order it goes, has pointers to
  the modules until the end.\<close>

fun del_loop :: "string list \<Rightarrow> modules \<times> mod_event list \<Rightarrow> mod_error + modules \<times> mod_event list" where
  "del_loop [] st = Inr st"
| "del_loop (key # keys) st = rbind (mm_del (\<lambda>_. True) key st) (del_loop keys)"

fun drop_loop :: "(module_ptr \<Rightarrow> bool) \<Rightarrow> module_ptr list \<Rightarrow> mod_error + mod_event list" where
  "drop_loop shared [] = Inr []"
| "drop_loop shared (p # ps) =
     rbind (drop_ptr shared p) (\<lambda>es. rbind (drop_loop shared ps) (\<lambda>es'. Inr (es @ es')))"

definition delAll_modules ::
  "(module_ptr \<Rightarrow> bool) \<Rightarrow> string list \<Rightarrow> modules \<times> mod_event list \<Rightarrow> mod_error + modules \<times> mod_event list" where
  "delAll_modules shared order st =
     (let tmp = fst st in
      rbind (del_loop order st) (\<lambda>(ms, tr).
      rbind (drop_loop shared (List.map_filter tmp order)) (\<lambda>es. Inr (ms, tr @ es))))"

definition mm_get :: "string \<Rightarrow> modules \<Rightarrow> module_ptr option" where
  "mm_get name ms = ms name"

text \<open>\<^verbatim>\<open>listAll\<close>: \<open>order\<close> is the order in which the hash map is traversed.\<close>

definition listAll :: "string list \<Rightarrow> modules \<Rightarrow> module_ptr list" where
  "listAll order ms = List.map_filter ms order"

definition mm_onConnect :: "string list \<Rightarrow> modules \<times> mod_event list \<Rightarrow> modules \<times> mod_event list" where
  "mm_onConnect order st = (fst st, snd st @ map OnConnect (listAll order (fst st)))"

definition mm_onDisConnect :: "string list \<Rightarrow> modules \<times> mod_event list \<Rightarrow> modules \<times> mod_event list" where
  "mm_onDisConnect order st = (fst st, snd st @ map OnConnect (listAll order (fst st)))"

definition initModule ::
  "linker \<Rightarrow> (module_ptr \<Rightarrow> bool) \<Rightarrow> string \<Rightarrow> modules \<times> mod_event list \<Rightarrow> mod_error + modules \<times> mod_event list" where
  "initModule dl shared path st =
     rbind (GetModule dl path) (\<lambda>(m, es).
       let st = (fst st, snd st @ es) in
       case m of None \<Rightarrow> Inr st | Some p \<Rightarrow> mm_add shared p st)"

fun init_modules ::
  "linker \<Rightarrow> (module_ptr \<Rightarrow> bool) \<Rightarrow> string list \<Rightarrow> modules \<times> mod_event list \<Rightarrow> mod_error + modules \<times> mod_event list" where
  "init_modules dl shared [] st = Inr st"
| "init_modules dl shared (path # paths) st = rbind (initModule dl shared path st) (init_modules dl shared paths)"

text \<open>\<^verbatim>\<open>init\<close>: the libraries below the configured directory, sorted by name; \<open>node\<close> is what is found
  there.\<close>

definition mm_init ::
  "linker \<Rightarrow> (module_ptr \<Rightarrow> bool) \<Rightarrow> string \<Rightarrow> (string \<Rightarrow> fnode option) \<Rightarrow> Env \<Rightarrow> modules \<times> mod_event list \<Rightarrow>
   mod_error + modules \<times> mod_event list" where
  "mm_init dl shared module_path at env st =
     (let path = getAbsolutePath module_path env in
      init_modules dl shared (sort (ListAllFile [] path ''.so'' (at path))) st)"


section \<open>Reachable managers\<close>

inductive mod_reach :: "modules \<times> mod_event list \<Rightarrow> bool" where
  start: "mod_reach (Map.empty, [])"
| load: "mod_reach st \<Longrightarrow> initModule dl shared path st = Inr st' \<Longrightarrow> mod_reach st'"
| delete: "mod_reach st \<Longrightarrow> mm_del shared key st = Inr st' \<Longrightarrow> mod_reach st'"
| delete_all: "mod_reach st \<Longrightarrow> delAll_modules shared order st = Inr st' \<Longrightarrow> mod_reach st'"
| connect: "mod_reach st \<Longrightarrow> mod_reach (mm_onConnect order st)"
| disconnect: "mod_reach st \<Longrightarrow> mod_reach (mm_onDisConnect order st)"

definition keyed :: "modules \<Rightarrow> bool" where
  "keyed ms \<longleftrightarrow> (\<forall>k p. ms k = Some p \<longrightarrow> md_id (mp_module p) = k)"

lemma mm_add_keyed: "keyed ms \<Longrightarrow> mm_add shared p (ms, tr) = Inr st' \<Longrightarrow> keyed (fst st')"
  by (auto simp: mm_add_def Let_def keyed_def rbind_eq_Inr split: prod.splits option.splits if_splits)

lemma mm_del_keyed: "keyed (fst st) \<Longrightarrow> mm_del shared key st = Inr st' \<Longrightarrow> keyed (fst st')"
  by (auto simp: mm_del_def Let_def keyed_def rbind_eq_Inr split: prod.splits option.splits if_splits)

lemma del_loop_keyed: "keyed (fst st) \<Longrightarrow> del_loop keys st = Inr st' \<Longrightarrow> keyed (fst st')"
  by (induction keys arbitrary: st) (auto simp: rbind_eq_Inr dest: mm_del_keyed)

lemma initModule_keyed: "keyed (fst st) \<Longrightarrow> initModule dl shared path st = Inr st' \<Longrightarrow> keyed (fst st')"
  by (auto simp: initModule_def Let_def rbind_eq_Inr dest: mm_add_keyed split: option.splits)

text \<open>A module is always found under its own id.\<close>

lemma mod_reach_keyed: "mod_reach st \<Longrightarrow> keyed (fst st)"
proof (induction rule: mod_reach.induct)
  case (delete_all st shared order st')
  then show ?case
    by (auto simp: delAll_modules_def Let_def rbind_eq_Inr dest: del_loop_keyed)
qed (auto simp: keyed_def [of Map.empty] mm_onConnect_def mm_onDisConnect_def
    intro: initModule_keyed mm_del_keyed)

section \<open>Unloading\<close>

definition closed_events :: "module_ptr \<Rightarrow> mod_event list" where
  "closed_events p = [Destory p, Dlclose (mp_handle p)]"

lemma listAll_other: "k \<notin> set keys \<Longrightarrow> listAll keys (ms(k := v)) = listAll keys ms"
  by (induction keys) (auto simp: listAll_def map_filter_simps split: option.split)

lemma del_loop_all:
  assumes "distinct keys" and "set keys \<subseteq> dom ms"
  shows "del_loop keys (ms, tr) = Inr (ms |` (- set keys), tr @ map OnUnload (listAll keys ms))"
  using assms
proof (induction keys arbitrary: ms tr)
  case (Cons k keys)
  then obtain p where p: "ms k = Some p" by auto
  have "listAll keys (ms(k := None)) = listAll keys ms"
    using Cons.prems(1) by (simp add: listAll_other)
  moreover have "(ms(k := None)) |` (- set keys) = ms |` (- set (k # keys))"
    by (auto simp: restrict_map_def)
  moreover have "set keys \<subseteq> dom (ms(k := None))" using Cons.prems by auto
  moreover from this have "del_loop keys (ms(k := None), tr @ [OnUnload p]) =
      Inr ((ms(k := None)) |` (- set keys), (tr @ [OnUnload p]) @ map OnUnload (listAll keys (ms(k := None))))"
    using Cons.prems by (intro Cons.IH) (auto simp: dom_def subset_iff)
  ultimately show ?case
    using p by (simp add: mm_del_def drop_ptr_def listAll_def map_filter_simps del: fun_upd_apply)
qed (simp add: listAll_def map_filter_simps restrict_map_def)

lemma drop_loop_all:
  assumes "\<forall>p \<in> set ps. mp_destory p \<and> \<not> shared p"
  shows "drop_loop shared ps = Inr (concat (map closed_events ps))"
  using assms by (induction ps) (auto simp: drop_ptr_def ModuleCloser_def closed_events_def)

text \<open>Deleting all modules unloads every one of them, and only then destroys them and closes their
  libraries, when the libraries have what that takes.\<close>

lemma delAll_unloads:
  assumes "distinct order" and "set order = dom ms" and "\<forall>p \<in> ran ms. mp_destory p \<and> \<not> shared p"
  shows "delAll_modules shared order (ms, tr) =
    Inr (Map.empty, tr @ map OnUnload (listAll order ms) @ concat (map closed_events (listAll order ms)))"
proof -
  have "\<forall>p \<in> set (listAll order ms). mp_destory p \<and> \<not> shared p"
    using assms(3) by (auto simp: listAll_def List.map_filter_def ran_def)
  moreover have "ms |` (- set order) = Map.empty"
    using assms(2) by (auto simp: restrict_map_def dom_def)
  ultimately show ?thesis
    using del_loop_all [of order ms tr] drop_loop_all assms
    by (simp add: delAll_modules_def Let_def listAll_def)
qed

text \<open>A module without \<^verbatim>\<open>DestoryModule\<close> in its library cannot be deleted: the null function is called.\<close>

lemma del_without_destory:
  assumes "ms key = Some p" and "\<not> mp_destory p" and "\<not> shared p"
  shows "mm_del shared key (ms, tr) = Inl NullFunction"
  using assms by (simp add: mm_del_def drop_ptr_def ModuleCloser_def)

text \<open>A module that is replaced by one with the same id is destroyed without being unloaded.\<close>

lemma replaced_not_unloaded:
  assumes "ms (md_id (mp_module p)) = Some old" and "mp_destory old" and "\<not> shared old"
  shows "mm_add shared p (ms, tr) = Inr (ms(md_id (mp_module p) \<mapsto> p), tr @ closed_events old)"
  using assms by (simp add: mm_add_def drop_ptr_def ModuleCloser_def closed_events_def)

section \<open>Loading\<close>

definition loads :: "linker \<Rightarrow> string \<Rightarrow> module_ptr \<Rightarrow> bool" where
  "loads dl path p \<longleftrightarrow> GetModule dl path = Inr (Some p, [])"

text \<open>Libraries whose modules have different ids are all loaded; each module knows its file.\<close>

lemma init_modules_loads:
  assumes "\<forall>path \<in> set paths. loads dl path (f path)"
    and "distinct (map (\<lambda>x. md_id (mp_module (f x))) paths)"
    and "\<forall>path \<in> set paths. ms (md_id (mp_module (f path))) = None"
  shows "\<exists>ms'. init_modules dl shared paths (ms, tr) = Inr (ms', tr) \<and>
    (\<forall>path \<in> set paths. ms' (md_id (mp_module (f path))) = Some (f path)) \<and>
    (\<forall>k. k \<notin> (\<lambda>x. md_id (mp_module (f x))) ` set paths \<longrightarrow> ms' k = ms k)"
  using assms
proof (induction paths arbitrary: ms)
  case (Cons path paths)
  let ?ms = "ms(md_id (mp_module (f path)) \<mapsto> f path)"
  have step: "initModule dl shared path (ms, tr) = Inr (?ms, tr)"
    using Cons.prems by (simp add: initModule_def loads_def mm_add_def)
  have "\<forall>x \<in> set paths. ?ms (md_id (mp_module (f x))) = None"
    using Cons.prems(2,3) by (auto simp: image_iff)
  then have "\<exists>ms'. init_modules dl shared paths (?ms, tr) = Inr (ms', tr) \<and>
      (\<forall>x \<in> set paths. ms' (md_id (mp_module (f x))) = Some (f x)) \<and>
      (\<forall>k. k \<notin> (\<lambda>x. md_id (mp_module (f x))) ` set paths \<longrightarrow> ms' k = ?ms k)"
    using Cons.prems(1,2) by (intro Cons.IH) simp_all
  then obtain ms' where "init_modules dl shared paths (?ms, tr) = Inr (ms', tr)"
      "\<forall>x \<in> set paths. ms' (md_id (mp_module (f x))) = Some (f x)"
      "\<forall>k. k \<notin> (\<lambda>x. md_id (mp_module (f x))) ` set paths \<longrightarrow> ms' k = ?ms k"
    by blast
  then show ?case using step Cons.prems(2) by (auto simp: image_iff)
qed simp

end
