(* ===== verification/Timers.thy ===== *)
theory Timers
  imports Ordered_Set
begin

text \<open>
  The timers (\<^verbatim>\<open>timer.h\<close>, \<^verbatim>\<open>timer.cpp\<close>).  Timer objects are shared, so they live in a store
  from addresses to timers; \<^verbatim>\<open>m_timers\<close> is a \<^verbatim>\<open>std::set\<close> of addresses ordered by
  \<^verbatim>\<open>Timer::Comparator\<close>.  The type \<open>'cb\<close> of the callbacks is a parameter; for the
  conditional timers it is the transformations of the surrounding world \<open>'w\<close>.  The
  address of a new object and the readings of the clock are arguments; times are 64-bit words,
  so an expiry time may wrap around.  Every operation holds the manager's lock throughout and is
  one atomic step.
\<close>

section \<open>State\<close>

record 'cb Timer =
  m_recurring :: bool
  m_ms :: u64
  m_next :: u64
  m_cb :: "'cb option"

record 'cb TimerManager =
  store :: "nat \<Rightarrow> 'cb Timer"
  m_timers :: "nat list"
  m_onTimerInsertAtFrontCb :: "'cb option"

text \<open>The comparison of two shared pointers, null pointers included.\<close>

definition Comparator :: "(nat \<Rightarrow> 'cb Timer) \<Rightarrow> nat option \<Rightarrow> nat option \<Rightarrow> bool" where
  "Comparator h lhs rhs =
     (case (lhs, rhs) of
        (None, None) \<Rightarrow> False
      | (None, Some r) \<Rightarrow> True
      | (Some l, None) \<Rightarrow> False
      | (Some l, Some r) \<Rightarrow>
          if m_next (h l) < m_next (h r) then True
          else if m_next (h l) > m_next (h r) then False
          else l < r)"

definition before :: "(nat \<Rightarrow> 'cb Timer) \<Rightarrow> nat \<Rightarrow> nat \<Rightarrow> bool" where
  "before h a b = Comparator h (Some a) (Some b)"

definition TimerManager_new :: "(nat \<Rightarrow> 'cb Timer) \<Rightarrow> 'cb TimerManager" where
  "TimerManager_new h = \<lparr>store = h, m_timers = [], m_onTimerInsertAtFrontCb = None\<rparr>"

definition Timer_new :: "u64 \<Rightarrow> u64 \<Rightarrow> 'cb option \<Rightarrow> bool \<Rightarrow> 'cb Timer" where
  "Timer_new now ms cb recurring =
     \<lparr>m_recurring = recurring, m_ms = ms, m_next = now + ms, m_cb = cb\<rparr>"

text \<open>The object made only for a comparison.\<close>

definition Timer_at :: "u64 \<Rightarrow> 'cb Timer" where
  "Timer_at next = \<lparr>m_recurring = False, m_ms = 0, m_next = next, m_cb = None\<rparr>"

definition upd_timer :: "nat \<Rightarrow> ('cb Timer \<Rightarrow> 'cb Timer) \<Rightarrow> 'cb TimerManager \<Rightarrow> 'cb TimerManager" where
  "upd_timer t f m = m\<lparr>store := (store m)(t := f (store m t))\<rparr>"

section \<open>Operations\<close>

definition cancel :: "nat \<Rightarrow> 'cb TimerManager \<Rightarrow> bool \<times> 'cb TimerManager" where
  "cancel t m =
     (if m_cb (store m t) = None then (False, m)
      else let m = upd_timer t (\<lambda>x. x\<lparr>m_cb := None\<rparr>) m in
      case set_find (before (store m)) t (m_timers m) of
        None \<Rightarrow> (False, m)
      | Some _ \<Rightarrow> (True, m\<lparr>m_timers := set_erase (before (store m)) t (m_timers m)\<rparr>))"

definition refresh :: "u64 \<Rightarrow> nat \<Rightarrow> 'cb TimerManager \<Rightarrow> bool \<times> 'cb TimerManager" where
  "refresh now t m =
     (if m_cb (store m t) = None then (False, m)
      else case set_find (before (store m)) t (m_timers m) of
        None \<Rightarrow> (False, m)
      | Some _ \<Rightarrow>
          let m = m\<lparr>m_timers := set_erase (before (store m)) t (m_timers m)\<rparr>;
              m = upd_timer t (\<lambda>x. x\<lparr>m_next := now + m_ms x\<rparr>) m
          in (True, m\<lparr>m_timers := set_insert (before (store m)) t (m_timers m)\<rparr>))"

text \<open>The private \<^verbatim>\<open>addTimer\<close>: the callback for a new first timer is run after the lock has
  been released; the result says whether it is run.\<close>

definition addTimer_locked :: "nat \<Rightarrow> 'cb TimerManager \<Rightarrow> 'cb TimerManager \<times> 'cb option" where
  "addTimer_locked t m =
     (let m = m\<lparr>m_timers := set_insert (before (store m)) t (m_timers m)\<rparr>;
          at_front = (m_timers m \<noteq> [] \<and>
            set_find (before (store m)) t (m_timers m) = Some (hd (m_timers m)))
      in (m, if at_front then m_onTimerInsertAtFrontCb m else None))"

definition reset ::
  "u64 \<Rightarrow> nat \<Rightarrow> u64 \<Rightarrow> bool \<Rightarrow> 'cb TimerManager \<Rightarrow> bool \<times> 'cb TimerManager \<times> 'cb option" where
  "reset now t ms from_now m =
     (if m_cb (store m t) = None then (False, m, None)
      else case set_find (before (store m)) t (m_timers m) of
        None \<Rightarrow> (False, m, None)
      | Some _ \<Rightarrow>
          let m = m\<lparr>m_timers := set_erase (before (store m)) t (m_timers m)\<rparr>;
              start = (if from_now then now else m_next (store m t) - m_ms (store m t));
              m = upd_timer t (\<lambda>x. x\<lparr>m_next := start + ms, m_ms := ms\<rparr>) m
          in (True, addTimer_locked t m))"

definition addTimer ::
  "nat \<Rightarrow> u64 \<Rightarrow> u64 \<Rightarrow> 'cb option \<Rightarrow> bool \<Rightarrow> 'cb TimerManager \<Rightarrow>
   'cb TimerManager \<times> 'cb option" where
  "addTimer t now ms cb recurring m =
     addTimer_locked t (upd_timer t (\<lambda>_. Timer_new now ms cb recurring) m)"

text \<open>A conditional timer runs its callback only while the watched object is alive.\<close>

definition OnTimer :: "('w \<Rightarrow> bool) \<Rightarrow> ('w \<Rightarrow> 'w) \<Rightarrow> 'w \<Rightarrow> 'w" where
  "OnTimer alive cb w = (if alive w then cb w else w)"

definition addCondTimer ::
  "nat \<Rightarrow> u64 \<Rightarrow> u64 \<Rightarrow> ('w \<Rightarrow> 'w) \<Rightarrow> ('w \<Rightarrow> bool) \<Rightarrow> bool \<Rightarrow> ('w \<Rightarrow> 'w) TimerManager \<Rightarrow>
   ('w \<Rightarrow> 'w) TimerManager \<times> ('w \<Rightarrow> 'w) option" where
  "addCondTimer t now ms cb alive recurring m =
     addTimer t now ms (Some (OnTimer alive cb)) recurring m"

text \<open>The loop over the expired timers: callbacks are collected, recurring timers put back with a
  new reading of the clock (\<open>clock i\<close> at the \<open>i\<close>th timer), the others forget their callback.\<close>

fun expire_loop ::
  "(nat \<Rightarrow> u64) \<Rightarrow> nat \<Rightarrow> nat list \<Rightarrow> 'cb list \<Rightarrow> 'cb TimerManager \<Rightarrow>
   'cb list \<times> 'cb TimerManager" where
  "expire_loop clock i [] cbs m = (cbs, m)"
| "expire_loop clock i (t # ts) cbs m =
     (let cbs = (case m_cb (store m t) of None \<Rightarrow> cbs | Some cb \<Rightarrow> cbs @ [cb]) in
      if m_recurring (store m t) then
        let m = upd_timer t (\<lambda>x. x\<lparr>m_next := clock i + m_ms x\<rparr>) m;
            m = m\<lparr>m_timers := set_insert (before (store m)) t (m_timers m)\<rparr>
        in expire_loop clock (Suc i) ts cbs m
      else expire_loop clock (Suc i) ts cbs (upd_timer t (\<lambda>x. x\<lparr>m_cb := None\<rparr>) m))"

text \<open>\<^verbatim>\<open>lower_bound\<close> for a temporary timer at the address \<open>tmp\<close>, then the step over the timers
  that expire right now.\<close>

definition expired_prefix :: "nat \<Rightarrow> u64 \<Rightarrow> 'cb TimerManager \<Rightarrow> nat list" where
  "expired_prefix tmp now m =
     (let h = (store m)(tmp := Timer_at now);
          lower = takeWhile (\<lambda>t. before h t tmp) (m_timers m);
          rest = dropWhile (\<lambda>t. before h t tmp) (m_timers m)
      in lower @ takeWhile (\<lambda>t. m_next (store m t) = now) rest)"

definition listExpiredCb ::
  "nat \<Rightarrow> u64 \<Rightarrow> (nat \<Rightarrow> u64) \<Rightarrow> 'cb list \<Rightarrow> 'cb TimerManager \<Rightarrow>
   'cb list \<times> 'cb TimerManager" where
  "listExpiredCb tmp now clock cbs m =
     (let expire = expired_prefix tmp now m;
          m = m\<lparr>m_timers := drop (length expire) (m_timers m)\<rparr>
      in expire_loop clock 0 expire cbs m)"

definition getNextTimerInterval :: "u64 \<Rightarrow> 'cb TimerManager \<Rightarrow> u64" where
  "getNextTimerInterval now m =
     (case m_timers m of
        [] \<Rightarrow> - 1
      | t # _ \<Rightarrow> if now \<ge> m_next (store m t) then 0 else m_next (store m t) - now)"

definition setInsertAtFrontCb :: "'cb option \<Rightarrow> 'cb TimerManager \<Rightarrow> 'cb TimerManager" where
  "setInsertAtFrontCb cb m = m\<lparr>m_onTimerInsertAtFrontCb := cb\<rparr>"

section \<open>The comparison is a strict order\<close>

lemma before_iff:
  "before h a b \<longleftrightarrow> m_next (h a) < m_next (h b) \<or> m_next (h a) = m_next (h b) \<and> a < b"
  by (auto simp: before_def Comparator_def)

interpretation tm: strict_weak_order "before h" for h
  by unfold_locales (auto simp: before_iff)

lemma same_key_before [simp]: "same_key (before h) a b \<longleftrightarrow> a = b"
  by (auto simp: same_key_def before_iff)

lemma sorted_wrt_before_cong:
  assumes "\<forall>a \<in> set ts. m_next (h a) = m_next (h' a)"
  shows "sorted_wrt (before h) ts \<longleftrightarrow> sorted_wrt (before h') ts"
  using assms by (induction ts) (auto simp: before_iff)

section \<open>Invariant\<close>

definition timers_ok :: "'cb TimerManager \<Rightarrow> bool" where
  "timers_ok m \<longleftrightarrow> sorted_wrt (before (store m)) (m_timers m)"

lemma timers_ok_find:
  assumes "timers_ok m"
  shows "set_find (before (store m)) t (m_timers m) = (if t \<in> set (m_timers m) then Some t else None)"
  using tm.set_find_Some [of "store m" "m_timers m" t t] tm.set_find_None [of "store m" "m_timers m" t] assms
  by (auto simp: timers_ok_def)

lemma upd_timer_sel [simp]:
  "m_timers (upd_timer t f m) = m_timers m"
  "m_onTimerInsertAtFrontCb (upd_timer t f m) = m_onTimerInsertAtFrontCb m"
  "store (upd_timer t f m) = (store m)(t := f (store m t))"
  by (simp_all add: upd_timer_def)

lemma timers_ok_upd:
  assumes "timers_ok m" and "t \<in> set (m_timers m) \<Longrightarrow> m_next (f (store m t)) = m_next (store m t)"
  shows "timers_ok (upd_timer t f m)"
  using assms sorted_wrt_before_cong [of "m_timers m" "store m" "(store m)(t := f (store m t))"]
  by (auto simp: timers_ok_def)

text \<open>Putting a timer that is not in the set into it, and taking one out.\<close>

abbreviation put :: "nat \<Rightarrow> 'cb TimerManager \<Rightarrow> 'cb TimerManager" where
  "put t m \<equiv> m\<lparr>m_timers := set_insert (before (store m)) t (m_timers m)\<rparr>"

abbreviation take_out :: "nat \<Rightarrow> 'cb TimerManager \<Rightarrow> 'cb TimerManager" where
  "take_out t m \<equiv> m\<lparr>m_timers := set_erase (before (store m)) t (m_timers m)\<rparr>"

lemma put_ok:
  assumes "timers_ok m"
  shows "timers_ok (put t m)" and "set (m_timers (put t m)) = insert t (set (m_timers m))"
proof -
  show "timers_ok (put t m)" using assms tm.sorted_insert by (simp add: timers_ok_def)
  show "set (m_timers (put t m)) = insert t (set (m_timers m))"
  proof (cases "t \<in> set (m_timers m)")
    case True
    then show ?thesis using timers_ok_find [OF assms, of t] by (auto simp: set_insert_def)
  next
    case False
    then have "set_find (before (store m)) t (m_timers m) = None"
      using timers_ok_find [OF assms] by simp
    then show ?thesis by (simp add: tm.set_set_insert)
  qed
qed

lemma take_out_ok:
  assumes "timers_ok m"
  shows "timers_ok (take_out t m)" and "set (m_timers (take_out t m)) = set (m_timers m) - {t}"
proof -
  show "timers_ok (take_out t m)" using assms tm.sorted_erase by (simp add: timers_ok_def)
  show "set (m_timers (take_out t m)) = set (m_timers m) - {t}"
  proof (cases "t \<in> set (m_timers m)")
    case True
    then have "set_find (before (store m)) t (m_timers m) = Some t"
      using timers_ok_find [OF assms] by simp
    then show ?thesis using assms tm.set_set_erase by (simp add: timers_ok_def)
  next
    case False
    then show ?thesis using timers_ok_find [OF assms, of t] by (auto simp: set_erase_def)
  qed
qed


section \<open>The operations\<close>

lemma cancel_eq:
  assumes "timers_ok m"
  shows "cancel t m =
     (if m_cb (store m t) = None then (False, m)
      else let m' = upd_timer t (\<lambda>x. x\<lparr>m_cb := None\<rparr>) m in
      if t \<in> set (m_timers m) then (True, take_out t m') else (False, m'))"
proof -
  have ok: "timers_ok (upd_timer t (\<lambda>x. x\<lparr>m_cb := None\<rparr>) m)"
    using assms by (intro timers_ok_upd) auto
  show ?thesis using timers_ok_find [OF ok, of t] by (simp add: cancel_def Let_def)
qed

lemma cancel_correct:
  assumes "timers_ok m"
  shows "timers_ok (snd (cancel t m))"
    and "fst (cancel t m) \<longleftrightarrow> m_cb (store m t) \<noteq> None \<and> t \<in> set (m_timers m)"
    and "store (snd (cancel t m)) = (store m)(t := (store m t)\<lparr>m_cb := None\<rparr>)"
    and "set (m_timers (snd (cancel t m))) =
      (if m_cb (store m t) = None then set (m_timers m) else set (m_timers m) - {t})"
proof -
  let ?m = "upd_timer t (\<lambda>x. x\<lparr>m_cb := None\<rparr>) m"
  have ok: "timers_ok ?m" using assms by (intro timers_ok_upd) auto
  note out = take_out_ok [OF ok, of t]
  show "timers_ok (snd (cancel t m))" using out(1) ok assms by (simp add: cancel_eq [OF assms] Let_def)
  show "fst (cancel t m) \<longleftrightarrow> m_cb (store m t) \<noteq> None \<and> t \<in> set (m_timers m)"
    by (simp add: cancel_eq [OF assms] Let_def)
  show "store (snd (cancel t m)) = (store m)(t := (store m t)\<lparr>m_cb := None\<rparr>)"
    by (auto simp: cancel_eq [OF assms] Let_def fun_eq_iff)
  show "set (m_timers (snd (cancel t m))) =
      (if m_cb (store m t) = None then set (m_timers m) else set (m_timers m) - {t})"
    using out(2) by (simp add: cancel_eq [OF assms] Let_def)
qed

text \<open>Moving a timer to another expiry time.\<close>

definition moved :: "nat \<Rightarrow> ('cb Timer \<Rightarrow> 'cb Timer) \<Rightarrow> 'cb TimerManager \<Rightarrow> 'cb TimerManager" where
  "moved t f m = put t (upd_timer t f (take_out t m))"

lemma moved_ok:
  assumes "timers_ok m" and "t \<in> set (m_timers m)"
  shows "timers_ok (moved t f m)" and "set (m_timers (moved t f m)) = set (m_timers m)"
    and "store (moved t f m) = (store m)(t := f (store m t))"
proof -
  note out = take_out_ok [OF assms(1), of t]
  have ok: "timers_ok (upd_timer t f (take_out t m))"
    using out by (intro timers_ok_upd) auto
  show "timers_ok (moved t f m)" "set (m_timers (moved t f m)) = set (m_timers m)"
    using put_ok [OF ok, of t] out(2) assms(2) by (auto simp: moved_def)
  show "store (moved t f m) = (store m)(t := f (store m t))" by (simp add: moved_def)
qed

lemma refresh_eq:
  assumes "timers_ok m"
  shows "refresh now t m =
     (if m_cb (store m t) \<noteq> None \<and> t \<in> set (m_timers m)
      then (True, moved t (\<lambda>x. x\<lparr>m_next := now + m_ms x\<rparr>) m) else (False, m))"
  using timers_ok_find [OF assms] by (simp add: refresh_def moved_def Let_def)

lemma addTimer_locked_eq:
  assumes "timers_ok m"
  shows "addTimer_locked t m =
     (put t m, if m_timers (put t m) \<noteq> [] \<and> hd (m_timers (put t m)) = t then m_onTimerInsertAtFrontCb m else None)"
  using timers_ok_find [OF put_ok(1) [OF assms, of t], of t] put_ok(2) [OF assms, of t]
  by (auto simp: addTimer_locked_def Let_def)

lemma reset_eq:
  assumes "timers_ok m"
  shows "fst (reset now t ms from_now m) \<longleftrightarrow> m_cb (store m t) \<noteq> None \<and> t \<in> set (m_timers m)"
    and "fst (snd (reset now t ms from_now m)) =
     (if m_cb (store m t) \<noteq> None \<and> t \<in> set (m_timers m)
      then moved t (\<lambda>x. x\<lparr>m_next := (if from_now then now else m_next x - m_ms x) + ms, m_ms := ms\<rparr>) m
      else m)"
  using timers_ok_find [OF assms] 
  by (simp_all add: reset_def moved_def Let_def addTimer_locked_def upd_timer_def)

lemma addTimer_correct:
  assumes "timers_ok m" and "t \<notin> set (m_timers m)"
  shows "timers_ok (fst (addTimer t now ms cb recurring m))"
    and "set (m_timers (fst (addTimer t now ms cb recurring m))) = insert t (set (m_timers m))"
    and "store (fst (addTimer t now ms cb recurring m)) = (store m)(t := Timer_new now ms cb recurring)"
proof -
  have ok: "timers_ok (upd_timer t (\<lambda>_. Timer_new now ms cb recurring) m)"
    using assms by (intro timers_ok_upd) auto
  show "timers_ok (fst (addTimer t now ms cb recurring m))"
   "set (m_timers (fst (addTimer t now ms cb recurring m))) = insert t (set (m_timers m))"
   "store (fst (addTimer t now ms cb recurring m)) = (store m)(t := Timer_new now ms cb recurring)"
    using put_ok [OF ok, of t] by (simp_all add: addTimer_def addTimer_locked_eq [OF ok])
qed

section \<open>Expiry\<close>

lemma sorted_by_next:
  "sorted_wrt (before h) (t # ts) \<Longrightarrow> u \<in> set ts \<Longrightarrow> m_next (h t) \<le> m_next (h u)"
  by (auto simp: before_iff)

lemma takeWhile_expired:
  assumes "sorted_wrt (before h) ts"
  shows "set (takeWhile (\<lambda>t. m_next (h t) \<le> now) ts) = {t \<in> set ts. m_next (h t) \<le> now}"
    and "set (dropWhile (\<lambda>t. m_next (h t) \<le> now) ts) = {t \<in> set ts. \<not> m_next (h t) \<le> now}"
proof -
  have "set (takeWhile (\<lambda>t. m_next (h t) \<le> now) ts) = {t \<in> set ts. m_next (h t) \<le> now} \<and>
      set (dropWhile (\<lambda>t. m_next (h t) \<le> now) ts) = {t \<in> set ts. \<not> m_next (h t) \<le> now}"
    using assms
  proof (induction ts)
    case (Cons t ts)
    show ?case
    proof (cases "m_next (h t) \<le> now")
      case True
      then show ?thesis using Cons by auto
    next
      case False
      then have "\<not> m_next (h u) \<le> now" if "u \<in> set ts" for u
        using sorted_by_next [OF Cons.prems that] order_trans by blast
      then show ?thesis using False by auto
    qed
  qed simp
  then show "set (takeWhile (\<lambda>t. m_next (h t) \<le> now) ts) = {t \<in> set ts. m_next (h t) \<le> now}"
    and "set (dropWhile (\<lambda>t. m_next (h t) \<le> now) ts) = {t \<in> set ts. \<not> m_next (h t) \<le> now}"
    by simp_all
qed

lemma expired_prefix_eq:
  assumes "timers_ok m" and "tmp \<notin> set (m_timers m)"
  shows "expired_prefix tmp now m = takeWhile (\<lambda>t. m_next (store m t) \<le> now) (m_timers m)"
proof -
  let ?h = "(store m)(tmp := Timer_at now)"
  have "takeWhile (\<lambda>t. before ?h t tmp) ts @
      takeWhile (\<lambda>t. m_next (store m t) = now) (dropWhile (\<lambda>t. before ?h t tmp) ts) =
      takeWhile (\<lambda>t. m_next (store m t) \<le> now) ts"
    if "tmp \<notin> set ts" "sorted_wrt (before (store m)) ts" for ts
    using that
  proof (induction ts)
    case (Cons t ts)
    consider (lt) "m_next (store m t) < now" | (eq) "m_next (store m t) = now"
      | (gt) "now < m_next (store m t)" by fastforce
    then show ?case
    proof cases
      case eq
      then have "takeWhile (\<lambda>t. m_next (store m t) = now) ts =
          takeWhile (\<lambda>t. m_next (store m t) \<le> now) ts"
        using sorted_by_next [OF Cons.prems(2)] by (intro takeWhile_cong refl) fastforce
      then show ?thesis using Cons eq by (simp add: before_iff Timer_at_def)
    next
      case gt
      then have "\<not> m_next (store m t) \<le> now" "m_next (store m t) \<noteq> now" "\<not> m_next (store m t) < now"
        by (auto simp: not_le)
      then show ?thesis using Cons.prems(1) by (simp add: before_iff Timer_at_def)
    qed (use Cons in \<open>simp add: before_iff Timer_at_def\<close>)
  qed simp
  then show ?thesis using assms by (simp add: expired_prefix_def Let_def timers_ok_def)
qed

text \<open>The loop: the callbacks in order, the recurring timers back in the set.\<close>

lemma expire_loop_correct:
  assumes "timers_ok m" and "distinct ts" and "set ts \<inter> set (m_timers m) = {}"
    and "expire_loop clock i ts cbs m = (cbs', m')"
  shows "timers_ok m' \<and> set (m_timers m') = set (m_timers m) \<union> {t \<in> set ts. m_recurring (store m t)} \<and>
    cbs' = cbs @ List.map_filter (\<lambda>t. m_cb (store m t)) ts \<and>
    (\<forall>u. u \<notin> set ts \<longrightarrow> store m' u = store m u) \<and>
    (\<forall>j < length ts. store m' (ts ! j) =
       (if m_recurring (store m (ts ! j))
        then (store m (ts ! j))\<lparr>m_next := clock (i + j) + m_ms (store m (ts ! j))\<rparr>
        else (store m (ts ! j))\<lparr>m_cb := None\<rparr>)) \<and>
    m_onTimerInsertAtFrontCb m' = m_onTimerInsertAtFrontCb m"
  using assms
proof (induction ts arbitrary: i cbs m)
  case Nil
  then show ?case by (simp add: map_filter_simps)
next
  case (Cons t ts)
  define cbs1 where "cbs1 = (case m_cb (store m t) of None \<Rightarrow> cbs | Some cb \<Rightarrow> cbs @ [cb])"
  define m1 where "m1 = (if m_recurring (store m t)
    then put t (upd_timer t (\<lambda>x. x\<lparr>m_next := clock i + m_ms x\<rparr>) m)
    else upd_timer t (\<lambda>x. x\<lparr>m_cb := None\<rparr>) m)"
  have t: "t \<notin> set ts" "t \<notin> set (m_timers m)" using Cons.prems(2,3) by auto
  have upd: "timers_ok (upd_timer t f m)" for f using Cons.prems(1) t by (intro timers_ok_upd) auto
  have m1: "timers_ok m1" "set (m_timers m1) = set (m_timers m) \<union> (if m_recurring (store m t) then {t} else {})"
    "store m1 = (store m)(t := if m_recurring (store m t)
        then (store m t)\<lparr>m_next := clock i + m_ms (store m t)\<rparr> else (store m t)\<lparr>m_cb := None\<rparr>)"
    "m_onTimerInsertAtFrontCb m1 = m_onTimerInsertAtFrontCb m"
    using upd put_ok [OF upd, where t = t] by (auto simp: m1_def)
  have "expire_loop clock (Suc i) ts cbs1 m1 = (cbs', m')"
    using Cons.prems(4) by (auto simp: m1_def cbs1_def Let_def split: if_splits)
  moreover have "set ts \<inter> set (m_timers m1) = {}" using m1(2) Cons.prems(3) t by auto
  moreover have "distinct ts" using Cons.prems(2) by simp
  ultimately have IH: "timers_ok m'" "set (m_timers m') = set (m_timers m1) \<union> {t \<in> set ts. m_recurring (store m1 t)}"
    "cbs' = cbs1 @ List.map_filter (\<lambda>t. m_cb (store m1 t)) ts"
    "\<And>u. u \<notin> set ts \<Longrightarrow> store m' u = store m1 u"
    "\<And>j. j < length ts \<Longrightarrow> store m' (ts ! j) =
       (if m_recurring (store m1 (ts ! j))
        then (store m1 (ts ! j))\<lparr>m_next := clock (Suc i + j) + m_ms (store m1 (ts ! j))\<rparr>
        else (store m1 (ts ! j))\<lparr>m_cb := None\<rparr>)"
    "m_onTimerInsertAtFrontCb m' = m_onTimerInsertAtFrontCb m1"
    using Cons.IH [OF m1(1)] by blast+
  have same: "store m1 u = store m u" if "u \<in> set ts" for u using that t m1(3) by auto
  have "List.map_filter (\<lambda>t. m_cb (store m1 t)) ts = List.map_filter (\<lambda>t. m_cb (store m t)) ts"
    using same by (simp add: map_filter_def cong: filter_cong map_cong)
  then have "cbs' = cbs @ List.map_filter (\<lambda>t. m_cb (store m t)) (t # ts)"
    using IH(3) by (simp add: cbs1_def map_filter_simps split: option.splits)
  moreover have "set (m_timers m') = set (m_timers m) \<union> {u \<in> set (t # ts). m_recurring (store m u)}"
    using IH(2) m1(2) same by auto
  moreover have "\<forall>u. u \<notin> set (t # ts) \<longrightarrow> store m' u = store m u" using IH(4) m1(3) by simp
  moreover have "store m' ((t # ts) ! j) =
       (if m_recurring (store m ((t # ts) ! j))
        then (store m ((t # ts) ! j))\<lparr>m_next := clock (i + j) + m_ms (store m ((t # ts) ! j))\<rparr>
        else (store m ((t # ts) ! j))\<lparr>m_cb := None\<rparr>)" if "j < length (t # ts)" for j
    using that IH(4) [OF t(1)] IH(5) [of "j - 1"] same [of "ts ! (j - 1)"] m1(3) by (cases j) auto
  ultimately show ?case using IH(1) trans [OF IH(6) m1(4)] by blast
qed

lemma listExpiredCb_correct:
  assumes "timers_ok m" and "tmp \<notin> set (m_timers m)"
    and "listExpiredCb tmp now clock cbs m = (cbs', m')"
  shows "\<exists>expired. expired = takeWhile (\<lambda>t. m_next (store m t) \<le> now) (m_timers m) \<and>
    set expired = {t \<in> set (m_timers m). m_next (store m t) \<le> now} \<and>
    cbs' = cbs @ List.map_filter (\<lambda>t. m_cb (store m t)) expired \<and>
    timers_ok m' \<and> set (m_timers m') = {t \<in> set (m_timers m). m_next (store m t) \<le> now \<longrightarrow> m_recurring (store m t)} \<and>
    (\<forall>u. u \<notin> set expired \<longrightarrow> store m' u = store m u) \<and>
    (\<forall>j < length expired. store m' (expired ! j) =
       (if m_recurring (store m (expired ! j))
        then (store m (expired ! j))\<lparr>m_next := clock j + m_ms (store m (expired ! j))\<rparr>
        else (store m (expired ! j))\<lparr>m_cb := None\<rparr>))"
proof -
  define ex where "ex = takeWhile (\<lambda>t. m_next (store m t) \<le> now) (m_timers m)"
  define rest where "rest = dropWhile (\<lambda>t. m_next (store m t) \<le> now) (m_timers m)"
  have srt: "sorted_wrt (before (store m)) (m_timers m)" using assms(1) by (simp add: timers_ok_def)
  have split: "m_timers m = ex @ rest" by (simp add: ex_def rest_def)
  have sets: "set ex = {t \<in> set (m_timers m). m_next (store m t) \<le> now}"
    "set rest = {t \<in> set (m_timers m). \<not> m_next (store m t) \<le> now}"
    using takeWhile_expired [OF srt] by (simp_all add: ex_def rest_def)
  have ok: "timers_ok (m\<lparr>m_timers := rest\<rparr>)" using srt by (simp add: timers_ok_def split sorted_wrt_append)
  have "distinct (ex @ rest)" using tm.distinct_sorted [OF srt] split by simp
  then have "distinct ex" "set ex \<inter> set (m_timers (m\<lparr>m_timers := rest\<rparr>)) = {}" by auto
  moreover have "expire_loop clock 0 ex cbs (m\<lparr>m_timers := rest\<rparr>) = (cbs', m')"
  proof -
    have "expired_prefix tmp now m = ex" using expired_prefix_eq [OF assms(1,2)] by (simp add: ex_def)
    then show ?thesis using assms(3) by (simp add: listExpiredCb_def Let_def split)
  qed
  ultimately show ?thesis
    using expire_loop_correct [OF ok, of ex clock 0 cbs cbs' m'] sets
    by (intro exI [of _ ex]) (auto simp: ex_def [symmetric])
qed

section \<open>Reachable states\<close>

text \<open>The states a manager can be in: every operation in any order, with objects at fresh addresses
  and callbacks that are there.\<close>

inductive reach :: "('w \<Rightarrow> 'w) TimerManager \<Rightarrow> bool" where
  reach_new: "reach (TimerManager_new h)"
| reach_add: "reach m \<Longrightarrow> t \<notin> set (m_timers m) \<Longrightarrow> reach (fst (addTimer t now ms (Some cb) recurring m))"
| reach_addCond: "reach m \<Longrightarrow> t \<notin> set (m_timers m) \<Longrightarrow>
    reach (fst (addCondTimer t now ms cb alive recurring m))"
| reach_cancel: "reach m \<Longrightarrow> reach (snd (cancel t m))"
| reach_refresh: "reach m \<Longrightarrow> reach (snd (refresh now t m))"
| reach_reset: "reach m \<Longrightarrow> reach (fst (snd (reset now t ms from_now m)))"
| reach_expire: "reach m \<Longrightarrow> tmp \<notin> set (m_timers m) \<Longrightarrow> reach (snd (listExpiredCb tmp now clock cbs m))"
| reach_front: "reach m \<Longrightarrow> reach (setInsertAtFrontCb front m)"

definition armed :: "'cb TimerManager \<Rightarrow> bool" where
  "armed m \<longleftrightarrow> timers_ok m \<and> (\<forall>t \<in> set (m_timers m). m_cb (store m t) \<noteq> None)"

lemma armed_add:
  assumes "armed m" and "t \<notin> set (m_timers m)"
  shows "armed (fst (addTimer t now ms (Some cb) recurring m))"
  using assms addTimer_correct [of m t now ms "Some cb" recurring]
  by (auto simp: armed_def Timer_new_def)

lemma armed_moved:
  assumes "armed m" and "t \<in> set (m_timers m)" and "\<And>x. m_cb (f x) = m_cb x"
  shows "armed (moved t f m)"
  using assms moved_ok [of m t f] by (auto simp: armed_def)

lemma armed_cancel: "armed m \<Longrightarrow> armed (snd (cancel t m))"
  using cancel_correct [of m t] by (auto simp: armed_def)

lemma armed_expire:
  assumes "armed m" and "tmp \<notin> set (m_timers m)"
  shows "armed (snd (listExpiredCb tmp now clock cbs m))"
proof -
  obtain cbs' m' where l: "listExpiredCb tmp now clock cbs m = (cbs', m')" by fastforce
  obtain ex where e: "set ex = {t \<in> set (m_timers m). m_next (store m t) \<le> now}"
    "timers_ok m'"
    "set (m_timers m') = {t \<in> set (m_timers m). m_next (store m t) \<le> now \<longrightarrow> m_recurring (store m t)}"
    "\<And>u. u \<notin> set ex \<Longrightarrow> store m' u = store m u"
    "\<And>j. j < length ex \<Longrightarrow> store m' (ex ! j) =
       (if m_recurring (store m (ex ! j))
        then (store m (ex ! j))\<lparr>m_next := clock j + m_ms (store m (ex ! j))\<rparr>
        else (store m (ex ! j))\<lparr>m_cb := None\<rparr>)"
    using listExpiredCb_correct [OF _ assms(2) l] assms(1) unfolding armed_def by blast
  have "m_cb (store m' t) \<noteq> None" if t: "t \<in> set (m_timers m')" for t
  proof (cases "t \<in> set ex")
    case True
    then obtain j where "j < length ex" "t = ex ! j" by (metis in_set_conv_nth)
    then show ?thesis using e(5) [of j] t e(1,3) True assms(1) by (auto simp: armed_def)
  next
    case False
    then show ?thesis using e(4) t e(3) assms(1) by (auto simp: armed_def)
  qed
  then show ?thesis using e(2) l by (simp add: armed_def)
qed

lemma reach_armed: "reach m \<Longrightarrow> armed m"
proof (induction rule: reach.induct)
  case (reach_refresh m now t)
  then show ?case using armed_moved [of m t] by (auto simp: refresh_eq armed_def)
next
  case (reach_reset m now t ms from_now)
  then show ?case using armed_moved [of m t] by (auto simp: reset_eq armed_def)
next
  case (reach_new h)
  show ?case by (simp add: TimerManager_new_def armed_def timers_ok_def)
next
  case (reach_front m front)
  then show ?case by (simp add: setInsertAtFrontCb_def armed_def timers_ok_def)
qed (simp_all add: armed_add armed_cancel armed_expire addCondTimer_def)

section \<open>What the timers guarantee\<close>

text \<open>C20: in every state the operations can reach, in any order, the set is in the order of the
  comparison (so every search in it finds what is there), and every timer in it still has its
  callback: a cancelled timer is never in it.\<close>

theorem timers_invariant:
  assumes "reach m"
  shows "sorted_wrt (before (store m)) (m_timers m) \<and> distinct (m_timers m) \<and>
     (\<forall>t \<in> set (m_timers m). m_cb (store m t) \<noteq> None)"
  using reach_armed [OF assms] tm.distinct_sorted by (auto simp: armed_def timers_ok_def)

theorem timers_invariant_witness:
  "\<exists>m :: (nat \<Rightarrow> nat) TimerManager. m = fst (addTimer 3 100 5 (Some Suc) False (TimerManager_new (\<lambda>_. Timer_at 0))) \<and>
     m_timers m = [3] \<and> sorted_wrt (before (store m)) (m_timers m) \<and>
     (\<forall>t \<in> set (m_timers m). m_cb (store m t) \<noteq> None)"
proof -
  let ?m = "fst (addTimer 3 100 5 (Some Suc) False (TimerManager_new (\<lambda>_. Timer_at 0)))"
  have "reach ?m" by (intro reach_add reach_new) (simp add: TimerManager_new_def)
  moreover have "m_timers ?m = [3]"
    by (simp add: addTimer_def addTimer_locked_def TimerManager_new_def set_insert_def set_find_def Let_def)
  ultimately show ?thesis using timers_invariant [of ?m] by auto
qed

text \<open>C6: \<^verbatim>\<open>listExpiredCb\<close> delivers the callbacks of exactly the timers whose time has come, in the order
  of their expiry; the one-shot timers among them are gone from the set and have lost their
  callback, the recurring ones are back with their next time counted from the clock, and no other
  timer is touched.\<close>

theorem listExpiredCb_delivers:
  assumes "timers_ok m" and "tmp \<notin> set (m_timers m)"
    and "listExpiredCb tmp now clock cbs m = (cbs', m')"
  shows "\<exists>expired. expired = takeWhile (\<lambda>t. m_next (store m t) \<le> now) (m_timers m) \<and>
    set expired = {t \<in> set (m_timers m). m_next (store m t) \<le> now} \<and>
    cbs' = cbs @ List.map_filter (\<lambda>t. m_cb (store m t)) expired \<and>
    timers_ok m' \<and> set (m_timers m') = {t \<in> set (m_timers m). m_next (store m t) \<le> now \<longrightarrow> m_recurring (store m t)} \<and>
    (\<forall>u. u \<notin> set expired \<longrightarrow> store m' u = store m u) \<and>
    (\<forall>j < length expired. store m' (expired ! j) =
       (if m_recurring (store m (expired ! j))
        then (store m (expired ! j))\<lparr>m_next := clock j + m_ms (store m (expired ! j))\<rparr>
        else (store m (expired ! j))\<lparr>m_cb := None\<rparr>))"
  using assms by (rule listExpiredCb_correct)

theorem listExpiredCb_delivers_witness:
  "\<exists>m m' :: (nat \<Rightarrow> nat) TimerManager. m = fst (addTimer 3 100 5 (Some Suc) True (TimerManager_new (\<lambda>_. Timer_at 0))) \<and>
     listExpiredCb 9 105 (\<lambda>_. 106) [] m = ([Suc], m') \<and> set (m_timers m') = {3}"
proof -
  let ?m = "fst (addTimer 3 100 5 (Some Suc) True (TimerManager_new (\<lambda>_. Timer_at 0)))"
  have ok: "timers_ok ?m" and ts: "m_timers ?m = [3]" and st: "store ?m 3 = Timer_new 100 5 (Some Suc) True"
    by (simp_all add: timers_ok_def addTimer_def addTimer_locked_def TimerManager_new_def
        set_insert_def set_find_def Let_def)
  obtain cbs' m' where l: "listExpiredCb 9 105 (\<lambda>_. 106) [] ?m = (cbs', m')" by fastforce
  have "cbs' = [Suc] \<and> set (m_timers m') = {3}"
    using listExpiredCb_delivers [OF ok _ l] ts st
    by (auto simp: Timer_new_def map_filter_simps)
  then show ?thesis using l by auto
qed

text \<open>C25: \<^verbatim>\<open>cancel\<close> succeeds on exactly the timers that are pending; afterwards the timer has no callback
  and is not pending, so no later \<^verbatim>\<open>cancel\<close>, \<^verbatim>\<open>refresh\<close> or \<^verbatim>\<open>reset\<close> of it succeeds; no other
  timer is touched.\<close>

theorem cancel_is_final:
  assumes "reach m" and "cancel t m = (r, m')"
  shows "(r \<longleftrightarrow> t \<in> set (m_timers m)) \<and> set (m_timers m') = set (m_timers m) - {t} \<and>
     (\<forall>u. u \<noteq> t \<longrightarrow> store m' u = store m u) \<and>
     \<not> fst (cancel t m') \<and> \<not> fst (refresh now t m') \<and> \<not> fst (reset now t ms from_now m')"
proof -
  have ok: "timers_ok m" "\<forall>t \<in> set (m_timers m). m_cb (store m t) \<noteq> None"
    using reach_armed [OF assms(1)] by (auto simp: armed_def)
  note c = cancel_correct [OF ok(1), of t, unfolded assms(2), simplified]
  have "m_cb (store m' t) = None" using c(3) by simp
  then show ?thesis
    using c ok(2) cancel_correct(2) [OF c(1), of t] refresh_eq [OF c(1), of now t]
      reset_eq(1) [OF c(1), of now t ms from_now]
    by auto
qed

theorem cancel_is_final_witness:
  "\<exists>m m' :: (nat \<Rightarrow> nat) TimerManager. m = fst (addTimer 3 100 5 (Some Suc) True (TimerManager_new (\<lambda>_. Timer_at 0))) \<and>
     cancel 3 m = (True, m') \<and> m_timers m' = [] \<and> \<not> fst (refresh 7 3 m')"
proof -
  let ?m = "fst (addTimer 3 100 5 (Some Suc) True (TimerManager_new (\<lambda>_. Timer_at 0)))"
  have "reach ?m" by (intro reach_add reach_new) (simp add: TimerManager_new_def)
  moreover have ts: "m_timers ?m = [3]"
    by (simp add: addTimer_def addTimer_locked_def TimerManager_new_def set_insert_def set_find_def Let_def)
  moreover obtain r m' where c: "cancel 3 ?m = (r, m')" by fastforce
  ultimately show ?thesis using cancel_is_final [of ?m 3 r m' 7] by auto
qed

text \<open>\<^verbatim>\<open>getNextTimerInterval\<close> is the time until the first pending timer expires, zero exactly when
  one has expired, and the largest value when there is none.\<close>

lemma next_interval_is_first_expiry:
  assumes "timers_ok m"
  shows "getNextTimerInterval now m =
     (if m_timers m = [] then - 1
      else let first = Min ((\<lambda>t. m_next (store m t)) ` set (m_timers m))
           in if first \<le> now then 0 else first - now)"
proof (cases "m_timers m")
  case (Cons t ts)
  have "Min ((\<lambda>t. m_next (store m t)) ` set (m_timers m)) = m_next (store m t)"
    using sorted_by_next [of "store m" t ts] assms Cons
    by (intro Min_eqI) (auto simp: timers_ok_def)
  then show ?thesis using Cons by (simp add: getNextTimerInterval_def Let_def)
qed (simp add: getNextTimerInterval_def)

lemma next_interval_is_first_expiry_example:
  "getNextTimerInterval 100 (fst (addTimer 3 100 5 (Some Suc) True (TimerManager_new (\<lambda>_. Timer_at 0)))) = 5"
proof -
  let ?m = "fst (addTimer 3 100 5 (Some Suc) True (TimerManager_new (\<lambda>_. Timer_at 0)))"
  have "timers_ok ?m" "m_timers ?m = [3]" "store ?m 3 = Timer_new 100 5 (Some Suc) True"
    by (simp_all add: timers_ok_def addTimer_def addTimer_locked_def TimerManager_new_def
        set_insert_def set_find_def Let_def)
  then show ?thesis using next_interval_is_first_expiry [of ?m 100] by (simp add: Timer_new_def)
qed

end
