(* ===== verification/IO_Manager.thy ===== *)
theory IO_Manager
  imports Timers Scheduling
begin

text \<open>
  The I/O manager (\<^verbatim>\<open>iomanager.h\<close>, \<^verbatim>\<open>iomanager.cpp\<close>): who waits for which event on which
  descriptor, registered with epoll.  Event masks are 32-bit words.  The kernel's side is the
  interest list \<open>epoll\<close>; whether a call of \<^verbatim>\<open>epoll_ctl\<close> succeeds is an argument of the operation
  that makes it, and a successful call has the documented effect on the interest list.  The lock of
  a descriptor's context is held through every operation on it, so each operation is one step.
  Failed assertions, a null scheduler and an index outside \<^verbatim>\<open>m_fd_contexts\<close> are errors.
\<close>

section \<open>State\<close>

datatype io_error = IoAssert | IoNullScheduler | IoOutOfRange

definition Event_NONE :: u32 where [simp]: "Event_NONE = 0"
definition Event_READ :: u32 where [simp]: "Event_READ = 1"
definition Event_WRITE :: u32 where [simp]: "Event_WRITE = 4"
definition EPOLLIN :: u32 where [simp]: "EPOLLIN = 1"
definition EPOLLOUT :: u32 where [simp]: "EPOLLOUT = 4"
definition EPOLLERR :: u32 where [simp]: "EPOLLERR = 8"
definition EPOLLHUP :: u32 where [simp]: "EPOLLHUP = 16"
definition EPOLLET :: u32 where "EPOLLET = 0x80000000"

record EventContext =
  ec_scheduler :: bool
  ec_fiber :: "nat option"
  ec_cb :: "script option"

record FdContext =
  fc_read :: EventContext
  fc_write :: EventContext
  fc_fd :: nat
  events :: u32

datatype EpollCtlOp = EPOLL_CTL_ADD | EPOLL_CTL_DEL | EPOLL_CTL_MOD

record IOManager =
  sched :: Scheduler
  m_fd_contexts :: "FdContext list"
  epoll :: "nat \<Rightarrow> u32 option"
  m_pending_event_count :: u64
  m_time_manager :: "script TimerManager"
  tickled :: nat

definition no_context :: EventContext where
  "no_context = \<lparr>ec_scheduler = False, ec_fiber = None, ec_cb = None\<rparr>"

definition FdContext_new :: "nat \<Rightarrow> FdContext" where
  "FdContext_new i = \<lparr>fc_read = no_context, fc_write = no_context, fc_fd = i, events = 0\<rparr>"

section \<open>The context of a descriptor\<close>

definition getContext :: "u32 \<Rightarrow> FdContext \<Rightarrow> io_error + EventContext" where
  "getContext event c =
     (if event = Event_READ then Inr (fc_read c)
      else if event = Event_WRITE then Inr (fc_write c)
      else Inl IoAssert)"

definition putContext :: "u32 \<Rightarrow> EventContext \<Rightarrow> FdContext \<Rightarrow> FdContext" where
  "putContext event ec c =
     (if event = Event_READ then c\<lparr>fc_read := ec\<rparr> else c\<lparr>fc_write := ec\<rparr>)"

definition resetContext :: "EventContext \<Rightarrow> EventContext" where
  "resetContext ec = ec\<lparr>ec_scheduler := False, ec_fiber := None, ec_cb := None\<rparr>"

definition triggerContext :: "u32 \<Rightarrow> FdContext \<Rightarrow> Scheduler \<Rightarrow> io_error + FdContext \<times> Scheduler" where
  "triggerContext event c s =
     (if event AND events c = 0 then Inl IoAssert
      else let c = c\<lparr>events := events c AND NOT event\<rparr> in
      rbind (getContext event c) (\<lambda>ctx.
      if \<not> ec_scheduler ctx then Inl IoNullScheduler
      else case ec_fiber ctx of
        Some p \<Rightarrow> Inr (putContext event (ctx\<lparr>ec_fiber := None, ec_scheduler := False\<rparr>) c,
                        submit (OfFiber (Some p)) (- 1) s)
      | None \<Rightarrow> Inr (putContext event (ctx\<lparr>ec_cb := None, ec_scheduler := False\<rparr>) c,
                     submit (OfCb (ec_cb ctx)) (- 1) s)))"

section \<open>Operations\<close>

definition contextResize :: "nat \<Rightarrow> FdContext list \<Rightarrow> FdContext list" where
  "contextResize sz cs = take sz cs @ map FdContext_new [length cs..<sz]"

definition IOManager_new :: "nat \<Rightarrow> script TimerManager \<Rightarrow> fiber_error + IOManager" where
  "IOManager_new thrNum timers =
     rbind (start (Scheduler_new thrNum)) (\<lambda>s.
     Inr \<lparr>sched = s, m_fd_contexts = contextResize 32 [], epoll = \<lambda>_. None,
          m_pending_event_count = 0, m_time_manager = timers, tickled = 0\<rparr>)"

text \<open>The effect of a successful \<^verbatim>\<open>epoll_ctl\<close>.\<close>

definition epoll_ctl :: "EpollCtlOp \<Rightarrow> nat \<Rightarrow> u32 \<Rightarrow> IOManager \<Rightarrow> IOManager" where
  "epoll_ctl op fd ev m =
     m\<lparr>epoll := (epoll m)(fd := (if op = EPOLL_CTL_DEL then None else Some ev))\<rparr>"

definition set_ctx :: "nat \<Rightarrow> FdContext \<Rightarrow> IOManager \<Rightarrow> IOManager" where
  "set_ctx i c m = m\<lparr>m_fd_contexts := (m_fd_contexts m)[i := c]\<rparr>"

text \<open>Room for a descriptor; the new size \<^verbatim>\<open>fd * 1.5\<close> is rounded down.\<close>

definition grow :: "int \<Rightarrow> IOManager \<Rightarrow> IOManager" where
  "grow fd m =
     (if int (length (m_fd_contexts m)) \<le> fd
      then m\<lparr>m_fd_contexts := contextResize (nat fd * 3 div 2) (m_fd_contexts m)\<rparr> else m)"

text \<open>\<open>ok\<close> is whether \<^verbatim>\<open>epoll_ctl\<close> succeeds, \<open>self\<close> whether the calling thread has a scheduler,
  \<open>cur\<close> the calling fiber.\<close>

definition addEvent ::
  "bool \<Rightarrow> bool \<Rightarrow> nat option \<Rightarrow> int \<Rightarrow> u32 \<Rightarrow> script option \<Rightarrow> IOManager \<Rightarrow> io_error + int \<times> IOManager" where
  "addEvent ok self cur fd event cb m =
     (let m = grow fd m in
      if fd < 0 \<or> int (length (m_fd_contexts m)) \<le> fd then Inl IoOutOfRange
      else let i = nat fd; c = m_fd_contexts m ! i in
      if events c AND event \<noteq> 0 then Inl IoAssert
      else let op = (if events c \<noteq> 0 then EPOLL_CTL_MOD else EPOLL_CTL_ADD) in
      if \<not> ok then Inr (- 1, m)
      else let m = epoll_ctl op i (EPOLLET OR (events c OR event)) m;
               m = m\<lparr>m_pending_event_count := m_pending_event_count m + 1\<rparr>;
               c = c\<lparr>events := events c OR event\<rparr> in
      rbind (getContext event c) (\<lambda>ec.
      if ec_scheduler ec \<or> ec_fiber ec \<noteq> None \<or> ec_cb ec \<noteq> None then Inl IoAssert
      else let ec = ec\<lparr>ec_scheduler := self\<rparr>;
               ec = (if cb \<noteq> None then ec\<lparr>ec_cb := cb\<rparr> else ec\<lparr>ec_fiber := cur\<rparr>)
           in Inr (0, set_ctx i (putContext event ec c) m)))"

definition delEvent :: "bool \<Rightarrow> int \<Rightarrow> u32 \<Rightarrow> IOManager \<Rightarrow> io_error + bool \<times> IOManager" where
  "delEvent ok fd event m =
     (if fd \<ge> int (length (m_fd_contexts m)) then Inr (False, m)
      else if fd < 0 then Inl IoOutOfRange
      else let i = nat fd; c = m_fd_contexts m ! i in
      if events c AND event = 0 then Inr (False, m)
      else let new_events = events c AND NOT event;
               op = (if new_events \<noteq> 0 then EPOLL_CTL_MOD else EPOLL_CTL_DEL) in
      if \<not> ok then Inr (False, m)
      else let m = epoll_ctl op i (EPOLLET OR new_events) m;
               m = m\<lparr>m_pending_event_count := m_pending_event_count m - 1\<rparr>;
               c = c\<lparr>events := new_events\<rparr> in
      rbind (getContext event c) (\<lambda>ec.
      Inr (True, set_ctx i (putContext event (resetContext ec) c) m)))"

text \<open>As in the source, \<^verbatim>\<open>delAll\<close> leaves the event mask as it is.\<close>

definition delAll :: "bool \<Rightarrow> int \<Rightarrow> IOManager \<Rightarrow> io_error + bool \<times> IOManager" where
  "delAll ok fd m =
     (if fd \<ge> int (length (m_fd_contexts m)) then Inr (False, m)
      else if fd < 0 then Inl IoOutOfRange
      else let i = nat fd; c = m_fd_contexts m ! i in
      if events c = 0 then Inr (False, m)
      else if \<not> ok then Inr (False, m)
      else let m = epoll_ctl EPOLL_CTL_DEL i 0 m;
               (c, m) = (if events c AND Event_READ \<noteq> 0
                 then (c\<lparr>fc_read := resetContext (fc_read c)\<rparr>,
                       m\<lparr>m_pending_event_count := m_pending_event_count m - 1\<rparr>) else (c, m));
               (c, m) = (if events c AND Event_WRITE \<noteq> 0
                 then (c\<lparr>fc_write := resetContext (fc_write c)\<rparr>,
                       m\<lparr>m_pending_event_count := m_pending_event_count m - 1\<rparr>) else (c, m))
           in Inr (True, set_ctx i c m))"

text \<open>Waking the waiter of one event of a context.\<close>

definition wake :: "nat \<Rightarrow> u32 \<Rightarrow> IOManager \<Rightarrow> io_error + IOManager" where
  "wake i event m =
     rbind (triggerContext event (m_fd_contexts m ! i) (sched m)) (\<lambda>(c, s).
     Inr ((set_ctx i c m)\<lparr>sched := s, m_pending_event_count := m_pending_event_count m - 1\<rparr>))"

definition cancelEvent :: "bool \<Rightarrow> int \<Rightarrow> u32 \<Rightarrow> IOManager \<Rightarrow> io_error + bool \<times> IOManager" where
  "cancelEvent ok fd event m =
     (if fd \<ge> int (length (m_fd_contexts m)) then Inr (False, m)
      else if fd < 0 then Inl IoOutOfRange
      else let i = nat fd; c = m_fd_contexts m ! i in
      if events c AND event = 0 then Inr (False, m)
      else let new_events = events c AND NOT event;
               op = (if new_events \<noteq> 0 then EPOLL_CTL_MOD else EPOLL_CTL_DEL) in
      if \<not> ok then Inr (False, m)
      else rbind (wake i event (epoll_ctl op i (EPOLLET OR new_events) m)) (\<lambda>m. Inr (True, m)))"

definition cancelAll :: "bool \<Rightarrow> int \<Rightarrow> IOManager \<Rightarrow> io_error + bool \<times> IOManager" where
  "cancelAll ok fd m =
     (if fd \<ge> int (length (m_fd_contexts m)) then Inr (False, m)
      else if fd < 0 then Inl IoOutOfRange
      else let i = nat fd; c = m_fd_contexts m ! i in
      if events c = 0 then Inr (False, m)
      else if \<not> ok then Inr (False, m)
      else let m = epoll_ctl EPOLL_CTL_DEL i 0 m in
      if events c AND Event_READ \<noteq> 0 then rbind (wake i Event_READ m) (\<lambda>m. Inr (True, m))
      else if events c AND Event_WRITE \<noteq> 0 then rbind (wake i Event_WRITE m) (\<lambda>m. Inr (True, m))
      else Inr (True, m))"

definition addTimerEvent ::
  "nat \<Rightarrow> u64 \<Rightarrow> u64 \<Rightarrow> script \<Rightarrow> bool \<Rightarrow> IOManager \<Rightarrow> IOManager" where
  "addTimerEvent t now ms cb recurring m =
     m\<lparr>m_time_manager := fst (addTimer t now ms (Some cb) recurring (m_time_manager m))\<rparr>"

text \<open>\<^verbatim>\<open>notify\<close> writes a byte into the pipe when a thread is idle.\<close>

definition io_notify :: "IOManager \<Rightarrow> IOManager" where
  "io_notify m = (if \<not> hasIdleThreads (sched m) then m else m\<lparr>tickled := Suc (tickled m)\<rparr>)"

definition io_canStop :: "u64 \<Rightarrow> IOManager \<Rightarrow> bool \<times> u64" where
  "io_canStop now m =
     (let next_timer = getNextTimerInterval now (m_time_manager m)
      in (next_timer = - 1 \<and> m_pending_event_count m = 0 \<and> canStop (sched m), next_timer))"

section \<open>The wait loop\<close>

definition wait_timeout :: "u64 \<Rightarrow> u64" where
  "wait_timeout next_timer = (if next_timer \<noteq> - 1 then min 3000 next_timer else 3000)"

text \<open>One reported event: the pipe (\<open>None\<close>), which is emptied, or a descriptor's context.\<close>

definition real_event_of :: "u32 \<Rightarrow> u32 \<Rightarrow> u32" where
  "real_event_of reported registered =
     (let reported = (if reported AND (EPOLLERR OR EPOLLHUP) \<noteq> 0
                      then reported OR ((EPOLLIN OR EPOLLOUT) AND registered) else reported);
          r = (if reported AND EPOLLIN \<noteq> 0 then Event_READ else Event_NONE)
      in if reported AND EPOLLOUT \<noteq> 0 then r OR Event_WRITE else r)"

definition handle_event :: "bool \<Rightarrow> nat option \<Rightarrow> u32 \<Rightarrow> IOManager \<Rightarrow> io_error + IOManager" where
  "handle_event ok src reported m =
     (case src of
        None \<Rightarrow> Inr (m\<lparr>tickled := 0\<rparr>)
      | Some i \<Rightarrow>
          let c = m_fd_contexts m ! i; real_event = real_event_of reported (events c) in
          if events c AND real_event = Event_NONE then Inr m
          else let left_event = events c AND NOT real_event;
                   op = (if left_event \<noteq> 0 then EPOLL_CTL_MOD else EPOLL_CTL_DEL) in
          if \<not> ok then Inr m
          else let m = epoll_ctl op (fc_fd c) (left_event OR EPOLLET) m in
          rbind (if real_event AND Event_READ \<noteq> 0 then wake i Event_READ m else Inr m) (\<lambda>m.
          if real_event AND Event_WRITE \<noteq> 0 then wake i Event_WRITE m else Inr m))"

fun handle_events :: "(bool \<times> nat option \<times> u32) list \<Rightarrow> IOManager \<Rightarrow> io_error + IOManager" where
  "handle_events [] m = Inr m"
| "handle_events ((ok, src, reported) # es) m =
     rbind (handle_event ok src reported m) (handle_events es)"

text \<open>One turn of the loop of \<^verbatim>\<open>wait\<close>: \<open>None\<close> when the fiber leaves the loop, else the state it
  holds with; \<open>reported\<close> is what \<^verbatim>\<open>epoll_wait\<close> delivers.\<close>

definition wait_turn ::
  "u64 \<Rightarrow> nat \<Rightarrow> u64 \<Rightarrow> (nat \<Rightarrow> u64) \<Rightarrow> (bool \<times> nat option \<times> u32) list \<Rightarrow> IOManager \<Rightarrow>
   (io_error + IOManager) option" where
  "wait_turn now tmp later clock reported m =
     (if fst (io_canStop now m) then None
      else let (timer_cbs, tm) = listExpiredCb tmp later clock [] (m_time_manager m);
               m = m\<lparr>m_time_manager := tm, sched := submit_range (map (OfCb \<circ> Some) timer_cbs) (sched m)\<rparr>
           in Some (handle_events reported m))"


section \<open>Invariant\<close>

definition waiting :: "bool \<Rightarrow> EventContext \<Rightarrow> bool" where
  "waiting b ec \<longleftrightarrow> (if b then ec_scheduler ec \<and> (ec_fiber ec = None \<or> ec_cb ec = None) else ec = no_context)"

definition ctx_ok :: "nat \<Rightarrow> FdContext \<Rightarrow> bool" where
  "ctx_ok i c \<longleftrightarrow> fc_fd c = i \<and> events c \<in> {0, 1, 4, 5} \<and>
     waiting (events c AND 1 \<noteq> 0) (fc_read c) \<and> waiting (events c AND 4 \<noteq> 0) (fc_write c)"

definition cnt :: "FdContext \<Rightarrow> nat" where
  "cnt c = (if events c AND 1 \<noteq> 0 then 1 else 0) + (if events c AND 4 \<noteq> 0 then 1 else 0)"

definition interest :: "FdContext \<Rightarrow> u32 option" where
  "interest c = (if events c = 0 then None else Some (EPOLLET OR events c))"

definition io_ok :: "IOManager \<Rightarrow> bool" where
  "io_ok m \<longleftrightarrow> (\<forall>i < length (m_fd_contexts m). ctx_ok i (m_fd_contexts m ! i)) \<and>
     epoll m = (\<lambda>i. if i < length (m_fd_contexts m) then interest (m_fd_contexts m ! i) else None) \<and>
     m_pending_event_count m = word_of_nat (sum_list (map cnt (m_fd_contexts m)))"

lemma io_okD:
  assumes "io_ok m"
  shows "i < length (m_fd_contexts m) \<Longrightarrow> ctx_ok i (m_fd_contexts m ! i)"
    and "epoll m = (\<lambda>i. if i < length (m_fd_contexts m) then interest (m_fd_contexts m ! i) else None)"
    and "m_pending_event_count m = word_of_nat (sum_list (map cnt (m_fd_contexts m)))"
  using assms by (simp_all add: io_ok_def)

text \<open>A context is replaced, the kernel and the counter follow.\<close>

lemma io_ok_update:
  assumes "io_ok m" and "i < length (m_fd_contexts m)" and "ctx_ok i c"
    and "m_fd_contexts m' = (m_fd_contexts m)[i := c]"
    and "epoll m' = (epoll m)(i := interest c)"
    and "m_pending_event_count m' + word_of_nat (cnt (m_fd_contexts m ! i)) =
      m_pending_event_count m + word_of_nat (cnt c)"
  shows "io_ok m'"
proof -
  let ?cs = "m_fd_contexts m" and ?k = "cnt (m_fd_contexts m ! i)"
  note ok = io_okD [OF assms(1)]
  have "?k \<le> sum_list (map cnt ?cs)"
    using elem_le_sum_list [of i "map cnt ?cs"] assms(2) by simp
  then have "sum_list (map cnt (?cs[i := c])) + ?k = sum_list (map cnt ?cs) + cnt c"
    using sum_list_update [of i "map cnt ?cs" "cnt c"] assms(2) by (simp add: map_update)
  then have "word_of_nat (sum_list (map cnt (?cs[i := c]))) + (word_of_nat ?k :: u64) =
      word_of_nat (sum_list (map cnt ?cs)) + word_of_nat (cnt c)"
    by (metis of_nat_add)
  then have "m_pending_event_count m' = word_of_nat (sum_list (map cnt (?cs[i := c])))"
    using assms(6) ok(3) by (metis add_right_cancel)
  moreover have "\<forall>j < length (?cs[i := c]). ctx_ok j (?cs[i := c] ! j)"
    using ok(1) assms(2,3) by (auto simp: nth_list_update)
  moreover have "epoll m' = (\<lambda>j. if j < length (?cs[i := c]) then interest (?cs[i := c] ! j) else None)"
    using ok(2) assms(2,5) by (auto simp: fun_eq_iff nth_list_update)
  ultimately show ?thesis unfolding io_ok_def assms(4) by simp
qed

lemma ctx_ok_new: "ctx_ok i (FdContext_new i)"
  by (simp add: ctx_ok_def FdContext_new_def waiting_def)

lemma nth_contextResize:
  "i < length cs \<Longrightarrow> length cs \<le> n \<Longrightarrow> contextResize n cs ! i = cs ! i"
  "length cs \<le> i \<Longrightarrow> i < n \<Longrightarrow> contextResize n cs ! i = FdContext_new i"
  by (auto simp: contextResize_def nth_append)

lemma length_contextResize: "length cs \<le> n \<Longrightarrow> length (contextResize n cs) = n"
  by (simp add: contextResize_def)

lemma cnt_new [simp]: "cnt (FdContext_new i) = 0"
  by (simp add: cnt_def FdContext_new_def)

lemma io_ok_resize:
  assumes "io_ok m" and "length (m_fd_contexts m) \<le> n"
  shows "io_ok (m\<lparr>m_fd_contexts := contextResize n (m_fd_contexts m)\<rparr>)"
proof -
  let ?cs = "m_fd_contexts m"
  note ok = io_okD [OF assms(1)]
  have "ctx_ok i (contextResize n ?cs ! i)" if "i < n" for i
    using that ok(1) ctx_ok_new assms(2)
    by (cases "i < length ?cs") (simp_all add: nth_contextResize)
  moreover have "epoll m = (\<lambda>i. if i < n then interest (contextResize n ?cs ! i) else None)"
  proof
    fix x
    show "epoll m x = (if x < n then interest (contextResize n ?cs ! x) else None)"
      unfolding ok(2) using assms(2)
      by (cases "x < length ?cs"; cases "x < n")
        (simp_all add: nth_contextResize interest_def FdContext_new_def)
  qed
  moreover have "sum_list (map cnt (contextResize n ?cs)) = sum_list (map cnt ?cs)"
    using assms(2) by (simp add: contextResize_def comp_def)
  ultimately show ?thesis using ok(3) assms(2)
    by (simp add: io_ok_def length_contextResize cong: if_cong)
qed

section \<open>The operations keep the invariant\<close>

lemma io_upd_sel [simp]:
  "m_fd_contexts (epoll_ctl op fd ev m) = m_fd_contexts m"
  "epoll (epoll_ctl op fd ev m) = (epoll m)(fd := (if op = EPOLL_CTL_DEL then None else Some ev))"
  "m_pending_event_count (epoll_ctl op fd ev m) = m_pending_event_count m"
  "sched (epoll_ctl op fd ev m) = sched m"
  "m_fd_contexts (set_ctx i c m) = (m_fd_contexts m)[i := c]"
  "epoll (set_ctx i c m) = epoll m"
  "m_pending_event_count (set_ctx i c m) = m_pending_event_count m"
  "sched (set_ctx i c m) = sched m"
  by (simp_all add: epoll_ctl_def set_ctx_def)

definition waiter :: "EventContext \<Rightarrow> FiberOrCb" where
  "waiter ec = (case ec_fiber ec of Some p \<Rightarrow> OfFiber (Some p) | None \<Rightarrow> OfCb (ec_cb ec))"

definition event_ctx :: "u32 \<Rightarrow> FdContext \<Rightarrow> EventContext" where
  "event_ctx event c = (if event = Event_READ then fc_read c else fc_write c)"

text \<open>A context whose event \<open>event\<close> is over.\<close>

definition cleared :: "u32 \<Rightarrow> FdContext \<Rightarrow> FdContext" where
  "cleared event c = putContext event no_context (c\<lparr>events := events c AND NOT event\<rparr>)"

lemma cleared_ok:
  assumes "ctx_ok i c" and "event = 1 \<or> event = 4" and "events c AND event \<noteq> 0"
  shows "ctx_ok i (cleared event c)" and "cnt c = Suc (cnt (cleared event c))"
    and "events (cleared event c) = events c AND NOT event"
  using assms by (auto simp: ctx_ok_def cleared_def putContext_def waiting_def cnt_def)

lemma triggerContext_eq:
  assumes "ctx_ok i c" and "event = 1 \<or> event = 4" and "events c AND event \<noteq> 0"
  shows "triggerContext event c s = Inr (cleared event c, submit (waiter (event_ctx event c)) (- 1) s)"
proof -
  have "event AND events c \<noteq> 0" using assms(3) by (simp add: and.commute)
  then show ?thesis using assms
    by (auto simp: triggerContext_def ctx_ok_def cleared_def putContext_def waiting_def getContext_def
        waiter_def event_ctx_def no_context_def Let_def split: option.splits)
qed

lemma wake_eq:
  assumes "ctx_ok i (m_fd_contexts m ! i)" and "event = 1 \<or> event = 4"
    and "events (m_fd_contexts m ! i) AND event \<noteq> 0"
  shows "wake i event m = Inr ((set_ctx i (cleared event (m_fd_contexts m ! i)) m)
     \<lparr>sched := submit (waiter (event_ctx event (m_fd_contexts m ! i))) (- 1) (sched m),
      m_pending_event_count := m_pending_event_count m - 1\<rparr>)"
  using triggerContext_eq [OF assms] by (simp add: wake_def)

lemma resetContext_eq [simp]: "resetContext ec = no_context"
  by (cases ec) (simp add: resetContext_def no_context_def)

text \<open>Removing or cancelling one event.\<close>

lemma io_ok_cleared:
  assumes "io_ok m" and "i < length (m_fd_contexts m)" and "event = 1 \<or> event = 4"
    and "events (m_fd_contexts m ! i) AND event \<noteq> 0"
    and "m_fd_contexts m' = (m_fd_contexts m)[i := cleared event (m_fd_contexts m ! i)]"
    and "epoll m' = (epoll m)(i := (if events (m_fd_contexts m ! i) AND NOT event = 0 then None
       else Some (EPOLLET OR (events (m_fd_contexts m ! i) AND NOT event))))"
    and "m_pending_event_count m' = m_pending_event_count m - 1"
  shows "io_ok m'"
proof -
  note cl = cleared_ok [OF io_okD(1) [OF assms(1,2)] assms(3,4)]
  have "epoll m' = (epoll m)(i := interest (cleared event (m_fd_contexts m ! i)))"
    using assms(6) cl(3) by (simp add: interest_def)
  moreover have "m_pending_event_count m' + word_of_nat (cnt (m_fd_contexts m ! i)) =
      m_pending_event_count m + word_of_nat (cnt (cleared event (m_fd_contexts m ! i)))"
    using assms(7) cl(2) by simp
  ultimately show ?thesis by (intro io_ok_update [OF assms(1,2) cl(1) assms(5)])
qed

lemma delEvent_ok:
  assumes "io_ok m" and "event = 1 \<or> event = 4" and "delEvent ok fd event m = Inr (r, m')"
  shows "io_ok m'"
proof (cases "0 \<le> fd \<and> fd < int (length (m_fd_contexts m)) \<and> events (m_fd_contexts m ! nat fd) AND event \<noteq> 0 \<and> ok")
  case True
  let ?c = "m_fd_contexts m ! nat fd"
  have "m_fd_contexts m' = (m_fd_contexts m)[nat fd := cleared event ?c]"
    "epoll m' = (epoll m)(nat fd := (if events ?c AND NOT event = 0 then None
       else Some (EPOLLET OR (events ?c AND NOT event))))"
    "m_pending_event_count m' = m_pending_event_count m - 1"
    using assms(2,3) True
    by (auto simp: delEvent_def Let_def getContext_def cleared_def)
  then show ?thesis using True by (intro io_ok_cleared [OF assms(1) _ assms(2)]) auto
next
  case False
  then have "m' = m" using assms(3) by (auto simp: delEvent_def Let_def split: if_splits)
  then show ?thesis using assms(1) by simp
qed

lemma cancelEvent_eq:
  assumes "io_ok m" and "event = 1 \<or> event = 4" and "0 \<le> fd" and "fd < int (length (m_fd_contexts m))"
    and "events (m_fd_contexts m ! nat fd) AND event \<noteq> 0"
  shows "\<exists>m'. cancelEvent True fd event m = Inr (True, m') \<and> io_ok m' \<and>
     sched m' = submit (waiter (event_ctx event (m_fd_contexts m ! nat fd))) (- 1) (sched m) \<and>
     m_fd_contexts m' = (m_fd_contexts m)[nat fd := cleared event (m_fd_contexts m ! nat fd)]"
proof -
  let ?i = "nat fd" and ?c = "m_fd_contexts m ! nat fd"
  let ?op = "if events ?c AND NOT event \<noteq> 0 then EPOLL_CTL_MOD else EPOLL_CTL_DEL"
  let ?m = "epoll_ctl ?op ?i (EPOLLET OR (events ?c AND NOT event)) m"
  have i: "?i < length (m_fd_contexts m)" using assms(3,4) by simp
  have "wake ?i event ?m = Inr ((set_ctx ?i (cleared event ?c) ?m)
     \<lparr>sched := submit (waiter (event_ctx event ?c)) (- 1) (sched m),
      m_pending_event_count := m_pending_event_count m - 1\<rparr>)" (is "_ = Inr ?m'")
    using wake_eq [of ?i ?m event] io_okD(1) [OF assms(1) i] assms(2,5) by simp
  moreover have "io_ok ?m'" by (rule io_ok_cleared [OF assms(1) i assms(2,5)]) auto
  ultimately show ?thesis using assms(3-5) by (auto simp: cancelEvent_def Let_def)
qed

lemma io_ok_grow: "io_ok m \<Longrightarrow> io_ok (grow fd m)"
  by (auto simp: grow_def intro!: io_ok_resize)

definition new_waiter :: "nat option \<Rightarrow> script option \<Rightarrow> EventContext" where
  "new_waiter cur cb = (if cb \<noteq> None then no_context\<lparr>ec_scheduler := True, ec_cb := cb\<rparr>
     else no_context\<lparr>ec_scheduler := True, ec_fiber := cur\<rparr>)"

definition watched :: "u32 \<Rightarrow> EventContext \<Rightarrow> FdContext \<Rightarrow> FdContext" where
  "watched event ec c = putContext event ec (c\<lparr>events := events c OR event\<rparr>)"

lemma watched_ok:
  assumes "ctx_ok i c" and "event = 1 \<or> event = 4" and "events c AND event = 0"
  shows "ctx_ok i (watched event (new_waiter cur cb) c)"
    and "cnt (watched event (new_waiter cur cb) c) = Suc (cnt c)"
    and "interest (watched event (new_waiter cur cb) c) = Some (EPOLLET OR (events c OR event))"
    and "getContext event (c\<lparr>events := events c OR event\<rparr>) = Inr no_context"
proof -
  note defs = ctx_ok_def putContext_def waiting_def cnt_def new_waiter_def no_context_def watched_def
    interest_def getContext_def
  show "ctx_ok i (watched event (new_waiter cur cb) c)" using assms by (auto simp: defs)
  show "cnt (watched event (new_waiter cur cb) c) = Suc (cnt c)" using assms by (auto simp: defs)
  show "interest (watched event (new_waiter cur cb) c) = Some (EPOLLET OR (events c OR event))"
    using assms by (auto simp: defs)
  show "getContext event (c\<lparr>events := events c OR event\<rparr>) = Inr no_context"
    using assms by (auto simp: defs)
qed

lemma addEvent_eq:
  assumes "io_ok m" and "event = 1 \<or> event = 4" and "0 \<le> fd"
    and "nat fd < length (m_fd_contexts (grow fd m))"
    and "events (m_fd_contexts (grow fd m) ! nat fd) AND event = 0"
  shows "\<exists>m'. addEvent True True cur fd event cb m = Inr (0, m') \<and> io_ok m' \<and> sched m' = sched (grow fd m) \<and>
     m_fd_contexts m' = (m_fd_contexts (grow fd m))
       [nat fd := watched event (new_waiter cur cb) (m_fd_contexts (grow fd m) ! nat fd)]"
proof -
  define g where "g = grow fd m"
  let ?i = "nat fd" and ?c = "m_fd_contexts g ! nat fd"
  have ok: "io_ok g" using assms(1) by (simp add: g_def io_ok_grow)
  have i: "?i < length (m_fd_contexts g)" "events ?c AND event = 0" using assms(4,5) by (simp_all add: g_def)
  note w = watched_ok [OF io_okD(1) [OF ok i(1)] assms(2) i(2)]
  let ?op = "if events ?c \<noteq> 0 then EPOLL_CTL_MOD else EPOLL_CTL_ADD"
  let ?m' = "set_ctx ?i (watched event (new_waiter cur cb) ?c)
    ((epoll_ctl ?op ?i (EPOLLET OR (events ?c OR event)) g)
     \<lparr>m_pending_event_count := m_pending_event_count g + 1\<rparr>)"
  have "addEvent True True cur fd event cb m = Inr (0, ?m')"
    using assms(3) i w(4)
    by (simp add: addEvent_def Let_def g_def [symmetric] watched_def new_waiter_def no_context_def)
  moreover have "io_ok ?m'"
    by (rule io_ok_update [OF ok i(1) w(1)]) (simp_all add: w(2,3))
  ultimately show ?thesis by (auto simp: g_def)
qed

lemma addEvent_ok:
  assumes "io_ok m" and "event = 1 \<or> event = 4" and "addEvent ok True cur fd event cb m = Inr (r, m')"
  shows "io_ok m'"
proof -
  have fd: "0 \<le> fd" "nat fd < length (m_fd_contexts (grow fd m))"
    "events (m_fd_contexts (grow fd m) ! nat fd) AND event = 0"
    using assms(3) by (auto simp: addEvent_def Let_def split: if_splits)
  show ?thesis
  proof (cases ok)
    case True
    then show ?thesis using addEvent_eq [OF assms(1,2) fd, of cur cb] assms(3) by auto
  next
    case False
    then have "m' = grow fd m" using assms(3) fd by (auto simp: addEvent_def Let_def split: if_splits)
    then show ?thesis using io_ok_grow assms(1) by simp
  qed
qed

section \<open>Events that epoll reports\<close>

lemma real_event_cases: "real_event_of reported registered \<in> {0, 1, 4, 5}"
  by (auto simp: real_event_of_def Let_def)

definition wakeups :: "u32 \<Rightarrow> FdContext \<Rightarrow> Scheduler \<Rightarrow> Scheduler" where
  "wakeups r c s =
     (let s = (if r AND Event_READ \<noteq> 0 then submit (waiter (fc_read c)) (- 1) s else s)
      in if r AND Event_WRITE \<noteq> 0 then submit (waiter (fc_write c)) (- 1) s else s)"

definition cleared_all :: "u32 \<Rightarrow> FdContext \<Rightarrow> FdContext" where
  "cleared_all r c =
     (let c = (if r AND Event_READ \<noteq> 0 then cleared Event_READ c else c)
      in if r AND Event_WRITE \<noteq> 0 then cleared Event_WRITE c else c)"

lemma handle_event_eq:
  assumes "io_ok m" and "i < length (m_fd_contexts m)" and "c = m_fd_contexts m ! i"
    and "r = real_event_of reported (events c)" and "r AND NOT (events c) = 0" and "r \<noteq> 0"
  shows "\<exists>m'. handle_event True (Some i) reported m = Inr m' \<and> io_ok m' \<and>
     sched m' = wakeups r c (sched m) \<and> m_fd_contexts m' = (m_fd_contexts m)[i := cleared_all r c]"
proof -
  have c: "ctx_ok i c" using io_okD(1) [OF assms(1,2)] assms(3) by simp
  have ev: "events c \<in> {0, 1, 4, 5}" and fd: "fc_fd c = i" using c by (auto simp: ctx_ok_def)
  let ?left = "events c AND NOT r"
  let ?m = "epoll_ctl (if ?left \<noteq> 0 then EPOLL_CTL_MOD else EPOLL_CTL_DEL) i (?left OR EPOLLET) m"
  have h: "handle_event True (Some i) reported m =
      rbind (if r AND Event_READ \<noteq> 0 then wake i Event_READ ?m else Inr ?m) (\<lambda>m.
        if r AND Event_WRITE \<noteq> 0 then wake i Event_WRITE m else Inr m)"
  proof -
    have "events c AND r \<noteq> 0"
      using ev real_event_cases [of reported "events c"] assms(4,5,6) by auto
    then show ?thesis using assms(3,4) fd by (simp add: handle_event_def Let_def)
  qed
  have ep: "epoll ?m = (epoll m)(i := if ?left = 0 then None else Some (EPOLLET OR ?left))"
    by (simp add: or.commute)
  note w = io_ok_cleared [OF assms(1,2)]
  consider "r = 1" "events c AND 1 \<noteq> 0" | "r = 4" "events c AND 4 \<noteq> 0" | "r = 5" "events c = 5"
    using ev real_event_cases [of reported "events c"] assms(4,5,6) by auto
  then show ?thesis
  proof cases
    case 1
    have e: "wake i 1 ?m = Inr ((set_ctx i (cleared 1 c) ?m)
       \<lparr>sched := submit (waiter (fc_read c)) (- 1) (sched m),
        m_pending_event_count := m_pending_event_count m - 1\<rparr>)" (is "_ = Inr ?m'")
      using wake_eq [of i ?m 1] c assms(3) 1 by (simp add: event_ctx_def)
    have "io_ok ?m'" using 1 assms(3) ep by (intro w [of 1]) auto
    then show ?thesis using h 1 e assms(3)
      by (simp add: wakeups_def cleared_all_def Let_def)
  next
    case 2
    have e: "wake i 4 ?m = Inr ((set_ctx i (cleared 4 c) ?m)
       \<lparr>sched := submit (waiter (fc_write c)) (- 1) (sched m),
        m_pending_event_count := m_pending_event_count m - 1\<rparr>)" (is "_ = Inr ?m'")
      using wake_eq [of i ?m 4] c assms(3) 2 by (simp add: event_ctx_def)
    have "io_ok ?m'" using 2 assms(3) ep by (intro w [of 4]) auto
    then show ?thesis using h 2 e assms(3)
      by (simp add: wakeups_def cleared_all_def Let_def)
  next
    case 3
    note c1 = cleared_ok [OF c, of 1, simplified, unfolded 3(2), simplified]
    note c2 = cleared_ok [OF c1(1), of 4, simplified, unfolded c1(3), simplified]
    have e1: "wake i 1 ?m = Inr ((set_ctx i (cleared 1 c) ?m)
       \<lparr>sched := submit (waiter (fc_read c)) (- 1) (sched m),
        m_pending_event_count := m_pending_event_count m - 1\<rparr>)" (is "_ = Inr ?m1")
      using wake_eq [of i ?m 1] c assms(3) 3 by (simp add: event_ctx_def)
    have ci: "m_fd_contexts ?m1 ! i = cleared 1 c" using assms(2) by simp
    have "fc_write (cleared 1 c) = fc_write c" by (simp add: cleared_def putContext_def)
    then have e2: "wake i 4 ?m1 = Inr ((set_ctx i (cleared 4 (cleared 1 c)) ?m1)
       \<lparr>sched := submit (waiter (fc_write c)) (- 1) (sched ?m1),
        m_pending_event_count := m_pending_event_count ?m1 - 1\<rparr>)" (is "_ = Inr ?m2")
      using wake_eq [of i ?m1 4] c1 ci by (simp add: event_ctx_def)
    have "io_ok ?m2"
      using assms(3) ep 3 c1(2) c2 
      by (intro io_ok_update [OF assms(1,2) c2(1)]) (simp_all add: interest_def)
    then show ?thesis using h 3 e1 e2 by (simp add: wakeups_def cleared_all_def Let_def)
  qed
qed

lemma cancelEvent_ok:
  assumes "io_ok m" and "event = 1 \<or> event = 4" and "cancelEvent ok fd event m = Inr (r, m')"
  shows "io_ok m'"
proof (cases "0 \<le> fd \<and> fd < int (length (m_fd_contexts m)) \<and>
    events (m_fd_contexts m ! nat fd) AND event \<noteq> 0 \<and> ok")
  case True
  then show ?thesis using cancelEvent_eq [OF assms(1,2), of fd] assms(3) by auto
next
  case False
  then have "m' = m" using assms(3) by (auto simp: cancelEvent_def Let_def split: if_splits)
  then show ?thesis using assms(1) by simp
qed

lemma handle_event_ok:
  assumes "io_ok m" and "i < length (m_fd_contexts m)"
    and "real_event_of reported (events (m_fd_contexts m ! i)) AND NOT (events (m_fd_contexts m ! i)) = 0"
    and "handle_event ok (Some i) reported m = Inr m'"
  shows "io_ok m'"
proof (cases "ok \<and> real_event_of reported (events (m_fd_contexts m ! i)) \<noteq> 0")
  case True
  then show ?thesis using handle_event_eq [OF assms(1,2) refl refl assms(3)] assms(4) by auto
next
  case False
  then have "m' = m" using assms(4) by (auto simp: handle_event_def Let_def split: if_splits)
  then show ?thesis using assms(1) by simp
qed

text \<open>\<^verbatim>\<open>cancelAll\<close> on a descriptor with a reader and a writer wakes the reader only: the writer stays
  recorded in the context although the kernel does not watch the descriptor any more, so nothing
  will ever wake it.\<close>

lemma cancelAll_strands_writer:
  assumes "io_ok m" and "0 \<le> fd" and "fd < int (length (m_fd_contexts m))"
    and "events (m_fd_contexts m ! nat fd) = Event_READ OR Event_WRITE"
  shows "\<exists>m'. cancelAll True fd m = Inr (True, m') \<and> epoll m' (nat fd) = None \<and>
     events (m_fd_contexts m' ! nat fd) = Event_WRITE \<and>
     fc_write (m_fd_contexts m' ! nat fd) = fc_write (m_fd_contexts m ! nat fd) \<and>
     sched m' = submit (waiter (fc_read (m_fd_contexts m ! nat fd))) (- 1) (sched m) \<and> \<not> io_ok m'"
proof -
  let ?i = "nat fd" and ?c = "m_fd_contexts m ! nat fd"
  let ?m = "epoll_ctl EPOLL_CTL_DEL ?i 0 m"
  have i: "?i < length (m_fd_contexts m)" using assms(2,3) by simp
  have e: "wake ?i 1 ?m = Inr ((set_ctx ?i (cleared 1 ?c) ?m)
     \<lparr>sched := submit (waiter (fc_read ?c)) (- 1) (sched m),
      m_pending_event_count := m_pending_event_count m - 1\<rparr>)" (is "_ = Inr ?m'")
    using wake_eq [of ?i ?m 1] io_okD(1) [OF assms(1) i] assms(4) by (simp add: event_ctx_def)
  then have r: "cancelAll True fd m = Inr (True, ?m')"
    using assms(2,3,4) by (simp add: cancelAll_def Let_def)
  have c': "m_fd_contexts ?m' ! ?i = cleared 1 ?c" using i by simp
  have ev: "events (cleared 1 ?c) = 4" "fc_write (cleared 1 ?c) = fc_write ?c"
    using assms(4) by (simp_all add: cleared_def putContext_def)
  have ep: "epoll ?m' ?i = None" by simp
  have "\<not> io_ok ?m'"
  proof
    assume "io_ok ?m'"
    then have "epoll ?m' ?i = interest (m_fd_contexts ?m' ! ?i)" using io_okD(2) i by fastforce
    then show False using ep c' ev by (simp add: interest_def)
  qed
  then show ?thesis using r ep c' ev by auto
qed

text \<open>The events registered for a descriptor.\<close>

definition registered :: "int \<Rightarrow> IOManager \<Rightarrow> u32" where
  "registered fd m =
     (if 0 \<le> fd \<and> fd < int (length (m_fd_contexts m)) then events (m_fd_contexts m ! nat fd) else 0)"

lemma cancelAll_ok_iff:
  assumes "io_ok m" and "cancelAll ok fd m = Inr (b, m')"
  shows "io_ok m' \<longleftrightarrow> \<not> (ok \<and> registered fd m = Event_READ OR Event_WRITE)"
proof (cases "ok \<and> registered fd m \<noteq> 0")
  case False
  then have "m' = m"
    using assms(2) by (auto simp: cancelAll_def registered_def Let_def split: if_splits)
  then show ?thesis using False assms(1) by auto
next
  case True
  let ?i = "nat fd" and ?c = "m_fd_contexts m ! nat fd"
  let ?m = "epoll_ctl EPOLL_CTL_DEL ?i 0 m"
  have fd: "0 \<le> fd" "fd < int (length (m_fd_contexts m))" "registered fd m = events ?c" "ok"
    using True by (auto simp: registered_def split: if_splits)
  then have i: "?i < length (m_fd_contexts m)" by simp
  have c: "ctx_ok ?i ?c" using io_okD(1) [OF assms(1) i] .
  then consider "events ?c = 5" | e where "e = 1 \<or> e = 4" "events ?c = e"
    using True fd(3) by (auto simp: ctx_ok_def)
  then show ?thesis
  proof cases
    case 1
    then show ?thesis using cancelAll_strands_writer [OF assms(1) fd(1,2)] assms(2) fd(3,4) by auto
  next
    case (2 e)
    then have one: "events ?c AND e \<noteq> 0" "events ?c AND NOT e = 0" "events ?c \<noteq> 5" by auto
    have "wake ?i e ?m = Inr ((set_ctx ?i (cleared e ?c) ?m)
       \<lparr>sched := submit (waiter (event_ctx e ?c)) (- 1) (sched m),
        m_pending_event_count := m_pending_event_count m - 1\<rparr>)" (is "_ = Inr ?m'")
      using wake_eq [of ?i ?m e] c 2(1) one(1) by simp
    moreover have "cancelAll ok fd m = rbind (wake ?i e ?m) (\<lambda>m. Inr (True, m))"
      using 2 fd by (auto simp: cancelAll_def Let_def)
    ultimately have "m' = ?m'" using assms(2) by simp
    moreover have "io_ok ?m'" by (rule io_ok_cleared [OF assms(1) i 2(1) one(1)]) (use one(2) in auto)
    ultimately show ?thesis using one(3) fd(3) by simp
  qed
qed

lemma delAll_ok_iff:
  assumes "io_ok m" and "delAll ok fd m = Inr (b, m')"
  shows "io_ok m' \<longleftrightarrow> \<not> (ok \<and> registered fd m \<noteq> 0)"
proof (cases "ok \<and> registered fd m \<noteq> 0")
  case False
  then have "m' = m" using assms(2) by (auto simp: delAll_def registered_def Let_def split: if_splits)
  then show ?thesis using False assms(1) by auto
next
  case True
  then have fd: "0 \<le> fd" "fd < int (length (m_fd_contexts m))" "events (m_fd_contexts m ! nat fd) \<noteq> 0" "ok"
    by (auto simp: registered_def split: if_splits)
  then have m': "epoll m' (nat fd) = None" "nat fd < length (m_fd_contexts m')"
      "events (m_fd_contexts m' ! nat fd) = events (m_fd_contexts m ! nat fd)"
    using assms(2) by (auto simp: delAll_def Let_def split: if_splits)
  have "\<not> io_ok m'"
  proof
    assume "io_ok m'"
    then have "epoll m' (nat fd) = interest (m_fd_contexts m' ! nat fd)" using io_okD(2) m'(2) by fastforce
    then show False using m' fd(3) by (simp add: interest_def)
  qed
  then show ?thesis using True by simp
qed

section \<open>Reachable states\<close>

text \<open>The operations, in any order, with any outcome of the system calls, in threads that have a scheduler; an
  event that is handled concerns registered events only.  Left out are the calls of \<^verbatim>\<open>cancelAll\<close> for a descriptor
  with a reader and a writer and those of \<^verbatim>\<open>delAll\<close> for a descriptor with any event: the first lose the
  writer, the second leave the mask of events as it is.\<close>

inductive io_reach :: "IOManager \<Rightarrow> bool" where
  ir_new: "IOManager_new n timers = Inr m \<Longrightarrow> io_reach m"
| ir_add: "io_reach m \<Longrightarrow> event \<in> {Event_READ, Event_WRITE} \<Longrightarrow>
    addEvent ok True cur fd event cb m = Inr (r, m') \<Longrightarrow> io_reach m'"
| ir_del: "io_reach m \<Longrightarrow> event \<in> {Event_READ, Event_WRITE} \<Longrightarrow>
    delEvent ok fd event m = Inr (b, m') \<Longrightarrow> io_reach m'"
| ir_cancel: "io_reach m \<Longrightarrow> event \<in> {Event_READ, Event_WRITE} \<Longrightarrow>
    cancelEvent ok fd event m = Inr (b, m') \<Longrightarrow> io_reach m'"
| ir_cancelAll: "io_reach m \<Longrightarrow> \<not> (ok \<and> registered fd m = Event_READ OR Event_WRITE) \<Longrightarrow>
    cancelAll ok fd m = Inr (b, m') \<Longrightarrow> io_reach m'"
| ir_delAll: "io_reach m \<Longrightarrow> \<not> (ok \<and> registered fd m \<noteq> 0) \<Longrightarrow> delAll ok fd m = Inr (b, m') \<Longrightarrow> io_reach m'"
| ir_handle: "io_reach m \<Longrightarrow> i < length (m_fd_contexts m) \<Longrightarrow>
    real_event_of reported (events (m_fd_contexts m ! i)) AND NOT (events (m_fd_contexts m ! i)) = 0 \<Longrightarrow>
    handle_event ok (Some i) reported m = Inr m' \<Longrightarrow> io_reach m'"
| ir_other: "io_reach m \<Longrightarrow> io_reach (m\<lparr>sched := s, m_time_manager := timers, tickled := k\<rparr>)"

lemma io_ok_new:
  assumes "IOManager_new n timers = Inr m"
  shows "io_ok m"
proof -
  have m: "m_fd_contexts m = contextResize 32 []" "epoll m = (\<lambda>_. None)" "m_pending_event_count m = 0"
    using assms by (auto simp: IOManager_new_def rbind_eq_Inr)
  have "io_ok (m\<lparr>m_fd_contexts := []\<rparr>)" using m by (simp add: io_ok_def)
  from io_ok_resize [OF this, of 32] show ?thesis using m(1) by (simp add: io_ok_def cong: if_cong)
qed

lemma io_reach_ok: "io_reach m \<Longrightarrow> io_ok m"
proof (induction rule: io_reach.induct)
  case (ir_other m s timers k)
  then show ?case by (simp add: io_ok_def cong: if_cong)
next
  case (ir_cancelAll m ok fd b m')
  then show ?case using cancelAll_ok_iff by blast
next
  case (ir_delAll m ok fd b m')
  then show ?case using delAll_ok_iff by blast
qed (auto intro: io_ok_new addEvent_ok delEvent_ok cancelEvent_ok handle_event_ok)

section \<open>What the I/O manager guarantees\<close>

text \<open>C4: whatever sequence of additions, removals, cancellations and reported events, and whatever
  system calls fail, every context knows exactly the waiters of its registered events, the kernel's
  interest list is the one the contexts say, and the counter of pending events counts them.  This includes \<^verbatim>\<open>cancelAll\<close> for
  a descriptor with at most one event.  The agreement is lost by exactly two kinds of calls: a successful \<^verbatim>\<open>cancelAll\<close> for
  a descriptor with a reader and a writer, and a successful \<^verbatim>\<open>delAll\<close> for a descriptor with any event.\<close>

theorem io_invariant:
  assumes "io_reach m"
  shows "(\<forall>i < length (m_fd_contexts m). ctx_ok i (m_fd_contexts m ! i)) \<and>
     epoll m = (\<lambda>i. if i < length (m_fd_contexts m) then interest (m_fd_contexts m ! i) else None) \<and>
     m_pending_event_count m = word_of_nat (sum_list (map cnt (m_fd_contexts m))) \<and>
     (\<forall>ok fd b m'. cancelAll ok fd m = Inr (b, m') \<longrightarrow>
       (io_ok m' \<longleftrightarrow> \<not> (ok \<and> registered fd m = Event_READ OR Event_WRITE))) \<and>
     (\<forall>ok fd b m'. delAll ok fd m = Inr (b, m') \<longrightarrow> (io_ok m' \<longleftrightarrow> \<not> (ok \<and> registered fd m \<noteq> 0)))"
proof -
  have ok: "io_ok m" using assms by (rule io_reach_ok)
  show ?thesis using io_okD [OF ok] cancelAll_ok_iff [OF ok] delAll_ok_iff [OF ok] by blast
qed

theorem io_invariant_witness:
  "\<exists>m m'. IOManager_new 1 (TimerManager_new (\<lambda>_. Timer_at 0)) = Inr m \<and>
     addEvent True True (Some 3) 40 Event_READ None m = Inr (0, m') \<and>
     length (m_fd_contexts m') = 60 \<and> epoll m' 40 = Some (EPOLLET OR Event_READ)"
proof -
  obtain m where m: "IOManager_new 1 (TimerManager_new (\<lambda>_. Timer_at 0)) = Inr m"
    by (simp add: IOManager_new_def start_def Scheduler_new_def)
  then have cs: "m_fd_contexts m = contextResize 32 []" by (auto simp: IOManager_new_def rbind_eq_Inr)
  have g: "m_fd_contexts (grow 40 m) = contextResize 60 (contextResize 32 [])"
    using cs by (simp add: grow_def length_contextResize)
  have c40: "m_fd_contexts (grow 40 m) ! 40 = FdContext_new 40"
    unfolding g by (simp add: nth_contextResize length_contextResize)
  have len: "length (m_fd_contexts (grow 40 m)) = 60" unfolding g by (simp add: length_contextResize)
  obtain m' where m': "addEvent True True (Some 3) 40 Event_READ None m = Inr (0, m')"
    "m_fd_contexts m' = (m_fd_contexts (grow 40 m))[40 := watched Event_READ (new_waiter (Some 3) None) (FdContext_new 40)]"
    using addEvent_eq [OF io_ok_new [OF m], of Event_READ 40 "Some 3" None] c40 len
    by (auto simp: FdContext_new_def)
  have "io_reach m'" using ir_add [OF ir_new [OF m] _ m'(1)] by simp
  from io_invariant [OF this] have "epoll m' 40 = interest (watched Event_READ (new_waiter (Some 3) None) (FdContext_new 40))"
    using m'(2) len by simp
  then have "epoll m' 40 = Some (EPOLLET OR Event_READ)"
    by (simp add: interest_def watched_def putContext_def FdContext_new_def)
  then show ?thesis using m m' len by auto
qed

text \<open>C18: a waiter added for an event is put into the scheduler's queue when the event is reported,
  exactly once, and everything is as before it was added.\<close>

theorem event_wakes_its_waiter:
  assumes "io_ok m" and "event \<in> {Event_READ, Event_WRITE}" and "cb \<noteq> None \<or> cur \<noteq> None"
    and "addEvent True True cur fd event cb m = Inr (r, m1)"
  shows "\<exists>m2. handle_event True (Some (nat fd)) event m1 = Inr m2 \<and> io_ok m2 \<and>
     m_task (sched m2) = m_task (sched m1) @
       [Task_new (if cb \<noteq> None then OfCb cb else OfFiber cur) (- 1)] \<and>
     m_fd_contexts m2 = m_fd_contexts (grow fd m)"
proof -
  have ev: "event = 1 \<or> event = 4" using assms(2) by auto
  have fd: "0 \<le> fd" "nat fd < length (m_fd_contexts (grow fd m))"
    "events (m_fd_contexts (grow fd m) ! nat fd) AND event = 0"
    using assms(4) by (auto simp: addEvent_def Let_def split: if_splits)
  let ?i = "nat fd" and ?c = "m_fd_contexts (grow fd m) ! nat fd"
  let ?c1 = "watched event (new_waiter cur cb) ?c"
  have m1: "io_ok m1" "m_fd_contexts m1 = (m_fd_contexts (grow fd m))[?i := ?c1]"
    using addEvent_eq [OF assms(1) ev fd, of cur cb] assms(4) by auto
  have c: "ctx_ok ?i ?c" using io_okD(1) [OF io_ok_grow [OF assms(1)] fd(2)] .
  have c1: "m_fd_contexts m1 ! ?i = ?c1" "?i < length (m_fd_contexts m1)" using m1(2) fd(2) by auto
  have r: "real_event_of event (events ?c1) = event"
    using ev by (auto simp: real_event_of_def Let_def)
  have sub: "event AND NOT (events ?c1) = 0"
    using ev c fd(3) by (auto simp: watched_def putContext_def ctx_ok_def)
  obtain m2 where m2: "handle_event True (Some ?i) event m1 = Inr m2" "io_ok m2"
    "sched m2 = wakeups event ?c1 (sched m1)" "m_fd_contexts m2 = (m_fd_contexts m1)[?i := cleared_all event ?c1]"
    using handle_event_eq [OF m1(1) c1(2) c1(1) [symmetric] refl, of event] r sub ev c1(1) by auto
  have "cleared_all event ?c1 = ?c"
    using ev c fd(3) by (auto simp: cleared_all_def cleared_def watched_def putContext_def Let_def ctx_ok_def waiting_def)
  moreover have "m_task (wakeups event ?c1 (sched m1)) =
      m_task (sched m1) @ [Task_new (if cb \<noteq> None then OfCb cb else OfFiber cur) (- 1)]"
    using ev assms(3)
    by (auto simp: wakeups_def watched_def putContext_def new_waiter_def waiter_def no_context_def
        submit_task Task_bool_def)
  ultimately show ?thesis using m2 m1(2) by simp
qed

theorem event_wakes_its_waiter_witness:
  "\<exists>m m1 m2. IOManager_new 1 (TimerManager_new (\<lambda>_. Timer_at 0)) = Inr m \<and>
     addEvent True True (Some 3) 5 Event_WRITE None m = Inr (0, m1) \<and>
     handle_event True (Some 5) Event_WRITE m1 = Inr m2 \<and>
     m_task (sched m2) = m_task (sched m1) @ [Task_new (OfFiber (Some 3)) (- 1)]"
proof -
  obtain m where m: "IOManager_new 1 (TimerManager_new (\<lambda>_. Timer_at 0)) = Inr m"
    by (simp add: IOManager_new_def start_def Scheduler_new_def)
  then have cs: "m_fd_contexts m = contextResize 32 []" by (auto simp: IOManager_new_def rbind_eq_Inr)
  have g: "grow 5 m = m" using cs by (simp add: grow_def length_contextResize)
  have c5: "m_fd_contexts m ! 5 = FdContext_new 5" and len: "length (m_fd_contexts m) = 32"
    using cs by (simp_all add: nth_contextResize length_contextResize)
  obtain m1 where m1: "addEvent True True (Some 3) 5 Event_WRITE None m = Inr (0, m1)"
    using addEvent_eq [OF io_ok_new [OF m], of Event_WRITE 5 "Some 3" None] g c5 len
    by (auto simp: FdContext_new_def)
  show ?thesis
    using event_wakes_its_waiter [OF io_ok_new [OF m] _ _ m1] m m1 by auto
qed

text \<open>A reader and a writer, cancelled together.\<close>

lemma cancelAll_strands_writer_example:
  "\<exists>m m'. events (m_fd_contexts m ! 0) = Event_READ OR Event_WRITE \<and>
     cancelAll True 0 m = Inr (True, m') \<and> events (m_fd_contexts m' ! 0) = Event_WRITE"
proof -
  let ?ec = "\<lambda>p. \<lparr>ec_scheduler = True, ec_fiber = Some p, ec_cb = None\<rparr>"
  let ?c = "\<lparr>fc_read = ?ec 1, fc_write = ?ec 2, fc_fd = 0, events = 5\<rparr>"
  let ?m = "\<lparr>sched = Scheduler_new 1, m_fd_contexts = [?c],
    epoll = (\<lambda>_. None)(0 := Some (EPOLLET OR 5)), m_pending_event_count = 2,
    m_time_manager = TimerManager_new (\<lambda>_. Timer_at 0), tickled = 0\<rparr>"
  have "io_ok ?m" by (auto simp: io_ok_def ctx_ok_def waiting_def cnt_def interest_def fun_eq_iff)
  from cancelAll_strands_writer [OF this, of 0] show ?thesis by - (rule exI [of _ ?m], auto)
qed

text \<open>After a successful \<^verbatim>\<open>delAll\<close> the events still count as registered, so adding one of them
  again fails its assertion.\<close>

lemma delAll_blocks_addEvent:
  assumes "0 \<le> fd" and "fd < int (length (m_fd_contexts m))"
    and "events (m_fd_contexts m ! nat fd) AND event \<noteq> 0" and "event \<in> {Event_READ, Event_WRITE}"
  shows "\<exists>m'. delAll True fd m = Inr (True, m') \<and> epoll m' (nat fd) = None \<and>
     addEvent ok self cur fd event cb m' = Inl IoAssert"
proof -
  let ?c = "m_fd_contexts m ! nat fd"
  have ne: "events ?c \<noteq> 0" using assms(3) by auto
  obtain m' where m': "delAll True fd m = Inr (True, m')" "epoll m' (nat fd) = None"
    "length (m_fd_contexts m') = length (m_fd_contexts m)" "events (m_fd_contexts m' ! nat fd) = events ?c"
  proof (rule that)
    let ?c1 = "if events ?c AND 1 \<noteq> 0 then ?c\<lparr>fc_read := resetContext (fc_read ?c)\<rparr> else ?c"
    let ?c2 = "if events ?c AND 4 \<noteq> 0 then ?c1\<lparr>fc_write := resetContext (fc_write ?c1)\<rparr> else ?c1"
    let ?n = "(if events ?c AND 1 \<noteq> 0 then 1 else 0) + (if events ?c AND 4 \<noteq> 0 then 1 else 0) :: u64"
    let ?m' = "set_ctx (nat fd) ?c2 ((epoll_ctl EPOLL_CTL_DEL (nat fd) 0 m)
      \<lparr>m_pending_event_count := m_pending_event_count m - ?n\<rparr>)"
    show "delAll True fd m = Inr (True, ?m')"
      using assms(1,2) ne by (simp add: delAll_def Let_def epoll_ctl_def)
    show "epoll ?m' (nat fd) = None" "length (m_fd_contexts ?m') = length (m_fd_contexts m)"
      "events (m_fd_contexts ?m' ! nat fd) = events ?c" using assms(1,2) by simp_all
  qed
  then show ?thesis using assms(1,2,3) by (simp add: addEvent_def grow_def Let_def)
qed

lemma delAll_blocks_addEvent_example:
  "\<exists>m m'. delAll True 0 m = Inr (True, m') \<and> addEvent True True (Some 9) 0 Event_READ None m' = Inl IoAssert"
proof -
  let ?c = "\<lparr>fc_read = no_context\<lparr>ec_scheduler := True, ec_fiber := Some 1\<rparr>, fc_write = no_context,
    fc_fd = 0, events = 1\<rparr>"
  let ?m = "\<lparr>sched = Scheduler_new 1, m_fd_contexts = [?c], epoll = (\<lambda>_. None)(0 := Some (EPOLLET OR 1)),
    m_pending_event_count = 1, m_time_manager = TimerManager_new (\<lambda>_. Timer_at 0), tickled = 0\<rparr>"
  show ?thesis using delAll_blocks_addEvent [of 0 ?m Event_READ True True "Some 9" None]
    by - (rule exI [of _ ?m], auto)
qed

end
