(* ===== verification/Hooks.thy ===== *)
theory Hooks
  imports IO_Manager "HOL-Library.Signed_Division"
begin

text \<open>
  The descriptors the framework knows (\<^verbatim>\<open>fdmanager.cpp\<close>) and the hooked system calls
  (\<^verbatim>\<open>hook.cpp\<close>), which turn a blocking call of a fiber into a non-blocking one with a wait for the
  event or for a timeout.  The kernel is explicit: whether a descriptor is a socket (\<open>None\<close> when
  \<^verbatim>\<open>fstat\<close> fails) and its status flags.  What happens while a call is repeated is an argument, the list
  of attempts: what the system call returns and, if it would block, how the wait for the event ends.
  The operations the call performs on the way are recorded in order.
\<close>

section \<open>Descriptors\<close>

definition O_NONBLOCK :: u32 where "O_NONBLOCK = 0x800"

record FdCtx =
  m_is_init :: bool
  m_is_socket :: bool
  m_sys_nonblock :: bool
  m_user_nonblock :: bool
  m_is_closed :: bool
  m_fd :: int
  m_recv_timeout :: u64
  m_send_timeout :: u64

record kernel =
  is_sock :: "int \<Rightarrow> bool option"
  status_flags :: "int \<Rightarrow> u32"

definition FdCtx_init :: "FdCtx \<Rightarrow> kernel \<Rightarrow> bool \<times> FdCtx \<times> kernel" where
  "FdCtx_init c k =
     (if m_is_init c then (True, c, k)
      else
        let c = c\<lparr>m_recv_timeout := - 1, m_send_timeout := - 1\<rparr>;
            c = (case is_sock k (m_fd c) of
                   None \<Rightarrow> c\<lparr>m_is_init := False, m_is_socket := False\<rparr>
                 | Some s \<Rightarrow> c\<lparr>m_is_init := True, m_is_socket := s\<rparr>);
            (c, k) =
              (if m_is_socket c then
                 let flags = status_flags k (m_fd c) in
                 if flags AND O_NONBLOCK = 0 then
                   (c\<lparr>m_sys_nonblock := True\<rparr>,
                    k\<lparr>status_flags := (status_flags k)(m_fd c := flags OR O_NONBLOCK)\<rparr>)
                 else (c\<lparr>m_sys_nonblock := False\<rparr>, k)
               else (c, k));
            c = c\<lparr>m_user_nonblock := False, m_is_closed := False\<rparr>
        in (m_is_init c, c, k))"

definition FdCtx_new :: "int \<Rightarrow> kernel \<Rightarrow> FdCtx \<times> kernel" where
  "FdCtx_new fd k =
     snd (FdCtx_init
       \<lparr>m_is_init = False, m_is_socket = False, m_sys_nonblock = False, m_user_nonblock = False,
        m_is_closed = False, m_fd = fd, m_recv_timeout = - 1, m_send_timeout = - 1\<rparr> k)"

datatype timeout_type = SO_RCVTIMEO | SO_SNDTIMEO

definition setTimeout :: "timeout_type \<Rightarrow> u64 \<Rightarrow> FdCtx \<Rightarrow> FdCtx" where
  "setTimeout type timeout c =
     (if type = SO_RCVTIMEO then c\<lparr>m_recv_timeout := timeout\<rparr> else c\<lparr>m_send_timeout := timeout\<rparr>)"

definition getTimeout :: "timeout_type \<Rightarrow> FdCtx \<Rightarrow> u64" where
  "getTimeout type c = (if type = SO_RCVTIMEO then m_recv_timeout c else m_send_timeout c)"

definition show_flag :: "bool \<Rightarrow> string" where
  "show_flag b = (if b then ''1'' else ''0'')"

definition show_int :: "int \<Rightarrow> string" where
  "show_int i = (if i < 0 then ''-'' @ dec (nat (- i)) else dec (nat i))"

definition FdCtx_toString :: "FdCtx \<Rightarrow> string" where
  "FdCtx_toString c =
     ''[fd='' @ show_int (m_fd c) @ '' ,init='' @ show_flag (m_is_init c) @ '' ,isSock='' @ show_flag (m_is_socket c) @
     '' ,isClosed='' @ show_flag (m_is_closed c) @ '' ,sysNonblock='' @ show_flag (m_sys_nonblock c) @
     '' ,userNonblock='' @ show_flag (m_user_nonblock c) @ '' ,recvTimeout='' @ dec (unat (m_recv_timeout c)) @
     '' ,sendTimeout='' @ dec (unat (m_send_timeout c)) @ '']''"

section \<open>The manager of descriptors\<close>

record hooks =
  t_enable_hook :: bool
  m_container :: "FdCtx option list"
  kern :: kernel

datatype hook_error = HookOutOfRange | HookIo io_error

definition FdManager_new :: "FdCtx option list" where
  "FdManager_new = replicate 64 None"

definition list_resize :: "nat \<Rightarrow> 'a option list \<Rightarrow> 'a option list" where
  "list_resize n xs = take n xs @ replicate (n - length xs) None"

definition FdManager_get :: "int \<Rightarrow> bool \<Rightarrow> hooks \<Rightarrow> FdCtx option \<times> hooks" where
  "FdManager_get fd auto_create h =
     (if fd < 0 then (None, h)
      else
        let inside = fd < int (length (m_container h)) in
        if \<not> inside \<and> \<not> auto_create then (None, h)
        else if inside \<and> (m_container h ! nat fd \<noteq> None \<or> \<not> auto_create) then (m_container h ! nat fd, h)
        else
          let (ctx, k) = FdCtx_new fd (kern h);
              cs = (if inside then m_container h else list_resize (nat fd * 3 div 2) (m_container h))
          in (Some ctx, h\<lparr>kern := k, m_container := cs[nat fd := Some ctx]\<rparr>))"

text \<open>A negative descriptor indexes outside the vector.\<close>

definition FdManager_del :: "int \<Rightarrow> hooks \<Rightarrow> hook_error + hooks" where
  "FdManager_del fd h =
     (if fd \<ge> int (length (m_container h)) then Inr h
      else if fd < 0 then Inl HookOutOfRange
      else Inr (h\<lparr>m_container := (m_container h)[nat fd := None]\<rparr>))"

text \<open>The container holds pointers: a change of a context changes the entry.\<close>

definition put_ctx :: "int \<Rightarrow> FdCtx \<Rightarrow> hooks \<Rightarrow> hooks" where
  "put_ctx fd c h = h\<lparr>m_container := (m_container h)[nat fd := Some c]\<rparr>"

definition EnableHook :: "hooks \<Rightarrow> hooks" where
  "EnableHook h = h\<lparr>t_enable_hook := True\<rparr>"

definition SetHookEnable :: "bool \<Rightarrow> hooks \<Rightarrow> hooks" where
  "SetHookEnable b h = h\<lparr>t_enable_hook := b\<rparr>"

section \<open>Reading and writing\<close>

text \<open>The result of a system call: a value, or -1 with an error number.\<close>

datatype call_result = Returned int | Failed nat

definition EINTR :: nat where "EINTR = 4"
definition EAGAIN :: nat where "EAGAIN = 11"
definition EBADF :: nat where "EBADF = 9"
definition ETIMEDOUT :: nat where "ETIMEDOUT = 110"
definition EINPROGRESS :: nat where "EINPROGRESS = 115"

text \<open>How a wait ends: the event cannot be registered (with the error number \<^verbatim>\<open>epoll_ctl\<close> leaves), the fiber is
  woken, or the timer has expired (its callback has set \<^verbatim>\<open>cancelled\<close> and cancelled the event).\<close>

datatype wait = AddFails nat | Woken | Expired

datatype io_op = Call | ArmTimer u64 | DisarmTimer | AddEvent u32 | Yield

text \<open>\<^verbatim>\<open>retry\<close>: the result is \<open>None\<close> while the attempts are used up.  The timer exists when a timeout
  is set, that is, not the largest \<^verbatim>\<open>uint64_t\<close>.\<close>

fun do_io_retry ::
    "u32 \<Rightarrow> u64 \<Rightarrow> (call_result \<times> wait) list \<Rightarrow> io_op list \<Rightarrow> call_result option \<times> io_op list" where
  "do_io_retry event timeout [] ops = (None, ops)"
| "do_io_retry event timeout ((c, w) # env) ops =
     (let ops = ops @ [Call] in
      case c of
        Returned n \<Rightarrow> (Some (Returned n), ops)
      | Failed e \<Rightarrow>
          if e = EINTR then do_io_retry event timeout env ops
          else if e = EAGAIN then
            let armed = timeout \<noteq> - 1;
                ops = (if armed then ops @ [ArmTimer timeout] else ops);
                ops = ops @ [AddEvent event];
                disarm = (if armed then [DisarmTimer] else [])
            in
            (case w of
               AddFails err \<Rightarrow> (Some (Failed err), ops @ disarm)
             | _ \<Rightarrow>
                 let ops = ops @ [Yield] @ disarm in
                 if armed \<and> w = Expired then (Some (Failed ETIMEDOUT), ops)
                 else do_io_retry event timeout env ops)
          else (Some (Failed e), ops))"

text \<open>A call that is not hooked is made once.\<close>

definition plain_call :: "(call_result \<times> wait) list \<Rightarrow> call_result option \<times> io_op list" where
  "plain_call env = (case env of [] \<Rightarrow> (None, []) | (c, w) # _ \<Rightarrow> (Some c, [Call]))"

definition do_io ::
    "int \<Rightarrow> u32 \<Rightarrow> timeout_type \<Rightarrow> (call_result \<times> wait) list \<Rightarrow> hooks \<Rightarrow> call_result option \<times> io_op list" where
  "do_io fd event timeout_so env h =
     (if \<not> t_enable_hook h then plain_call env
      else
        case fst (FdManager_get fd False h) of
          None \<Rightarrow> plain_call env
        | Some c \<Rightarrow>
            if m_is_closed c then (Some (Failed EBADF), [])
            else if \<not> m_is_socket c \<or> m_user_nonblock c then plain_call env
            else do_io_retry event (getTimeout timeout_so c) env [])"

text \<open>The hooked calls by the function they make in the end; \<^verbatim>\<open>writev\<close> makes \<^verbatim>\<open>readv\<close>.\<close>

datatype sys_fun =
    f_read | f_readv | f_recv | f_recvfrom | f_recvmsg | f_write | f_writev | f_send | f_sendto | f_sendmsg | f_accept

definition hooked :: "sys_fun \<Rightarrow> sys_fun \<times> u32 \<times> timeout_type" where
  "hooked f =
     (case f of
        f_read \<Rightarrow> (f_read, Event_READ, SO_RCVTIMEO)
      | f_readv \<Rightarrow> (f_readv, Event_READ, SO_RCVTIMEO)
      | f_recv \<Rightarrow> (f_recv, Event_READ, SO_RCVTIMEO)
      | f_recvfrom \<Rightarrow> (f_recvfrom, Event_READ, SO_RCVTIMEO)
      | f_recvmsg \<Rightarrow> (f_recvmsg, Event_READ, SO_RCVTIMEO)
      | f_write \<Rightarrow> (f_write, Event_WRITE, SO_SNDTIMEO)
      | f_writev \<Rightarrow> (f_readv, Event_WRITE, SO_SNDTIMEO)
      | f_send \<Rightarrow> (f_send, Event_WRITE, SO_SNDTIMEO)
      | f_sendto \<Rightarrow> (f_sendto, Event_WRITE, SO_SNDTIMEO)
      | f_sendmsg \<Rightarrow> (f_sendmsg, Event_WRITE, SO_SNDTIMEO)
      | f_accept \<Rightarrow> (f_accept, Event_READ, SO_RCVTIMEO))"

text \<open>A hooked transfer; \<open>env\<close> says what each function would deliver.\<close>

definition hooked_io ::
    "sys_fun \<Rightarrow> int \<Rightarrow> (sys_fun \<Rightarrow> (call_result \<times> wait) list) \<Rightarrow> hooks \<Rightarrow> call_result option \<times> io_op list" where
  "hooked_io f fd env h = (let (g, event, so) = hooked f in do_io fd event so (env g) h)"

section \<open>Sleeping\<close>

text \<open>A hooked sleep arms a timer that resubmits the fiber, and yields.  The products are 32-bit
  and 64-bit ones; \<open>None\<close> is a call of the original function.\<close>

definition hook_sleep :: "u32 \<Rightarrow> hooks \<Rightarrow> io_op list option" where
  "hook_sleep seconds h = (if \<not> t_enable_hook h then None else Some [ArmTimer (ucast (seconds * 1000)), Yield])"

definition hook_usleep :: "u32 \<Rightarrow> hooks \<Rightarrow> io_op list option" where
  "hook_usleep seconds h = (if \<not> t_enable_hook h then None else Some [ArmTimer (ucast (seconds * 1000)), Yield])"

definition hook_nanosleep :: "u64 \<Rightarrow> u64 \<Rightarrow> hooks \<Rightarrow> io_op list option" where
  "hook_nanosleep tv_sec tv_nsec h =
     (if \<not> t_enable_hook h then None
      else Some [ArmTimer (tv_sec * 1000 + of_int (sint tv_nsec sdiv 1000 sdiv 1000)), Yield])"

section \<open>Closing and controlling descriptors\<close>

text \<open>\<open>ok\<close> and \<open>ok'\<close> say whether the calls of \<^verbatim>\<open>epoll_ctl\<close> succeed; a thread outside an I/O manager has
  \<open>None\<close>.  At the end \<^verbatim>\<open>close_f\<close> is called.\<close>

definition hook_close ::
    "bool \<Rightarrow> bool \<Rightarrow> int \<Rightarrow> IOManager option \<Rightarrow> hooks \<Rightarrow> hook_error + IOManager option \<times> hooks" where
  "hook_close ok ok' fd iom h =
     (if \<not> t_enable_hook h then Inr (iom, h)
      else
        case fst (FdManager_get fd False h) of
          None \<Rightarrow> Inr (iom, h)
        | Some c \<Rightarrow>
            rbind (case iom of
                     None \<Rightarrow> Inr None
                   | Some m \<Rightarrow>
                       (case rbind (cancelAll ok fd m) (\<lambda>(b, m). delAll ok' fd m) of
                          Inl e \<Rightarrow> Inl (HookIo e)
                        | Inr (b, m) \<Rightarrow> Inr (Some m))) (\<lambda>iom.
            rbind (FdManager_del fd h) (\<lambda>h. Inr (iom, h))))"

datatype fcntl_cmd = F_SETFL u32 | F_GETFL | F_other int

text \<open>\<^verbatim>\<open>fcntl_f\<close>: setting and getting the status flags; \<open>None\<close> stands for the result of another
  command, which is passed through.\<close>

definition fcntl_f :: "int \<Rightarrow> fcntl_cmd \<Rightarrow> kernel \<Rightarrow> u32 option \<times> kernel" where
  "fcntl_f fd cmd k =
     (case cmd of
        F_SETFL flags \<Rightarrow> (Some 0, k\<lparr>status_flags := (status_flags k)(fd := flags)\<rparr>)
      | F_GETFL \<Rightarrow> (Some (status_flags k fd), k)
      | F_other c \<Rightarrow> (None, k))"

definition hook_fcntl :: "int \<Rightarrow> fcntl_cmd \<Rightarrow> hooks \<Rightarrow> u32 option \<times> hooks" where
  "hook_fcntl fd cmd h =
     (let ctx = fst (FdManager_get fd False h);
          forward = (\<lambda>cmd h. let (r, k) = fcntl_f fd cmd (kern h) in (r, h\<lparr>kern := k\<rparr>))
      in
      case cmd of
        F_SETFL arg \<Rightarrow>
          (case ctx of
             None \<Rightarrow> forward cmd h
           | Some c \<Rightarrow>
               if m_is_closed c \<or> \<not> m_is_socket c then forward cmd h
               else
                 let c = c\<lparr>m_user_nonblock := (arg AND O_NONBLOCK \<noteq> 0)\<rparr>;
                     h = put_ctx fd c h;
                     arg = (if m_sys_nonblock c then arg OR O_NONBLOCK else arg AND NOT O_NONBLOCK)
                 in forward (F_SETFL arg) h)
      | F_GETFL \<Rightarrow>
          (let (arg, h) = forward cmd h in
           case ctx of
             None \<Rightarrow> (arg, h)
           | Some c \<Rightarrow>
               if m_is_closed c \<or> \<not> m_is_socket c then (arg, h)
               else if m_user_nonblock c then (map_option (\<lambda>a. a OR O_NONBLOCK) arg, h)
               else (map_option (\<lambda>a. a AND NOT O_NONBLOCK) arg, h))
      | F_other c \<Rightarrow> forward cmd h)"

text \<open>\<^verbatim>\<open>ioctl\<close> with \<^verbatim>\<open>FIONBIO\<close> and the value it is given; the kernel sets the status flag.\<close>

definition ioctl_f :: "int \<Rightarrow> bool \<Rightarrow> kernel \<Rightarrow> kernel" where
  "ioctl_f fd nb k =
     k\<lparr>status_flags := (status_flags k)(fd :=
       if nb then status_flags k fd OR O_NONBLOCK else status_flags k fd AND NOT O_NONBLOCK)\<rparr>"

definition hook_ioctl :: "int \<Rightarrow> bool \<Rightarrow> hooks \<Rightarrow> hooks" where
  "hook_ioctl fd nb h =
     (let h' = (case fst (FdManager_get fd False h) of
                  None \<Rightarrow> h
                | Some c \<Rightarrow>
                    if m_is_closed c \<or> \<not> m_is_socket c then h else put_ctx fd (c\<lparr>m_user_nonblock := nb\<rparr>) h)
      in h'\<lparr>kern := ioctl_f fd nb (kern h')\<rparr>)"

text \<open>\<^verbatim>\<open>setsockopt\<close> of a timeout on the level \<^verbatim>\<open>SOL_SOCKET\<close>, given as seconds and microseconds; other
  options are passed through.\<close>

definition hook_setsockopt :: "int \<Rightarrow> timeout_type \<Rightarrow> u64 \<Rightarrow> u64 \<Rightarrow> hooks \<Rightarrow> hooks" where
  "hook_setsockopt fd optname tv_sec tv_usec h =
     (if \<not> t_enable_hook h then h
      else
        case fst (FdManager_get fd False h) of
          None \<Rightarrow> h
        | Some c \<Rightarrow> put_ctx fd (setTimeout optname (tv_sec * 1000 + of_int (sint tv_usec sdiv 1000)) c) h)"

section \<open>Connecting\<close>

text \<open>\<open>c\<close> is what \<^verbatim>\<open>connect_f\<close> returns, \<open>w\<close> how the wait ends and \<open>so_error\<close> what \<^verbatim>\<open>getsockopt\<close> delivers
  (\<open>None\<close> when it fails with \<open>e'\<close>).\<close>

definition connect_with_timeout ::
    "int \<Rightarrow> u64 \<Rightarrow> call_result \<Rightarrow> wait \<Rightarrow> nat option \<Rightarrow> nat \<Rightarrow> hooks \<Rightarrow> call_result \<times> io_op list" where
  "connect_with_timeout fd timeout_ms c w so_error e' h =
     (if \<not> t_enable_hook h then (c, [Call])
      else
        case fst (FdManager_get fd False h) of
          None \<Rightarrow> (Failed EBADF, [])
        | Some ctx \<Rightarrow>
            if m_is_closed ctx then (Failed EBADF, [])
            else if \<not> m_is_socket ctx then (c, [Call])
            else if m_user_nonblock ctx then (c, [Call])
            else if c \<noteq> Failed EINPROGRESS then (c, [Call])
            else
              let armed = timeout_ms \<noteq> - 1;
                  ops = [Call] @ (if armed then [ArmTimer timeout_ms] else []) @ [AddEvent Event_WRITE];
                  disarm = (if armed then [DisarmTimer] else []);
                  ops = (case w of AddFails err \<Rightarrow> ops @ disarm | _ \<Rightarrow> ops @ [Yield] @ disarm)
              in
              if armed \<and> w = Expired then (Failed ETIMEDOUT, ops)
              else
                case so_error of
                  None \<Rightarrow> (Failed e', ops)
                | Some e \<Rightarrow> if e = 0 then (Returned 0, ops) else (Failed e, ops))"

definition hook_connect ::
    "u64 \<Rightarrow> int \<Rightarrow> call_result \<Rightarrow> wait \<Rightarrow> nat option \<Rightarrow> nat \<Rightarrow> hooks \<Rightarrow> call_result \<times> io_op list" where
  "hook_connect s_connect_timeout fd c w so_error e' h =
     connect_with_timeout fd s_connect_timeout c w so_error e' h"

text \<open>A new descriptor is made known to the manager.\<close>

definition hook_socket :: "int \<Rightarrow> hooks \<Rightarrow> int \<times> hooks" where
  "hook_socket fd h =
     (if \<not> t_enable_hook h then (fd, h)
      else if fd = -1 then (fd, h)
      else (fd, snd (FdManager_get fd True h)))"

definition hook_accept ::
    "int \<Rightarrow> (call_result \<times> wait) list \<Rightarrow> hooks \<Rightarrow> (call_result option \<times> io_op list) \<times> hooks" where
  "hook_accept sockfd env h =
     (let (r, ops) = do_io sockfd Event_READ SO_RCVTIMEO env h in
      case r of
        Some (Returned fd) \<Rightarrow>
          (if fd \<ge> 0 \<and> t_enable_hook h then ((r, ops), snd (FdManager_get fd True h)) else ((r, ops), h))
      | _ \<Rightarrow> ((r, ops), h))"


section \<open>The flag the user sees\<close>

lemma get_keeps: "fst (FdManager_get fd False h) = Some c \<Longrightarrow>
  0 \<le> fd \<and> nat fd < length (m_container h) \<and> m_container h ! nat fd = Some c"
  by (auto simp: FdManager_get_def Let_def split: if_splits)

lemma get_put:
  assumes "fst (FdManager_get fd False h) = Some c"
  shows "fst (FdManager_get fd False (put_ctx fd c' h\<lparr>kern := k\<rparr>)) = Some c'"
  using get_keeps [OF assms] by (auto simp: FdManager_get_def put_ctx_def Let_def nat_less_iff)

lemma bit_O_NONBLOCK: "bit O_NONBLOCK n \<longleftrightarrow> n = 11"
proof -
  have "O_NONBLOCK = 2 ^ 11" by (simp add: O_NONBLOCK_def)
  moreover have "bit (2 ^ 11 :: u32) n \<longleftrightarrow> n = 11" by (simp only: bit_exp_iff) (auto simp: possible_bit_word)
  ultimately show ?thesis by (simp only:)
qed

lemma nonblock_bits:
  "(a :: u32) AND O_NONBLOCK \<noteq> 0 \<Longrightarrow> a OR O_NONBLOCK = a"
  "a AND O_NONBLOCK \<noteq> 0 \<Longrightarrow> (a AND NOT O_NONBLOCK) OR O_NONBLOCK = a"
  "a AND O_NONBLOCK = 0 \<Longrightarrow> a AND NOT O_NONBLOCK = a"
  "a AND O_NONBLOCK = 0 \<Longrightarrow> (a OR O_NONBLOCK) AND NOT O_NONBLOCK = a"
proof -
  have on: "bit a 11" if "a AND O_NONBLOCK \<noteq> 0"
  proof (rule ccontr)
    assume "\<not> bit a 11"
    then have "a AND O_NONBLOCK = 0" by (intro bit_word_eqI) (auto simp: bit_O_NONBLOCK bit_simps)
    then show False using that by simp
  qed
  have off: "\<not> bit a 11" if "a AND O_NONBLOCK = 0"
    using arg_cong [OF that, of "\<lambda>w. bit w 11"] by (simp add: bit_O_NONBLOCK bit_simps)
  show "a AND O_NONBLOCK \<noteq> 0 \<Longrightarrow> a OR O_NONBLOCK = a"
    "a AND O_NONBLOCK \<noteq> 0 \<Longrightarrow> (a AND NOT O_NONBLOCK) OR O_NONBLOCK = a"
    using on by (auto simp: bit_O_NONBLOCK bit_simps intro!: bit_word_eqI)
  show "a AND O_NONBLOCK = 0 \<Longrightarrow> a AND NOT O_NONBLOCK = a"
    "a AND O_NONBLOCK = 0 \<Longrightarrow> (a OR O_NONBLOCK) AND NOT O_NONBLOCK = a"
    using off by (auto simp: bit_O_NONBLOCK bit_simps intro!: bit_word_eqI)
qed

lemma nonblock_real:
  "(a OR O_NONBLOCK) AND O_NONBLOCK \<noteq> (0 :: u32)" "(a AND NOT O_NONBLOCK) AND O_NONBLOCK = (0 :: u32)"
proof -
  have "bit ((a OR O_NONBLOCK) AND O_NONBLOCK) 11" by (simp add: bit_O_NONBLOCK bit_simps)
  then show "(a OR O_NONBLOCK) AND O_NONBLOCK \<noteq> (0 :: u32)" by (metis bit_0_eq bot_apply bot_bool_def)
  show "(a AND NOT O_NONBLOCK) AND O_NONBLOCK = (0 :: u32)" by (rule bit_word_eqI) (simp add: bit_simps)
qed


text \<open>For a socket the framework makes the descriptor non-blocking and keeps the user's wish apart.
  Setting the status flags and getting them back is exact, while the kernel's flag stays what the
  framework chose.  An \<^verbatim>\<open>ioctl\<close> changes the kernel's flag too.\<close>

lemma nonblock_is_virtual:
  assumes "fst (FdManager_get fd False h) = Some c" and "m_is_socket c" and "\<not> m_is_closed c"
  shows "fst (hook_fcntl fd F_GETFL (snd (hook_fcntl fd (F_SETFL a) h))) = Some a \<and>
    (status_flags (kern (snd (hook_fcntl fd (F_SETFL a) h))) fd AND O_NONBLOCK \<noteq> 0 \<longleftrightarrow> m_sys_nonblock c) \<and>
    (status_flags (kern (hook_ioctl fd nb h)) fd AND O_NONBLOCK \<noteq> 0 \<longleftrightarrow> nb)"
proof (intro conjI)
  let ?c = "c\<lparr>m_user_nonblock := (a AND O_NONBLOCK \<noteq> 0)\<rparr>"
  let ?real = "if m_sys_nonblock c then a OR O_NONBLOCK else a AND NOT O_NONBLOCK"
  have set: "snd (hook_fcntl fd (F_SETFL a) h) =
      put_ctx fd ?c h\<lparr>kern := (kern h)\<lparr>status_flags := (status_flags (kern h))(fd := ?real)\<rparr>\<rparr>"
    using assms by (simp add: hook_fcntl_def fcntl_f_def put_ctx_def Let_def)
  have get: "fst (FdManager_get fd False (snd (hook_fcntl fd (F_SETFL a) h))) = Some ?c"
    unfolding set by (rule get_put [OF assms(1)])
  show "fst (hook_fcntl fd F_GETFL (snd (hook_fcntl fd (F_SETFL a) h))) = Some a"
    using assms nonblock_bits [of a]
    by (subst hook_fcntl_def) (simp add: get Let_def fcntl_f_def, simp add: set)
  show "status_flags (kern (snd (hook_fcntl fd (F_SETFL a) h))) fd AND O_NONBLOCK \<noteq> 0 \<longleftrightarrow> m_sys_nonblock c"
    unfolding set using nonblock_real [of a] by simp
  show "status_flags (kern (hook_ioctl fd nb h)) fd AND O_NONBLOCK \<noteq> 0 \<longleftrightarrow> nb"
    using assms nonblock_real by (simp add: hook_ioctl_def ioctl_f_def put_ctx_def Let_def)
qed

definition one_socket :: hooks where
  "one_socket = EnableHook (snd (FdManager_get 3 True
     \<lparr>t_enable_hook = False, m_container = FdManager_new,
      kern = \<lparr>is_sock = (\<lambda>fd. Some True), status_flags = (\<lambda>fd. 2)\<rparr>\<rparr>))"

definition one_ctx :: FdCtx where
  "one_ctx = \<lparr>m_is_init = True, m_is_socket = True, m_sys_nonblock = True, m_user_nonblock = False,
    m_is_closed = False, m_fd = 3, m_recv_timeout = - 1, m_send_timeout = - 1\<rparr>"

lemma one_socket_get: "fst (FdManager_get 3 False one_socket) = Some one_ctx"
proof -
  have nb: "(2 :: u32) AND O_NONBLOCK = 0" by (simp add: O_NONBLOCK_def)
  have "m_container one_socket = FdManager_new[3 := Some one_ctx]"
    by (simp add: one_socket_def EnableHook_def FdManager_get_def FdManager_new_def FdCtx_new_def FdCtx_init_def
        Let_def one_ctx_def nb)
  then show ?thesis by (simp add: FdManager_get_def FdManager_new_def Let_def)
qed

lemma nonblock_is_virtual_example:
  "fst (hook_fcntl 3 F_GETFL (snd (hook_fcntl 3 (F_SETFL 2) one_socket))) = Some 2 \<and>
   status_flags (kern (hook_ioctl 3 False one_socket)) 3 AND O_NONBLOCK = 0"
  using nonblock_is_virtual [OF one_socket_get, of 2 False] by (simp add: one_ctx_def)


section \<open>Repeated calls\<close>

text \<open>An attempt after which the call is made again, and the operations it takes.\<close>

fun goes_on :: "call_result \<times> wait \<Rightarrow> bool" where
  "goes_on (Returned n, w) = False"
| "goes_on (Failed e, w) \<longleftrightarrow> e = EINTR \<or> e = EAGAIN \<and> w = Woken"

definition timer_ops :: "u64 \<Rightarrow> io_op list \<times> io_op list" where
  "timer_ops timeout = (if timeout \<noteq> - 1 then ([ArmTimer timeout], [DisarmTimer]) else ([], []))"

definition wait_ops :: "u32 \<Rightarrow> u64 \<Rightarrow> io_op list" where
  "wait_ops event timeout =
     [Call] @ fst (timer_ops timeout) @ [AddEvent event, Yield] @ snd (timer_ops timeout)"

definition attempt_ops :: "u32 \<Rightarrow> u64 \<Rightarrow> call_result \<times> wait \<Rightarrow> io_op list" where
  "attempt_ops event timeout a = (if fst a = Failed EINTR then [Call] else wait_ops event timeout)"

text \<open>What a call reports whose wait ends otherwise than by the event.\<close>

fun failed_wait :: "wait \<Rightarrow> call_result" where
  "failed_wait (AddFails err) = Failed err"
| "failed_wait Expired = Failed ETIMEDOUT"
| "failed_wait Woken = Failed EAGAIN"

lemma errnos [simp]: "EAGAIN \<noteq> EINTR" "EINTR \<noteq> EAGAIN"
  by (simp_all add: EAGAIN_def EINTR_def)

lemma do_io_goes_on:
  assumes "list_all goes_on as"
  shows "do_io_retry event timeout (as @ env) ops =
    do_io_retry event timeout env (ops @ concat (map (attempt_ops event timeout) as))"
  using assms
proof (induction as arbitrary: ops)
  case (Cons a as)
  obtain c w where a: "a = (c, w)" by (cases a)
  then obtain e where e: "c = Failed e" "e = EINTR \<or> e = EAGAIN \<and> w = Woken"
    using Cons.prems by (cases c) auto
  then have "do_io_retry event timeout ((a # as) @ env) ops =
      do_io_retry event timeout (as @ env) (ops @ attempt_ops event timeout a)"
    by (auto simp: a attempt_ops_def wait_ops_def timer_ops_def Let_def)
  then show ?case using Cons by simp
qed simp

definition timers_balanced :: "io_op list \<Rightarrow> bool" where
  "timers_balanced ops \<longleftrightarrow>
     length (filter (\<lambda>x. \<exists>t. x = ArmTimer t) ops) = length (filter (\<lambda>x. x = DisarmTimer) ops)"

lemma balanced_append: "timers_balanced xs \<Longrightarrow> timers_balanced ys \<Longrightarrow> timers_balanced (xs @ ys)"
  by (simp add: timers_balanced_def)

lemma balanced_attempts: "timers_balanced (concat (map (attempt_ops event timeout) as))"
  by (induction as) (auto simp: timers_balanced_def attempt_ops_def wait_ops_def timer_ops_def)

lemma do_io_retry_balanced:
  "timers_balanced ops \<Longrightarrow> timers_balanced (snd (do_io_retry event timeout env ops))"
proof (induction env arbitrary: ops)
  case (Cons a env)
  obtain c w where a: "a = (c, w)" by (cases a)
  have one: "timers_balanced (ops @ [Call])" using Cons.prems by (simp add: timers_balanced_def)
  then have wait: "timers_balanced (ops @ Call # xs)" if "timers_balanced xs" for xs
    using that by (simp add: timers_balanced_def)
  have cyc: "timers_balanced [ArmTimer timeout, AddEvent event, DisarmTimer]"
    "timers_balanced [ArmTimer timeout, AddEvent event, Yield, DisarmTimer]"
    "timers_balanced [AddEvent event]" "timers_balanced [AddEvent event, Yield]"
    by (simp_all add: timers_balanced_def)
  show ?case
    using Cons.IH one wait [OF cyc(1)] wait [OF cyc(2)] wait [OF cyc(3)] wait [OF cyc(4)]
    by (auto simp: a Let_def split: call_result.split wait.split)
qed simp

text \<open>C11: a hooked call on a blocking socket returns what the first attempt returns that is neither
  interrupted nor would block; it reports a timeout when the timer expires before the event, and
  fails with the error of \<^verbatim>\<open>epoll_ctl\<close> when the event cannot be registered.  Every attempt that would block arms the timer, if there
  is a timeout, registers the event, yields and disarms the timer, so no timer survives the
  call.\<close>

theorem do_io_outcome:
  assumes "t_enable_hook h" and "fst (FdManager_get fd False h) = Some c"
    and "\<not> m_is_closed c" and "m_is_socket c" and "\<not> m_user_nonblock c"
    and "list_all goes_on as" and "r \<noteq> Failed EINTR" and "r = Failed EAGAIN \<longrightarrow> w \<noteq> Woken"
    and "timeout = getTimeout so c" and "w = Expired \<longrightarrow> timeout \<noteq> - 1"
  shows "do_io fd event so (as @ (r, w) # rest) h =
      (Some (if r = Failed EAGAIN then failed_wait w else r),
       concat (map (attempt_ops event timeout) as) @
       (if r \<noteq> Failed EAGAIN then [Call]
        else if w = Expired then wait_ops event timeout
        else [Call] @ fst (timer_ops timeout) @ [AddEvent event] @ snd (timer_ops timeout))) \<and>
    timers_balanced (snd (do_io fd event so env h))"
proof
  have "do_io fd event so env h = do_io_retry event timeout env []" for env
    using assms by (simp add: do_io_def)
  moreover have "do_io_retry event timeout ((r, w) # rest) ops =
      (Some (if r = Failed EAGAIN then failed_wait w else r),
       ops @ (if r \<noteq> Failed EAGAIN then [Call]
        else if w = Expired then wait_ops event timeout
        else [Call] @ fst (timer_ops timeout) @ [AddEvent event] @ snd (timer_ops timeout)))" for ops
    using assms(7,8,10) by (cases r; cases w) (auto simp: wait_ops_def timer_ops_def Let_def)
  ultimately show "do_io fd event so (as @ (r, w) # rest) h =
      (Some (if r = Failed EAGAIN then failed_wait w else r),
       concat (map (attempt_ops event timeout) as) @
       (if r \<noteq> Failed EAGAIN then [Call]
        else if w = Expired then wait_ops event timeout
        else [Call] @ fst (timer_ops timeout) @ [AddEvent event] @ snd (timer_ops timeout)))"
    by (simp add: do_io_goes_on [OF assms(6)])
  show "timers_balanced (snd (do_io fd event so env h))"
    using assms do_io_retry_balanced [of "[]" event timeout env] by (simp add: do_io_def timers_balanced_def)
qed

lemma one_socket_enabled: "t_enable_hook one_socket"
  by (simp add: one_socket_def EnableHook_def)

theorem do_io_outcome_witness:
  "do_io 3 Event_READ SO_RCVTIMEO ([(Failed EINTR, Woken)] @ (Failed EAGAIN, AddFails 12) # []) one_socket =
     (Some (Failed 12), [Call, Call, AddEvent Event_READ]) \<and>
   do_io 3 Event_READ SO_RCVTIMEO ([(Failed EINTR, Woken), (Failed EAGAIN, Woken)] @ (Returned 5, Woken) # []) one_socket =
     (Some (Returned 5), [Call, Call, AddEvent Event_READ, Yield, Call])"
proof -
  have c: "\<not> m_is_closed one_ctx" "m_is_socket one_ctx" "\<not> m_user_nonblock one_ctx"
    "getTimeout SO_RCVTIMEO one_ctx = - 1" by (simp_all add: one_ctx_def getTimeout_def)
  have as: "list_all goes_on [(Failed EINTR, Woken), (Failed EAGAIN, Woken)]" by simp
  have "do_io 3 Event_READ SO_RCVTIMEO ([(Failed EINTR, Woken)] @ (Failed EAGAIN, AddFails 12) # []) one_socket =
      (Some (Failed 12), [Call, Call, AddEvent Event_READ])"
    using do_io_outcome [OF one_socket_enabled one_socket_get c(1-3), of "[(Failed EINTR, Woken)]" "Failed EAGAIN"
        "AddFails 12" "- 1" SO_RCVTIMEO Event_READ "[]"] c(4)
    by (simp add: attempt_ops_def timer_ops_def)
  moreover have "do_io 3 Event_READ SO_RCVTIMEO ([(Failed EINTR, Woken), (Failed EAGAIN, Woken)] @ (Returned 5, Woken) # []) one_socket =
      (Some (Returned 5), concat (map (attempt_ops Event_READ (- 1)) [(Failed EINTR, Woken), (Failed EAGAIN, Woken)]) @ [Call])"
    using do_io_outcome [OF one_socket_enabled one_socket_get c(1-3) as, of "Returned 5" Woken "- 1" SO_RCVTIMEO Event_READ "[]"]
      c(4) by (simp only: call_result.distinct simp_thms wait.distinct if_True if_False)
  ultimately show ?thesis by (simp add: attempt_ops_def wait_ops_def timer_ops_def)
qed

section \<open>How long a sleep takes\<close>

text \<open>A hooked \<^verbatim>\<open>sleep\<close> arms a timer of the given number of seconds up to 4294967, above which
  the product wraps around; \<^verbatim>\<open>usleep\<close> takes its microseconds for seconds; \<^verbatim>\<open>nanosleep\<close> rounds down to
  milliseconds.\<close>

lemma sleep_durations:
  assumes "t_enable_hook h" and "sec < 2 ^ 32" and "nsec < 10 ^ 9"
  shows "hook_sleep (of_nat s) h = Some [ArmTimer (of_nat (s * 1000 mod 2 ^ 32)), Yield] \<and>
    hook_usleep (of_nat s) h = Some [ArmTimer (of_nat (s * 1000 mod 2 ^ 32)), Yield] \<and>
    hook_nanosleep (of_nat sec) (of_nat nsec) h = Some [ArmTimer (of_nat (sec * 1000 + nsec div 1000000)), Yield] \<and>
    (s * 1000 mod 2 ^ 32 = s * 1000 \<longleftrightarrow> s \<le> 4294967)"
proof -
  have prod: "(ucast (of_nat s * 1000 :: u32) :: u64) = of_nat (s * 1000 mod 2 ^ 32)"
  proof -
    have "(of_nat s * 1000 :: u32) = of_nat (s * 1000)" by simp
    then show ?thesis by (simp only: unsigned_of_nat take_bit_eq_mod) simp
  qed
  have div: "int n sdiv 1000 = int (n div 1000)" for n
    by (cases "n = 0") (simp_all add: signed_divide_int_def zdiv_int)
  have "sint (of_nat nsec :: u64) = int nsec"
    using assms(3) by (simp add: signed_of_nat signed_take_bit_int_eq_self_iff)
  then have "(of_int (sint (of_nat nsec :: u64) sdiv 1000 sdiv 1000) :: u64) = of_nat (nsec div 1000000)"
    by (simp only: div div_mult2_eq [symmetric] of_int_of_nat_eq) simp
  then show ?thesis
    using assms(1) prod by (auto simp: hook_sleep_def hook_usleep_def hook_nanosleep_def)
qed


lemma sleep_durations_example:
  "hook_sleep (of_nat 2) one_socket = Some [ArmTimer (of_nat (2 * 1000 mod 2 ^ 32)), Yield] \<and>
   hook_usleep (of_nat 4294968) one_socket = Some [ArmTimer 704, Yield]"
  using sleep_durations [OF one_socket_enabled, of 1 0 2] sleep_durations [OF one_socket_enabled, of 1 0 4294968]
  by simp

end
