(* ===== verification/Addresses.thy ===== *)
theory Addresses
  imports Endian
begin

text \<open>
  Socket addresses (\<^verbatim>\<open>address.cpp\<close>): IPv4 and IPv6 addresses with their subnets and their text, Unix
  paths, the comparison of addresses and the splitting of a host name.  Integers in the socket
  structures are in network order; \<open>native\<close> is the byte order of the machine.  Name resolution
  (\<^verbatim>\<open>getaddrinfo\<close>, \<^verbatim>\<open>inet_pton\<close>) is an argument.  Fields a constructor leaves uninitialised are
  arguments as well.
\<close>

datatype addr_error = UndefinedBehaviour | PathTooLong

definition AF_UNSPEC :: u16 where "AF_UNSPEC = 0"
definition AF_UNIX :: u16 where "AF_UNIX = 1"
definition AF_INET :: u16 where "AF_INET = 2"
definition AF_INET6 :: u16 where "AF_INET6 = 10"

section \<open>Masks\<close>

text \<open>\<^verbatim>\<open>CreateMask<uint32_t>\<close> and \<^verbatim>\<open>CreateMask<uint8_t>\<close>: the shift is one of an \<^verbatim>\<open>int\<close>, so that 32 or more
  places, and the subtraction from the smallest \<^verbatim>\<open>int\<close>, are undefined.\<close>

definition CreateMask32 :: "u32 \<Rightarrow> addr_error + u32" where
  "CreateMask32 bits =
     (if bits \<le> 1 \<or> bits > 32 then Inl UndefinedBehaviour
      else Inr (push_bit (32 - unat bits) 1 - 1))"

definition CreateMask8 :: "u32 \<Rightarrow> addr_error + byte" where
  "CreateMask8 bits =
     (if bits > 8 then Inl UndefinedBehaviour
      else Inr (ucast (push_bit (8 - unat bits) 1 - 1 :: u32)))"

section \<open>IPv4\<close>

record sockaddr_in =
  sin_family :: u16
  sin_port :: u16
  s_addr :: u32
  sin_zero :: "byte list"

definition new_IPv4Address :: "EndianType \<Rightarrow> byte list \<Rightarrow> u32 \<Rightarrow> u16 \<Rightarrow> sockaddr_in" where
  "new_IPv4Address native junk address port =
     \<lparr>sin_family = AF_INET, sin_port = EndianCastOnLittle native port,
      s_addr = EndianCastOnLittle native address, sin_zero = junk\<rparr>"

text \<open>\<open>pton\<close> is the address \<^verbatim>\<open>inet_pton\<close> stores.\<close>

definition IPv4_Create ::
  "EndianType \<Rightarrow> byte list \<Rightarrow> (string \<Rightarrow> u32 option) \<Rightarrow> string \<Rightarrow> u16 \<Rightarrow> sockaddr_in option" where
  "IPv4_Create native junk pton address port =
     (let rt = (new_IPv4Address native junk 0 0)\<lparr>sin_port := EndianCastOnLittle native port\<rparr> in
      map_option (\<lambda>a. rt\<lparr>s_addr := a\<rparr>) (pton address))"

definition ip4_broadcastAddress ::
  "EndianType \<Rightarrow> u32 \<Rightarrow> sockaddr_in \<Rightarrow> addr_error + sockaddr_in option" where
  "ip4_broadcastAddress native prefix_len a =
     (if prefix_len > 32 then Inr None
      else rbind (CreateMask32 prefix_len) (\<lambda>ipv4_mask.
        Inr (Some (a\<lparr>s_addr := s_addr a OR EndianCastOnLittle native ipv4_mask\<rparr>))))"

definition ip4_networkAddress ::
  "EndianType \<Rightarrow> u32 \<Rightarrow> sockaddr_in \<Rightarrow> addr_error + sockaddr_in option" where
  "ip4_networkAddress native prefix_len a =
     (if prefix_len > 32 then Inr None
      else rbind (CreateMask32 prefix_len) (\<lambda>ipv4_mask.
        Inr (Some (a\<lparr>s_addr := s_addr a AND NOT (EndianCastOnLittle native ipv4_mask)\<rparr>))))"

definition ip4_subnetMask :: "EndianType \<Rightarrow> u32 \<Rightarrow> addr_error + sockaddr_in" where
  "ip4_subnetMask native prefix_len =
     rbind (CreateMask32 prefix_len) (\<lambda>mask.
       Inr \<lparr>sin_family = AF_INET, sin_port = 0, s_addr = NOT (EndianCastOnLittle native mask),
            sin_zero = replicate 8 0\<rparr>)"

definition ip4_getPort :: "EndianType \<Rightarrow> sockaddr_in \<Rightarrow> u32" where
  "ip4_getPort native a = ucast (EndianCastOnLittle native (sin_port a))"

definition ip4_setPort :: "EndianType \<Rightarrow> u16 \<Rightarrow> sockaddr_in \<Rightarrow> sockaddr_in" where
  "ip4_setPort native port a = a\<lparr>sin_port := EndianCastOnLittle native port\<rparr>"

definition ip4_insert :: "EndianType \<Rightarrow> sockaddr_in \<Rightarrow> string" where
  "ip4_insert native a =
     (let addr = EndianCastOnLittle native (s_addr a) in
      dec (unat (drop_bit 24 addr AND 0xff)) @ '':'' @ dec (unat (drop_bit 16 addr AND 0xff)) @ '':'' @
      dec (unat (drop_bit 8 addr AND 0xff)) @ '':'' @ dec (unat (addr AND 0xff)) @ '':'' @
      dec (unat (EndianCastOnLittle native (sin_port a))))"

section \<open>IPv6\<close>

record sockaddr_in6 =
  sin6_family :: u16
  sin6_port :: u16
  sin6_flowinfo :: u32
  s6_addr :: "byte list"
  sin6_scope_id :: u32

definition new_IPv6Address :: sockaddr_in6 where
  "new_IPv6Address =
     \<lparr>sin6_family = AF_INET6, sin6_port = 0, sin6_flowinfo = 0, s6_addr = replicate 16 0, sin6_scope_id = 0\<rparr>"

definition new_IPv6Address_bytes ::
  "EndianType \<Rightarrow> u32 \<Rightarrow> u32 \<Rightarrow> byte list \<Rightarrow> u16 \<Rightarrow> sockaddr_in6" where
  "new_IPv6Address_bytes native junk junk' address port =
     \<lparr>sin6_family = AF_INET6, sin6_port = EndianCastOnLittle native port, sin6_flowinfo = junk,
      s6_addr = take 16 address, sin6_scope_id = junk'\<rparr>"

definition IPv6_Create ::
  "EndianType \<Rightarrow> (string \<Rightarrow> byte list option) \<Rightarrow> string \<Rightarrow> u16 \<Rightarrow> sockaddr_in6 option" where
  "IPv6_Create native pton address port =
     (let ans = new_IPv6Address\<lparr>sin6_port := EndianCastOnLittle native port, sin6_family := AF_INET6\<rparr> in
      map_option (\<lambda>a. ans\<lparr>s6_addr := a\<rparr>) (pton address))"

text \<open>The loops that fill the bytes behind (or in front of) the one the prefix ends in.\<close>

definition fill_from :: "nat \<Rightarrow> byte \<Rightarrow> byte list \<Rightarrow> byte list" where
  "fill_from k v bs = fold (\<lambda>i bs. bs[i := v]) [k..<16] bs"

definition fill_below :: "nat \<Rightarrow> byte \<Rightarrow> byte list \<Rightarrow> byte list" where
  "fill_below k v bs = fold (\<lambda>i bs. bs[i := v]) [0..<k] bs"

definition ip6_broadcastAddress :: "u32 \<Rightarrow> sockaddr_in6 \<Rightarrow> addr_error + sockaddr_in6" where
  "ip6_broadcastAddress prefix_len a =
     (let k = unat (prefix_len div 8) in
      if k \<ge> 16 then Inl UndefinedBehaviour
      else rbind (CreateMask8 (prefix_len mod 8)) (\<lambda>mask.
        let bs = s6_addr a; bs = bs[k := bs ! k OR mask]
        in Inr (a\<lparr>s6_addr := fill_from (k + 1) 0xff bs\<rparr>)))"

definition ip6_networkAddress :: "u32 \<Rightarrow> sockaddr_in6 \<Rightarrow> addr_error + sockaddr_in6" where
  "ip6_networkAddress prefix_len a =
     (let k = unat (prefix_len div 8) in
      if k \<ge> 16 then Inl UndefinedBehaviour
      else rbind (CreateMask8 (prefix_len mod 8)) (\<lambda>mask.
        let bs = s6_addr a; bs = bs[k := bs ! k AND NOT mask]
        in Inr (a\<lparr>s6_addr := fill_from (k + 1) 0 bs\<rparr>)))"

definition ip6_subnetMask :: "u32 \<Rightarrow> addr_error + sockaddr_in6" where
  "ip6_subnetMask prefix_len =
     (let k = unat (prefix_len div 8) in
      if k \<ge> 16 then Inl UndefinedBehaviour
      else rbind (CreateMask8 (prefix_len mod 8)) (\<lambda>mask.
        let bs = (replicate 16 0)[k := NOT mask]
        in Inr (new_IPv6Address\<lparr>s6_addr := fill_below k 0xff bs\<rparr>)))"

definition ip6_getPort :: "EndianType \<Rightarrow> sockaddr_in6 \<Rightarrow> u32" where
  "ip6_getPort native a = ucast (EndianCastOnLittle native (sin6_port a))"

definition ip6_setPort :: "EndianType \<Rightarrow> u16 \<Rightarrow> sockaddr_in6 \<Rightarrow> sockaddr_in6" where
  "ip6_setPort native port a = a\<lparr>sin6_port := EndianCastOnLittle native port\<rparr>"

fun hex :: "nat \<Rightarrow> string" where
  "hex n = (if n < 16 then [''0123456789abcdef'' ! n] else hex (n div 16) @ [''0123456789abcdef'' ! (n mod 16)])"

declare hex.simps [simp del]

text \<open>The 16-bit groups as they are read from memory.\<close>

fun groups :: "EndianType \<Rightarrow> byte list \<Rightarrow> u16 list" where
  "groups native (a # b # bs) = mem_word native [a, b] # groups native bs"
| "groups native bs = []"

text \<open>The loop over the groups: \<open>prev\<close> is the group before, \<open>None\<close> at the first.  It returns what is
  printed and \<^verbatim>\<open>used_zero\<close>.\<close>

fun ip6_loop :: "EndianType \<Rightarrow> bool \<Rightarrow> u16 option \<Rightarrow> u16 list \<Rightarrow> string \<times> bool" where
  "ip6_loop native used_zero prev [] = ([], used_zero)"
| "ip6_loop native used_zero prev (a # as) =
     (if a = 0 \<and> \<not> used_zero then ip6_loop native used_zero (Some a) as
      else
        let gap = (prev = Some 0 \<and> \<not> used_zero);
            (out, used) = ip6_loop native (used_zero \<or> gap) (Some a) as
        in ((if gap then '':'' else []) @ (if prev \<noteq> None then '':'' else []) @
            hex (unat (EndianCastOnLittle native a)) @ out, used))"

definition ip6_insert :: "EndianType \<Rightarrow> sockaddr_in6 \<Rightarrow> string" where
  "ip6_insert native a =
     (let addr = groups native (s6_addr a); (out, used_zero) = ip6_loop native False None addr in
      ''['' @ out @ (if \<not> used_zero \<and> addr ! 7 = 0 then ''::'' else []) @ '']:'' @
      dec (unat (EndianCastOnLittle native (sin6_port a))))"

section \<open>Unix paths and other addresses\<close>

text \<open>\<^verbatim>\<open>sun_path\<close> has 108 bytes; the path starts at offset 2.\<close>

record sockaddr_un =
  sun_family :: u16
  sun_path :: string
  un_length :: nat

definition new_UnixAddress :: sockaddr_un where
  "new_UnixAddress = \<lparr>sun_family = AF_UNIX, sun_path = replicate 108 (CHR 0x00), un_length = 2 + 107\<rparr>"

definition new_UnixAddress_path :: "string \<Rightarrow> addr_error + sockaddr_un" where
  "new_UnixAddress_path path =
     (let len = length path + 1;
          len = (if path \<noteq> [] \<and> path ! 0 = CHR 0x00 then len - 1 else len) in
      if len > 108 then Inl PathTooLong
      else Inr \<lparr>sun_family = 0,
                sun_path = overwrite (replicate 108 (CHR 0x00)) 0 (take len (path @ [CHR 0x00])),
                un_length = len + 2\<rparr>)"

definition un_setAddrLen :: "nat \<Rightarrow> sockaddr_un \<Rightarrow> sockaddr_un" where
  "un_setAddrLen v a = a\<lparr>un_length := v\<rparr>"

definition un_getPath :: "sockaddr_un \<Rightarrow> string" where
  "un_getPath a =
     (if un_length a > 2 \<and> sun_path a ! 0 = CHR 0x00
      then [CHR 0x5C, CHR ''0''] @ take (un_length a - 2 - 1) (drop 1 (sun_path a))
      else c_str (sun_path a))"

definition un_insert :: "sockaddr_un \<Rightarrow> string" where
  "un_insert a =
     (if un_length a > 2 \<and> sun_path a ! 0 = CHR 0x00
      then [CHR 0x5C, CHR ''0''] @ take (un_length a - 2 - 1) (drop 1 (sun_path a))
      else c_str (sun_path a))"

text \<open>A \<^verbatim>\<open>sockaddr\<close> of another family: the family and 14 bytes.\<close>

record sockaddr =
  sa_family :: u16
  sa_data :: "byte list"

definition new_UnknownAddress :: "u16 \<Rightarrow> sockaddr" where
  "new_UnknownAddress family = \<lparr>sa_family = family, sa_data = replicate 14 0\<rparr>"

definition unknown_insert :: "sockaddr \<Rightarrow> string" where
  "unknown_insert a = ''UnknownAddress family = '' @ dec (unat (sa_family a)) @ '']''"

datatype Address = IPv4 sockaddr_in | IPv6 sockaddr_in6 | Unix sockaddr_un | Unknown sockaddr

fun getFamily :: "Address \<Rightarrow> u16" where
  "getFamily (IPv4 a) = sin_family a"
| "getFamily (IPv6 a) = sin6_family a"
| "getFamily (Unix a) = sun_family a"
| "getFamily (Unknown a) = sa_family a"

fun addr_toString :: "EndianType \<Rightarrow> Address \<Rightarrow> string" where
  "addr_toString native (IPv4 a) = ip4_insert native a"
| "addr_toString native (IPv6 a) = ip6_insert native a"
| "addr_toString native (Unix a) = un_insert a"
| "addr_toString native (Unknown a) = unknown_insert a"

text \<open>The bytes at \<^verbatim>\<open>getAddr()\<close>, as many as \<^verbatim>\<open>getAddrLen()\<close>.\<close>

fun addr_bytes :: "EndianType \<Rightarrow> Address \<Rightarrow> byte list" where
  "addr_bytes native (IPv4 a) =
     mem_bytes native (sin_family a) @ mem_bytes native (sin_port a) @ mem_bytes native (s_addr a) @ sin_zero a"
| "addr_bytes native (IPv6 a) =
     mem_bytes native (sin6_family a) @ mem_bytes native (sin6_port a) @ mem_bytes native (sin6_flowinfo a) @
     s6_addr a @ mem_bytes native (sin6_scope_id a)"
| "addr_bytes native (Unix a) =
     take (un_length a) (mem_bytes native (sun_family a) @ map of_char (sun_path a))"
| "addr_bytes native (Unknown a) = mem_bytes native (sa_family a) @ sa_data a"

fun getAddrLen :: "Address \<Rightarrow> nat" where
  "getAddrLen (IPv4 a) = 16"
| "getAddrLen (IPv6 a) = 28"
| "getAddrLen (Unix a) = un_length a"
| "getAddrLen (Unknown a) = 16"

fun memcmp :: "byte list \<Rightarrow> byte list \<Rightarrow> nat \<Rightarrow> int" where
  "memcmp (a # as) (b # bs) (Suc n) =
     (if a = b then memcmp as bs n else if a < b then - 1 else 1)"
| "memcmp as bs n = 0"

text \<open>The comparison, as written: the last condition compares the length with itself.\<close>

definition Address_less :: "EndianType \<Rightarrow> Address \<Rightarrow> Address \<Rightarrow> bool" where
  "Address_less native lhs rhs =
     (let min_size = min (getAddrLen lhs) (getAddrLen rhs);
          result = memcmp (addr_bytes native lhs) (addr_bytes native rhs) min_size in
      if result < 0 then True
      else if result > 0 then False
      else if getAddrLen lhs < getAddrLen lhs then True
      else False)"

definition Address_eq :: "EndianType \<Rightarrow> Address \<Rightarrow> Address \<Rightarrow> bool" where
  "Address_eq native lhs rhs \<longleftrightarrow>
     getAddrLen lhs = getAddrLen rhs \<and>
     memcmp (addr_bytes native lhs) (addr_bytes native rhs) (getAddrLen lhs) = 0"

section \<open>Looking up names\<close>

text \<open>The splitting of a host name at the start of \<^verbatim>\<open>Address::Lookup\<close>: the node and the service, which
  is a pointer into the host name.\<close>

fun index_after :: "char \<Rightarrow> string \<Rightarrow> string option" where
  "index_after c [] = None"
| "index_after c (x # xs) = (if x = c then Some xs else index_after c xs)"

definition split_host :: "string \<Rightarrow> string \<times> string option" where
  "split_host host =
     (let (node, service) =
        (if host \<noteq> [] \<and> host ! 0 = CHR ''['' then
           (case index_after (CHR '']'') (tl host) of
              Some rest \<Rightarrow>
                (takeWhile (\<lambda>c. c \<noteq> CHR '']'') (tl host),
                 if take 1 rest = '':'' then Some (drop 1 rest) else None)
            | None \<Rightarrow> ([], None))
         else ([], None));
          (node, service) =
        (if node = [] then
           (case index_after (CHR '':'') host of
              Some rest \<Rightarrow>
                if CHR '':'' \<notin> set rest then (takeWhile (\<lambda>c. c \<noteq> CHR '':'') host, Some rest)
                else (node, Some (CHR '':'' # rest))
            | None \<Rightarrow> (node, None))
         else (node, service))
      in (if node = [] then host else node, service))"

text \<open>\<open>resolve\<close> is \<^verbatim>\<open>getaddrinfo\<close>: \<open>None\<close> for an error, else the socket addresses of the list.\<close>

definition Lookup_addr ::
  "(string \<Rightarrow> string option \<Rightarrow> Address list option) \<Rightarrow> string \<Rightarrow> Address list \<Rightarrow> bool \<times> Address list" where
  "Lookup_addr resolve host result =
     (let (node, service) = split_host host in
      case resolve (c_str node) (map_option c_str service) of
        None \<Rightarrow> (False, result)
      | Some addrs \<Rightarrow> (result @ addrs \<noteq> [], result @ addrs))"

definition LookupAny ::
  "(string \<Rightarrow> string option \<Rightarrow> Address list option) \<Rightarrow> string \<Rightarrow> Address option" where
  "LookupAny resolve host =
     (let (ok, result) = Lookup_addr resolve host [] in if ok then Some (result ! 0) else None)"

fun is_ip :: "Address \<Rightarrow> bool" where
  "is_ip (IPv4 a) = True"
| "is_ip (IPv6 a) = True"
| "is_ip a = False"

definition LookupAnyIPAddress ::
  "(string \<Rightarrow> string option \<Rightarrow> Address list option) \<Rightarrow> string \<Rightarrow> Address option" where
  "LookupAnyIPAddress resolve host =
     (let (ok, result) = Lookup_addr resolve host [] in if ok then find is_ip result else None)"

text \<open>\<^verbatim>\<open>IPAddress::Create\<close>: after an error of \<^verbatim>\<open>getaddrinfo\<close> the result is used all the same, and that is a
  pointer that was never set.\<close>

definition IPAddress_Create ::
  "EndianType \<Rightarrow> (string \<Rightarrow> Address option) \<Rightarrow> string \<Rightarrow> u16 \<Rightarrow> addr_error + Address option" where
  "IPAddress_Create native resolve address port =
     (case resolve address of
        None \<Rightarrow> Inl UndefinedBehaviour
      | Some (IPv4 a) \<Rightarrow> Inr (Some (IPv4 (ip4_setPort native port a)))
      | Some (IPv6 a) \<Rightarrow> Inr (Some (IPv6 (ip6_setPort native port a)))
      | Some _ \<Rightarrow> Inr None)"

section \<open>Byte swapping and bitwise operations\<close>

lemma le_bytes_inj:
  assumes "LENGTH('a::len) \<le> 8 * n" and "le_bytes n a = le_bytes n (b :: 'a word)"
  shows "a = b"
  using arg_cong [OF assms(2), of "le_word :: byte list \<Rightarrow> 'a word"] assms(1) by simp

lemma le_bytes_bitwise:
  "le_bytes n (a OR b) = map2 (OR) (le_bytes n a) (le_bytes n b)"
  "le_bytes n (a AND b) = map2 (AND) (le_bytes n a) (le_bytes n b)"
proof -
  have *: "(ucast (x OR y) :: byte) = ucast x OR ucast y" "(ucast (x AND y) :: byte) = ucast x AND ucast y"
    "drop_bit 8 (x OR y) = drop_bit 8 x OR drop_bit 8 y" "drop_bit 8 (x AND y) = drop_bit 8 x AND drop_bit 8 y"
    for x y :: "'a word"
    by (auto simp: bit_simps intro!: bit_word_eqI)
  show "le_bytes n (a OR b) = map2 (OR) (le_bytes n a) (le_bytes n b)"
    "le_bytes n (a AND b) = map2 (AND) (le_bytes n a) (le_bytes n b)"
    by (induction n arbitrary: a b) (simp_all add: *)
qed

lemma le_bytes_not: "8 * n \<le> LENGTH('a::len) \<Longrightarrow> le_bytes n (NOT a :: 'a word) = map NOT (le_bytes n a)"
proof (rule nth_equalityI)
  fix i assume n: "8 * n \<le> LENGTH('a)" and "i < length (le_bytes n (NOT a))"
  then have i: "i < n" by simp
  have nth: "i < n \<Longrightarrow> le_bytes n w ! i = ucast (drop_bit (8 * i) w)" for w :: "'a word" and i n
  proof (induction n arbitrary: w i)
    case (Suc n)
    then show ?case by (cases i) (simp_all add: drop_bit_drop_bit add.commute)
  qed simp
  show "le_bytes n (NOT a) ! i = map NOT (le_bytes n a) ! i"
    using i n by (auto simp: nth bit_simps intro!: bit_word_eqI)
qed simp

lemma EndianCastOnLittle_bitwise:
  assumes "int_width TYPE('a::len word)"
  shows "EndianCastOnLittle native (a OR b :: 'a word) = EndianCastOnLittle native a OR EndianCastOnLittle native b"
    and "EndianCastOnLittle native (a AND b :: 'a word) = EndianCastOnLittle native a AND EndianCastOnLittle native b"
    and "EndianCastOnLittle native (NOT a :: 'a word) = NOT (EndianCastOnLittle native a)"
proof -
  let ?n = "LENGTH('a) div 8"
  have w: "LENGTH('a) \<le> 8 * ?n" "8 * ?n \<le> LENGTH('a)" using int_width_dvd [OF assms] by simp_all
  have "ByteSwap (a OR b) = ByteSwap a OR ByteSwap b" "ByteSwap (a AND b) = ByteSwap a AND ByteSwap b"
    "ByteSwap (NOT a) = NOT (ByteSwap a)"
    by (rule le_bytes_inj [OF w(1)];
        simp add: ByteSwap_bytes [OF assms] le_bytes_bitwise le_bytes_not [OF w(2)] rev_map zip_rev)+
  then show "EndianCastOnLittle native (a OR b) = EndianCastOnLittle native a OR EndianCastOnLittle native b"
    "EndianCastOnLittle native (a AND b) = EndianCastOnLittle native a AND EndianCastOnLittle native b"
    "EndianCastOnLittle native (NOT a) = NOT (EndianCastOnLittle native a)"
    by (simp_all add: EndianCastOnLittle_def)
qed

section \<open>Subnets\<close>

definition host_addr :: "EndianType \<Rightarrow> sockaddr_in \<Rightarrow> u32" where
  "host_addr native a = EndianCastOnLittle native (s_addr a)"

text \<open>C39: For prefixes of 2 up to 32 bits the broadcast address of an IPv4 address sets the bits behind
  the prefix and the network address clears them, in the order of the host, whatever the order of
  the machine; the network address is the address masked by the subnet mask.  For longer prefixes
  there is none, and for the prefixes 0 and 1 the computation is undefined.\<close>

theorem ipv4_subnets:
  "(2 \<le> p \<and> p \<le> 32 \<longrightarrow>
     (\<exists>b n m. ip4_broadcastAddress native p a = Inr (Some b) \<and> ip4_networkAddress native p a = Inr (Some n) \<and>
        ip4_subnetMask native p = Inr m \<and>
        (\<forall>i < 32. bit (host_addr native b) i \<longleftrightarrow> i < 32 - unat p \<or> bit (host_addr native a) i) \<and>
        (\<forall>i < 32. bit (host_addr native n) i \<longleftrightarrow> 32 - unat p \<le> i \<and> bit (host_addr native a) i) \<and>
        (\<forall>i < 32. bit (host_addr native m) i \<longleftrightarrow> 32 - unat p \<le> i) \<and>
        s_addr n = s_addr a AND s_addr m \<and> sin_port b = sin_port a \<and> sin_port n = sin_port a)) \<and>
   (p > 32 \<longrightarrow> ip4_broadcastAddress native p a = Inr None \<and> ip4_networkAddress native p a = Inr None \<and>
     ip4_subnetMask native p = Inl UndefinedBehaviour) \<and>
   (p \<le> 1 \<longrightarrow> ip4_broadcastAddress native p a = Inl UndefinedBehaviour \<and>
     ip4_networkAddress native p a = Inl UndefinedBehaviour)"
proof (intro conjI impI)
  assume p: "2 \<le> p \<and> p \<le> 32"
  define k where "k = 32 - unat p"
  have up: "2 \<le> unat p" "unat p \<le> 32" using p by (simp_all add: word_le_nat_alt)
  have mask: "CreateMask32 p = Inr (mask k)"
    using p by (auto simp: CreateMask32_def k_def mask_eq_exp_minus_1 word_le_nat_alt word_less_nat_alt push_bit_eq_mult)
  show "\<exists>b n m. ip4_broadcastAddress native p a = Inr (Some b) \<and> ip4_networkAddress native p a = Inr (Some n) \<and>
        ip4_subnetMask native p = Inr m \<and>
        (\<forall>i < 32. bit (host_addr native b) i \<longleftrightarrow> i < 32 - unat p \<or> bit (host_addr native a) i) \<and>
        (\<forall>i < 32. bit (host_addr native n) i \<longleftrightarrow> 32 - unat p \<le> i \<and> bit (host_addr native a) i) \<and>
        (\<forall>i < 32. bit (host_addr native m) i \<longleftrightarrow> 32 - unat p \<le> i) \<and>
        s_addr n = s_addr a AND s_addr m \<and> sin_port b = sin_port a \<and> sin_port n = sin_port a"
    using p mask up
    by (auto simp: ip4_broadcastAddress_def ip4_networkAddress_def ip4_subnetMask_def host_addr_def
        EndianCastOnLittle_bitwise bit_simps k_def)
qed (auto simp: ip4_broadcastAddress_def ip4_networkAddress_def ip4_subnetMask_def CreateMask32_def
    word_le_nat_alt word_less_nat_alt)

theorem ipv4_subnets_witness:
  "\<exists>b. ip4_broadcastAddress XZMJX_Little_Endian 24 (new_IPv4Address XZMJX_Little_Endian [] 0xC0A80102 80) =
     Inr (Some b) \<and> bit (host_addr XZMJX_Little_Endian b) 7"
proof -
  have "(2 :: u32) \<le> 24 \<and> (24 :: u32) \<le> 32" by simp
  then show ?thesis
    using ipv4_subnets [of 24 XZMJX_Little_Endian "new_IPv4Address XZMJX_Little_Endian [] 0xC0A80102 80"] by auto
qed

section \<open>The text of an IPv6 address\<close>

definition colons :: "string list \<Rightarrow> string" where
  "colons ss = concat (map (\<lambda>s. '':'' @ s) ss)"

text \<open>Texts separated by colons.\<close>

fun joined :: "string list \<Rightarrow> string" where
  "joined [] = []"
| "joined (s # ss) = s @ colons ss"

definition group_text :: "EndianType \<Rightarrow> u16 \<Rightarrow> string" where
  "group_text native g = hex (unat (EndianCastOnLittle native g))"

lemma ip6_loop_used:
  "ip6_loop native True (Some p) gs = (colons (map (group_text native) gs), True)"
  by (induction gs arbitrary: p) (simp_all add: colons_def group_text_def)

lemma ip6_loop_gap:
  "ip6_loop native False (Some 0) gs =
     (let s = dropWhile (\<lambda>g. g = 0) gs in
      if s = [] then ([], False) else ('':'' @ colons (map (group_text native) s), True))"
  by (induction gs) (simp_all add: ip6_loop_used colons_def group_text_def Let_def)

lemma ip6_loop_first:
  assumes "p \<noteq> Some 0"
  shows "ip6_loop native False p gs =
    (let q = map (group_text native) (takeWhile (\<lambda>g. g \<noteq> 0) gs);
         r = dropWhile (\<lambda>g. g \<noteq> 0) gs;
         s = dropWhile (\<lambda>g. g = 0) r in
     ((if p = None then joined q else colons q) @
      (if s = [] then [] else '':'' @ colons (map (group_text native) s)), s \<noteq> []))"
  using assms
proof (induction gs arbitrary: p)
  case (Cons g gs)
  show ?case
  proof (cases "g = 0")
    case True
    then show ?thesis by (simp add: ip6_loop_gap Let_def colons_def)
  next
    case False
    then show ?thesis
      using Cons.IH [of "Some g"] Cons.prems by (simp add: Let_def colons_def group_text_def)
  qed
qed (simp add: colons_def)

text \<open>What stands in front of and behind the first run of zero groups.\<close>

definition zero_front :: "u16 list \<Rightarrow> u16 list" where
  "zero_front gs = takeWhile (\<lambda>g. g \<noteq> 0) gs"

definition zero_back :: "u16 list \<Rightarrow> u16 list" where
  "zero_back gs = dropWhile (\<lambda>g. g = 0) (dropWhile (\<lambda>g. g \<noteq> 0) gs)"

lemma takeWhile_zero: "takeWhile (\<lambda>g. g = (0 :: u16)) gs = replicate (length (takeWhile (\<lambda>g. g = 0) gs)) 0"
  by (induction gs) simp_all

lemma zero_run:
  "gs = zero_front gs @ replicate (length gs - length (zero_front gs) - length (zero_back gs)) 0 @ zero_back gs"
proof -
  let ?r = "dropWhile (\<lambda>g. g \<noteq> 0) gs" and ?z = "takeWhile (\<lambda>g. g = 0) (dropWhile (\<lambda>g. g \<noteq> 0) gs)"
  have r: "?r = ?z @ zero_back gs" by (simp add: zero_back_def)
  have gs: "gs = zero_front gs @ ?z @ zero_back gs"
    unfolding r [symmetric] by (simp add: zero_front_def)
  have "length ?z = length gs - length (zero_front gs) - length (zero_back gs)"
    using arg_cong [OF gs, of length] by simp
  then have "?z = replicate (length gs - length (zero_front gs) - length (zero_back gs)) 0"
    using takeWhile_zero [of ?r] by simp
  then show ?thesis using gs by simp
qed

lemma length_groups: "length (groups native bs) = length bs div 2"
  by (induction native bs rule: groups.induct) auto

lemma colons_joined: "ss \<noteq> [] \<Longrightarrow> colons ss = '':'' @ joined ss"
  by (cases ss) (simp_all add: colons_def)

lemma zero_back_Nil: "zero_back gs = [] \<Longrightarrow> 0 \<in> set gs \<longleftrightarrow> gs \<noteq> [] \<and> last gs = 0"
proof (induction gs)
  case (Cons g gs)
  show ?case
  proof (cases "g = 0")
    case True
    then have "\<forall>x \<in> set gs. x = 0" using Cons.prems by (simp add: zero_back_def)
    then have "last (g # gs) = 0" using True last_in_set [of "g # gs"] by (metis list.distinct(1) set_ConsD)
    then show ?thesis using True by simp
  next
    case False
    then have "zero_back (g # gs) = zero_back gs" by (simp add: zero_back_def)
    then show ?thesis using Cons False by (cases "gs = []") simp_all
  qed
qed simp

lemma ip6_groups_text:
  assumes "length gs = 8"
  shows "(let (out, used_zero) = ip6_loop native False None gs in
      out @ (if \<not> used_zero \<and> gs ! 7 = 0 then ''::'' else [])) =
    (if 0 \<in> set gs
     then joined (map (group_text native) (zero_front gs)) @ ''::'' @ joined (map (group_text native) (zero_back gs))
     else joined (map (group_text native) gs))"
proof -
  have "gs \<noteq> []" using assms by auto
  then have seven: "gs ! 7 = last gs" "gs \<noteq> []" using assms by (simp_all add: last_conv_nth)
  have loop: "ip6_loop native False None gs =
      (joined (map (group_text native) (zero_front gs)) @
       (if zero_back gs = [] then [] else '':'' @ colons (map (group_text native) (zero_back gs))),
       zero_back gs \<noteq> [])"
    using ip6_loop_first [of None native gs, unfolded Let_def, folded zero_front_def zero_back_def] by simp
  have zero: "0 \<in> set gs" if "zero_back gs \<noteq> []"
  proof (rule ccontr)
    assume "0 \<notin> set gs"
    then have "dropWhile (\<lambda>g. g \<noteq> 0) gs = []" by auto
    then show False using that by (simp only: zero_back_def dropWhile.simps simp_thms)
  qed
  have front: "zero_front gs = gs" if "0 \<notin> set gs"
    using that unfolding zero_front_def by (intro takeWhile_eq_all_conv [THEN iffD2]) auto
  show ?thesis
    unfolding loop using zero front zero_back_Nil [of gs] seven by (auto simp: colons_joined)
qed

text \<open>The text of an IPv6 address is its eight groups in hexadecimal separated by colons, with the
  first run of zero groups, wherever it stands, written as two colons; what is printed in front of
  and behind them determines the address.\<close>

lemma ipv6_text:
  assumes "length (s6_addr a) = 16" and "gs = groups native (s6_addr a)"
  shows "ip6_insert native a =
      ''['' @ (if 0 \<in> set gs
               then joined (map (group_text native) (zero_front gs)) @ ''::'' @
                    joined (map (group_text native) (zero_back gs))
               else joined (map (group_text native) gs)) @
      '']:'' @ dec (unat (EndianCastOnLittle native (sin6_port a))) \<and>
    gs = zero_front gs @ replicate (8 - length (zero_front gs) - length (zero_back gs)) 0 @ zero_back gs"
proof -
  have len: "length gs = 8" using assms by (simp add: length_groups)
  then show ?thesis
    using ip6_groups_text [OF len, of native] zero_run [of gs]
    by (simp add: ip6_insert_def assms(2) [symmetric] case_prod_beta Let_def)
qed

lemma ipv6_text_example:
  "ip6_insert XZMJX_Little_Endian (new_IPv6Address\<lparr>s6_addr := [0x20, 1] @ replicate 13 0 @ [1]\<rparr>) = ''[2001::1]:0''"
proof -
  let ?a = "new_IPv6Address\<lparr>s6_addr := [0x20, 1] @ replicate 13 0 @ [1]\<rparr>"
  let ?gs = "groups XZMJX_Little_Endian (s6_addr ?a)"
  have gs: "?gs = [0x120, 0, 0, 0, 0, 0, 0, 0x100]" by code_simp
  have parts: "zero_front ?gs = [0x120]" "zero_back ?gs = [0x100]"
    unfolding gs by (simp_all add: zero_front_def zero_back_def)
  have swaps: "EndianCastOnLittle XZMJX_Little_Endian (0x120 :: u16) = 0x2001"
    "EndianCastOnLittle XZMJX_Little_Endian (0x100 :: u16) = 1"
    "EndianCastOnLittle XZMJX_Little_Endian (0 :: u16) = 0"
    by code_simp+
  have zero: "dec 0 = ''0''" by code_simp
  have texts: "group_text XZMJX_Little_Endian 0x120 = ''2001''" "group_text XZMJX_Little_Endian 0x100 = ''1''"
    "dec (unat (EndianCastOnLittle XZMJX_Little_Endian (sin6_port ?a))) = ''0''"
    using zero by (simp_all add: group_text_def swaps hex.simps new_IPv6Address_def)
  show ?thesis
    using ipv6_text [of ?a ?gs XZMJX_Little_Endian] texts
    unfolding parts by (simp add: gs colons_def)
qed

section \<open>IPv6 subnets\<close>

lemma nth_fold_update:
  "i < length bs \<Longrightarrow> fold (\<lambda>i bs. bs[i := v]) is bs ! i = (if i \<in> set is then v else bs ! i)"
  by (induction "is" arbitrary: bs) auto

lemma length_fold_update [simp]: "length (fold (\<lambda>i bs. bs[i := v]) is bs) = length bs"
  by (induction "is" arbitrary: bs) auto

text \<open>For a prefix shorter than 128 bits the bytes of the prefix are kept, those behind it are set
  (broadcast) or cleared (network), and the byte the prefix ends in is set or cleared behind the
  prefix; with 128 bits the byte behind the address is written.\<close>

lemma ip6_subnets:
  assumes "length (s6_addr a) = 16"
  shows "(p < 128 \<longrightarrow> (\<exists>b n m. ip6_broadcastAddress p a = Inr b \<and> ip6_networkAddress p a = Inr n \<and>
      CreateMask8 (p mod 8) = Inr m \<and>
      (\<forall>i < 16. s6_addr b ! i = (if i < unat p div 8 then s6_addr a ! i
         else if i = unat p div 8 then s6_addr a ! i OR m else 0xff)) \<and>
      (\<forall>i < 16. s6_addr n ! i = (if i < unat p div 8 then s6_addr a ! i
         else if i = unat p div 8 then s6_addr a ! i AND NOT m else 0)))) \<and>
    (128 \<le> p \<longrightarrow> ip6_broadcastAddress p a = Inl UndefinedBehaviour \<and>
       ip6_networkAddress p a = Inl UndefinedBehaviour \<and> ip6_subnetMask p = Inl UndefinedBehaviour)"
proof -
  have k: "unat (p div 8) = unat p div 8" by (simp add: unat_div)
  have "unat (p mod 8) < 8" by (simp add: unat_mod)
  then have "\<not> p mod 8 > 8" by (simp add: word_less_nat_alt)
  then obtain m where m: "CreateMask8 (p mod 8) = Inr m" by (simp add: CreateMask8_def)
  show ?thesis
    using assms m
    by (auto simp: ip6_broadcastAddress_def ip6_networkAddress_def ip6_subnetMask_def k Let_def fill_from_def
        nth_fold_update nth_list_update word_less_nat_alt word_le_nat_alt)
qed

section \<open>Paths, ports and host names\<close>

lemma port_round_trip:
  "ip4_getPort native (ip4_setPort native port a) = ucast port"
  "ip6_getPort native (ip6_setPort native port b) = ucast port"
  "host_addr native (new_IPv4Address native junk address port) = address"
  by (simp_all add: ip4_getPort_def ip4_setPort_def ip6_getPort_def ip6_setPort_def host_addr_def new_IPv4Address_def)

lemma c_str_path: "CHR 0x00 \<notin> set p \<Longrightarrow> c_str (p @ CHR 0x00 # q) = p"
  unfolding c_str_def by (subst takeWhile_append2) auto

lemma hd_notin: "c \<notin> set xs \<Longrightarrow> xs \<noteq> [] \<Longrightarrow> hd xs \<noteq> c"
  by (cases xs) auto

text \<open>A path of up to 107 bytes is read back; an abstract name is shown behind a backslash and 0.\<close>

lemma unix_path_round_trip:
  assumes "path \<noteq> []"
  shows "CHR 0x00 \<notin> set path \<and> length path \<le> 107 \<longrightarrow>
      (\<exists>a. new_UnixAddress_path path = Inr a \<and> un_getPath a = path \<and> un_length a = length path + 3)"
    and "length path \<le> 107 \<longrightarrow> (\<exists>a. new_UnixAddress_path (CHR 0x00 # path) = Inr a \<and>
      un_getPath a = [CHR 0x5C, CHR ''0''] @ path)"
    and "CHR 0x00 \<notin> set path \<and> length path > 107 \<longrightarrow> new_UnixAddress_path path = Inl PathTooLong"
  using assms c_str_path [of path] hd_notin [of "CHR 0x00" path]
  by (auto simp: new_UnixAddress_path_def un_getPath_def overwrite_def nth_append Let_def hd_conv_nth [symmetric])

lemma index_after_split: "c \<notin> set xs \<Longrightarrow> index_after c (xs @ c # ys) = Some ys"
  by (induction xs) auto

lemma index_after_None: "c \<notin> set xs \<Longrightarrow> index_after c xs = None"
  by (induction xs) auto

lemma takeWhile_split: "c \<notin> set xs \<Longrightarrow> takeWhile (\<lambda>x. x \<noteq> c) (xs @ c # ys) = xs"
  by (induction xs) auto

text \<open>A name with a port, an IPv6 address in brackets with a port, and a name alone are split as
  they are written; an IPv6 address without brackets is looked up with what follows its first
  colon, the colon included, as its service.\<close>

lemma split_host_cases:
  assumes "node \<noteq> []"
  shows "CHR '':'' \<notin> set node \<Longrightarrow> CHR '':'' \<notin> set service \<Longrightarrow> hd node \<noteq> CHR ''['' \<Longrightarrow>
      split_host (node @ '':'' @ service) = (node, Some service)"
    and "CHR '':'' \<notin> set node \<Longrightarrow> hd node \<noteq> CHR ''['' \<Longrightarrow> split_host node = (node, None)"
    and "CHR '']'' \<notin> set node \<Longrightarrow> split_host (''['' @ node @ '']:'' @ service) = (node, Some service)"
    and "CHR '']'' \<notin> set node \<Longrightarrow> split_host (''['' @ node @ '']'') = (node, None)"
    and "CHR '':'' \<notin> set node \<Longrightarrow> hd node \<noteq> CHR ''['' \<Longrightarrow> CHR '':'' \<in> set rest \<Longrightarrow>
      split_host (node @ '':'' @ rest) = (node @ '':'' @ rest, Some ('':'' @ rest))"
  using assms index_after_split [of _ node] takeWhile_split [of _ node] index_after_None
  by (auto simp: split_host_def Let_def nth_append hd_conv_nth [symmetric])

text \<open>The length of addresses never decides their order.\<close>

lemma memcmp_prefix: "memcmp as (as @ bs) (length as) = 0" "memcmp (as @ bs) as (length as) = 0"
  by (induction as) simp_all

lemma Address_less_length:
  assumes "addr_bytes native b = addr_bytes native a @ extra" and "length (addr_bytes native a) = getAddrLen a"
    and "getAddrLen a \<le> getAddrLen b"
  shows "\<not> Address_less native a b" and "\<not> Address_less native b a"
  using assms memcmp_prefix [of "addr_bytes native a" extra] by (simp_all add: Address_less_def Let_def min_def)

end
