(* ===== verification/Sockets.thy ===== *)
theory Sockets
  imports Hooks Addresses
begin

text \<open>
  The life of a socket (\<^verbatim>\<open>socket.cpp\<close>): creating, binding, listening, accepting, connecting and closing,
  timeouts, and the guards of the transfers.  The system calls are the hooked ones; what the kernel
  answers is an argument.  The state around a socket is the I/O manager of the thread, if it has
  one, and the descriptors the hooks know.
\<close>

section \<open>Sockets\<close>

definition SOCK_STREAM :: int where "SOCK_STREAM = 1"
definition SOCK_DGRAM :: int where "SOCK_DGRAM = 2"

text \<open>\<open>sk_opts\<close> records the options that were set, besides timeouts.\<close>

datatype sock_opt = SO_REUSEADDR | TCP_NODELAY

record Sock =
  sk_fd :: int
  sk_family :: u16
  sk_type :: int
  sk_protocol :: int
  sk_connected :: bool
  sk_local :: "Address option"
  sk_peer :: "Address option"
  sk_opts :: "sock_opt list"

definition new_Sock :: "u16 \<Rightarrow> int \<Rightarrow> int \<Rightarrow> Sock" where
  "new_Sock family type protocol =
     \<lparr>sk_fd = -1, sk_family = family, sk_type = type, sk_protocol = protocol, sk_connected = False,
      sk_local = None, sk_peer = None, sk_opts = []\<rparr>"

definition CreateTCP :: "Address \<Rightarrow> Sock" where
  "CreateTCP address = new_Sock (getFamily address) SOCK_STREAM 0"

definition CreateUDP :: "Address \<Rightarrow> Sock" where
  "CreateUDP address = new_Sock (getFamily address) SOCK_DGRAM 0"

definition CreateTCPSocket :: Sock where "CreateTCPSocket = new_Sock AF_INET SOCK_STREAM 0"
definition CreateUDPSocket :: Sock where "CreateUDPSocket = new_Sock AF_INET SOCK_DGRAM 0"
definition CreateTCPSocket6 :: Sock where "CreateTCPSocket6 = new_Sock AF_INET6 SOCK_STREAM 0"
definition CreateUDPSocket6 :: Sock where "CreateUDPSocket6 = new_Sock AF_INET6 SOCK_DGRAM 0"
definition CreateUnixTCPSocket :: Sock where "CreateUnixTCPSocket = new_Sock AF_UNIX SOCK_STREAM 0"
definition CreateUnicUDPSocket :: Sock where "CreateUnicUDPSocket = new_Sock AF_UNIX SOCK_DGRAM 0"

definition sk_isVaild :: "Sock \<Rightarrow> bool" where
  "sk_isVaild s \<longleftrightarrow> sk_fd s \<noteq> -1"

section \<open>Options and timeouts\<close>

definition getSockTimeout :: "timeout_type \<Rightarrow> Sock \<Rightarrow> hooks \<Rightarrow> u64" where
  "getSockTimeout type s h =
     (case fst (FdManager_get (sk_fd s) False h) of Some ctx \<Rightarrow> getTimeout type ctx | None \<Rightarrow> - 1)"

definition getSendTimeout :: "Sock \<Rightarrow> hooks \<Rightarrow> u64" where
  "getSendTimeout s h = getSockTimeout SO_SNDTIMEO s h"

definition getRecvTimeout :: "Sock \<Rightarrow> hooks \<Rightarrow> u64" where
  "getRecvTimeout s h = getSockTimeout SO_RCVTIMEO s h"

text \<open>The fields of the \<^verbatim>\<open>timeval\<close> are converted to \<^verbatim>\<open>int\<close> first.\<close>

definition tv_field :: "u64 \<Rightarrow> u64" where
  "tv_field v = scast (ucast v :: u32)"

definition setSockTimeout :: "timeout_type \<Rightarrow> u64 \<Rightarrow> Sock \<Rightarrow> hooks \<Rightarrow> hooks" where
  "setSockTimeout type v s h =
     hook_setsockopt (sk_fd s) type (tv_field (v div 1000)) (tv_field (v mod 1000 * 1000)) h"

definition setSendTimeout :: "u64 \<Rightarrow> Sock \<Rightarrow> hooks \<Rightarrow> hooks" where
  "setSendTimeout v s h = setSockTimeout SO_SNDTIMEO v s h"

definition setRecvTimeout :: "u64 \<Rightarrow> Sock \<Rightarrow> hooks \<Rightarrow> hooks" where
  "setRecvTimeout v s h = setSockTimeout SO_RCVTIMEO v s h"

text \<open>\<^verbatim>\<open>getError\<close>: the value of the option, or the error number when reading it fails.\<close>

definition sk_getError :: "nat + nat \<Rightarrow> nat" where
  "sk_getError opt = (case opt of Inl errno \<Rightarrow> errno | Inr error \<Rightarrow> error)"

definition initSock :: "Sock \<Rightarrow> Sock" where
  "initSock s =
     (let s = s\<lparr>sk_opts := sk_opts s @ [SO_REUSEADDR]\<rparr> in
      if sk_type s = SOCK_STREAM then s\<lparr>sk_opts := sk_opts s @ [TCP_NODELAY]\<rparr> else s)"

section \<open>Addresses of a socket\<close>

text \<open>\<open>name\<close> is what \<^verbatim>\<open>getsockname\<close> (or \<^verbatim>\<open>getpeername\<close>) stores, \<open>None\<close> when it fails.\<close>

definition getLocalAddress :: "Address option \<Rightarrow> Sock \<Rightarrow> Address \<times> Sock" where
  "getLocalAddress name s =
     (case sk_local s of
        Some a \<Rightarrow> (a, s)
      | None \<Rightarrow>
          (case name of
             None \<Rightarrow> (Unknown (new_UnknownAddress (sk_family s)), s)
           | Some a \<Rightarrow> (a, s\<lparr>sk_local := Some a\<rparr>)))"

definition getPeerAddress :: "Address option \<Rightarrow> Sock \<Rightarrow> Address \<times> Sock" where
  "getPeerAddress name s =
     (case sk_peer s of
        Some a \<Rightarrow> (a, s)
      | None \<Rightarrow>
          (case name of
             None \<Rightarrow> (Unknown (new_UnknownAddress (sk_family s)), s)
           | Some a \<Rightarrow> (a, s\<lparr>sk_peer := Some a\<rparr>)))"

definition sk_dump :: "EndianType \<Rightarrow> Sock \<Rightarrow> string" where
  "sk_dump native s =
     ''[socket sock='' @ show_int (sk_fd s) @ '' is_connect='' @ show_flag (sk_connected s) @
     '' family='' @ dec (unat (sk_family s)) @ '' type='' @ show_int (sk_type s) @
     '' protocol='' @ show_int (sk_protocol s) @
     (case sk_local s of Some a \<Rightarrow> '' local_address='' @ addr_toString native a | None \<Rightarrow> []) @
     (case sk_peer s of Some a \<Rightarrow> '' peer_address='' @ addr_toString native a | None \<Rightarrow> []) @ '']''"

section \<open>Opening and closing\<close>

record kernel_answer =
  ka_fd :: int
  ka_ok :: bool
  ka_local :: "Address option"
  ka_peer :: "Address option"

text \<open>\<open>ka_fd\<close> is the descriptor \<^verbatim>\<open>socket\<close> gives, \<open>ka_ok\<close> whether the call itself succeeds.\<close>

definition newSock :: "kernel_answer \<Rightarrow> Sock \<times> hooks \<Rightarrow> Sock \<times> hooks" where
  "newSock k = (\<lambda>(s, h).
     let (fd, h) = hook_socket (ka_fd k) h; s = s\<lparr>sk_fd := fd\<rparr>
     in if sk_fd s \<noteq> -1 then (initSock s, h) else (s, h))"

definition sk_bind :: "kernel_answer \<Rightarrow> Address \<Rightarrow> Sock \<times> hooks \<Rightarrow> bool \<times> Sock \<times> hooks" where
  "sk_bind k addr = (\<lambda>(s, h).
     let (s, h) = (if \<not> sk_isVaild s then newSock k (s, h) else (s, h)) in
     if \<not> sk_isVaild s then (False, s, h)
     else if \<not> ka_ok k then (False, s, h)
     else (True, snd (getLocalAddress (ka_local k) s), h))"

definition sk_listen :: "bool \<Rightarrow> Sock \<Rightarrow> bool" where
  "sk_listen ok s = ok"

text \<open>\<^verbatim>\<open>Socket::init\<close>: a descriptor is taken over when the hooks know it as an open socket.\<close>

definition sk_init :: "kernel_answer \<Rightarrow> int \<Rightarrow> Sock \<times> hooks \<Rightarrow> bool \<times> Sock" where
  "sk_init k sock = (\<lambda>(s, h).
     case fst (FdManager_get sock False h) of
       None \<Rightarrow> (False, s)
     | Some ctx \<Rightarrow>
         if m_is_socket ctx \<and> \<not> m_is_closed ctx then
           let s = s\<lparr>sk_fd := sock, sk_connected := True\<rparr>;
               s = initSock s;
               s = snd (getLocalAddress (ka_local k) s);
               s = snd (getPeerAddress (ka_peer k) s)
           in (True, s)
         else (False, s))"

text \<open>\<^verbatim>\<open>Socket::accept\<close>, for the attempts of the system call; \<open>None\<close> while it waits.\<close>

definition sk_accept ::
  "kernel_answer \<Rightarrow> (call_result \<times> wait) list \<Rightarrow> Sock \<times> hooks \<Rightarrow> Sock option option \<times> hooks" where
  "sk_accept k env = (\<lambda>(s, h).
     let sock = new_Sock (sk_family s) (sk_type s) (sk_protocol s);
         ((r, ops), h) = hook_accept (sk_fd s) env h in
     case r of
       None \<Rightarrow> (None, h)
     | Some (Failed e) \<Rightarrow> (Some None, h)
     | Some (Returned client_sock) \<Rightarrow>
         if client_sock = -1 then (Some None, h)
         else
           let (ok, sock) = sk_init k client_sock (sock, h)
           in (Some (if ok then Some sock else None), h))"

text \<open>The state around a socket; \<open>ok\<close> and \<open>ok'\<close> are the answers of \<^verbatim>\<open>epoll_ctl\<close> during \<^verbatim>\<open>close\<close>.  In a
  function that returns \<^verbatim>\<open>bool\<close>, \<^verbatim>\<open>return -1\<close> is \<^verbatim>\<open>true\<close>.\<close>

definition sk_close ::
  "bool \<Rightarrow> bool \<Rightarrow> Sock \<times> IOManager option \<times> hooks \<Rightarrow>
   hook_error + bool \<times> Sock \<times> IOManager option \<times> hooks" where
  "sk_close ok ok' = (\<lambda>(s, iom, h).
     if \<not> sk_connected s \<and> sk_fd s = -1 then Inr (True, s, iom, h)
     else
       let s = s\<lparr>sk_connected := False\<rparr> in
       if sk_fd s \<noteq> -1 then
         rbind (hook_close ok ok' (sk_fd s) iom h) (\<lambda>(iom, h). Inr (True, s\<lparr>sk_fd := -1\<rparr>, iom, h))
       else Inr (True, s, iom, h))"

text \<open>\<^verbatim>\<open>connect\<close>: \<open>r\<close> is the result of the hooked call, with or without a timeout.\<close>

definition sk_connect ::
  "bool \<Rightarrow> bool \<Rightarrow> kernel_answer \<Rightarrow> (u64 option \<Rightarrow> call_result) \<Rightarrow> Address \<Rightarrow> u64 \<Rightarrow>
   Sock \<times> IOManager option \<times> hooks \<Rightarrow> hook_error + bool \<times> Sock \<times> IOManager option \<times> hooks" where
  "sk_connect ok ok' k r addr timeout_ms = (\<lambda>(s, iom, h).
     let s = s\<lparr>sk_peer := Some addr\<rparr>;
         (s, h) = (if \<not> sk_isVaild s then newSock k (s, h) else (s, h)) in
     if \<not> sk_isVaild s then Inr (False, s, iom, h)
     else if r (if timeout_ms = - 1 then None else Some timeout_ms) \<noteq> Returned 0 then
       rbind (sk_close ok ok' (s, iom, h)) (\<lambda>(b, st). Inr (False, st))
     else
       let s = s\<lparr>sk_connected := True\<rparr>;
           s = snd (getPeerAddress (ka_peer k) s);
           s = snd (getLocalAddress (ka_local k) s)
       in Inr (True, s, iom, h))"

text \<open>\<^verbatim>\<open>reconnect\<close>; without a peer the null pointer is followed.\<close>

definition sk_reconnect ::
  "bool \<Rightarrow> bool \<Rightarrow> kernel_answer \<Rightarrow> (u64 option \<Rightarrow> call_result) \<Rightarrow> u64 \<Rightarrow>
   Sock \<times> IOManager option \<times> hooks \<Rightarrow> (hook_error + bool \<times> Sock \<times> IOManager option \<times> hooks) option" where
  "sk_reconnect ok ok' k r timeout_ms = (\<lambda>(s, iom, h).
     case sk_peer s of
       None \<Rightarrow> None
     | Some addr \<Rightarrow> Some (sk_connect ok ok' k r addr timeout_ms (s\<lparr>sk_local := None\<rparr>, iom, h)))"

section \<open>Transfers\<close>

text \<open>A transfer on a socket that is not connected returns -1 (\<open>None\<close>) without a system call.\<close>

type_synonym transfer =
  "(sys_fun \<Rightarrow> (call_result \<times> wait) list) \<Rightarrow> Sock \<Rightarrow> hooks \<Rightarrow> (call_result option \<times> io_op list) option"

definition sk_transfer :: "sys_fun \<Rightarrow> transfer" where
  "sk_transfer f env s h = (if sk_connected s then Some (hooked_io f (sk_fd s) env h) else None)"

definition sk_send :: transfer where
  "sk_send = sk_transfer f_send"

definition sk_sendv :: transfer where
  "sk_sendv = sk_transfer f_sendmsg"

definition sk_sendTo :: transfer where
  "sk_sendTo = sk_transfer f_sendto"

definition sk_sendTov :: transfer where
  "sk_sendTov = sk_transfer f_sendmsg"

definition sk_recv :: transfer where
  "sk_recv = sk_transfer f_recv"

definition sk_recvv :: transfer where
  "sk_recvv = sk_transfer f_recvmsg"

definition sk_recvFrom :: transfer where
  "sk_recvFrom = sk_transfer f_recvfrom"

definition sk_recvFromv :: transfer where
  "sk_recvFromv = sk_transfer f_recvmsg"

definition cancelRead :: "bool \<Rightarrow> Sock \<Rightarrow> IOManager \<Rightarrow> io_error + bool \<times> IOManager" where
  "cancelRead ok s m = cancelEvent ok (sk_fd s) Event_READ m"

definition cancelWrite :: "bool \<Rightarrow> Sock \<Rightarrow> IOManager \<Rightarrow> io_error + bool \<times> IOManager" where
  "cancelWrite ok s m = cancelEvent ok (sk_fd s) Event_WRITE m"

definition sk_cancelAll :: "bool \<Rightarrow> Sock \<Rightarrow> IOManager \<Rightarrow> io_error + bool \<times> IOManager" where
  "sk_cancelAll ok s m = IO_Manager.cancelAll ok (sk_fd s) m"

definition cancelAccept :: "bool \<Rightarrow> Sock \<Rightarrow> IOManager \<Rightarrow> io_error + bool \<times> IOManager" where
  "cancelAccept ok s m = cancelEvent ok (sk_fd s) Event_READ m"

section \<open>Timeouts\<close>

lemma sint_small:
  assumes "unat (w :: 'a::len word) < 2 ^ (LENGTH('a) - 1)"
  shows "sint w = int (unat w)"
proof -
  have "int (unat w) < 2 ^ (LENGTH('a) - 1)"
    using assms by (metis of_nat_less_iff of_nat_numeral of_nat_power)
  then have "signed_take_bit (LENGTH('a) - 1) (uint w) = uint w"
    by (simp add: signed_take_bit_int_eq_self_iff order_trans [OF _ uint_ge_0])
  then show ?thesis by (simp add: sint_uint)
qed

lemma tv_small:
  assumes "unat v < 2 ^ 31"
  shows "tv_field v = v"
proof -
  have "unat (ucast v :: u32) = unat v"
    using assms by (simp add: unsigned_ucast_eq take_bit_nat_eq_self)
  then have "sint (ucast v :: u32) = int (unat v)"
    using assms sint_small [of "ucast v :: u32"] by simp
  moreover have "tv_field v = word_of_int (sint (ucast v :: u32))" by (simp add: tv_field_def)
  ultimately show ?thesis by simp
qed

lemma tv_usec: "tv_field (v mod 1000 * 1000) = v mod 1000 * 1000 \<and>
  of_int (sint (v mod 1000 * 1000) sdiv 1000) = v mod 1000"
proof -
  have m: "unat (v mod 1000) < 1000" by (simp add: unat_mod)
  then have u: "unat (v mod 1000 * 1000) = unat (v mod 1000) * 1000"
    by (simp add: unat_mult_lem [THEN iffD1])
  then have small: "unat (v mod 1000 * 1000) < 2 ^ 31" using m by simp
  have "sint (v mod 1000 * 1000) = int (unat (v mod 1000)) * 1000"
    using u m sint_small [of "v mod 1000 * 1000"] by simp
  moreover have "(int n * 1000) sdiv 1000 = int n" for n
    by (cases "n = 0") (simp_all add: signed_divide_int_def sgn_if)
  ultimately have "sint (v mod 1000 * 1000) sdiv 1000 = int (unat (v mod 1000))" by (simp only:)
  then show ?thesis using tv_small [OF small] by simp
qed

lemma timeout_read_back:
  assumes "t_enable_hook h" and "fst (FdManager_get (sk_fd s) False h) = Some ctx"
  shows "(v < 2147483648000 \<longrightarrow> getRecvTimeout s (setRecvTimeout v s h) = v \<and>
      getSendTimeout s (setSendTimeout v s h) = v) \<and>
    getRecvTimeout s (setRecvTimeout v s h) = tv_field (v div 1000) * 1000 + v mod 1000 \<and>
    getSendTimeout s (setRecvTimeout v s h) = getSendTimeout s h \<and>
    getRecvTimeout s (setSendTimeout v s h) = getRecvTimeout s h"
proof -
  have set: "fst (FdManager_get (sk_fd s) False (setSockTimeout t v s h)) =
      Some (setTimeout t (tv_field (v div 1000) * 1000 + v mod 1000) ctx)" for t
    using assms get_put [OF assms(2), where k = "kern h"] tv_usec [of v]
    by (simp add: setSockTimeout_def hook_setsockopt_def put_ctx_def)
  have "tv_field (v div 1000) * 1000 + v mod 1000 = v" if "v < 2147483648000"
  proof -
    have "unat v < 2147483648000" using that by (simp add: word_less_nat_alt)
    then have "unat (v div 1000) < 2 ^ 31" by (simp add: unat_div)
    then show ?thesis using tv_small [of "v div 1000"] div_mult_mod_eq [of v 1000] by simp
  qed
  then show ?thesis
    using set assms(2)
    by (simp add: getRecvTimeout_def getSendTimeout_def setRecvTimeout_def setSendTimeout_def
        getSockTimeout_def getTimeout_def setTimeout_def)
qed

text \<open>C40: A timeout of a socket the hooks know is read back as it was set when its seconds fit an
  \<^verbatim>\<open>int\<close>, that is, up to 2147483647999 milliseconds, and the other timeout keeps its value; the seconds
  of longer ones are cut to 32 bits and sign-extended.\<close>

theorem socket_timeout_round_trip:
  assumes "t_enable_hook h" and "fst (FdManager_get (sk_fd s) False h) = Some ctx"
  shows "(v < 2147483648000 \<longrightarrow> getRecvTimeout s (setRecvTimeout v s h) = v \<and>
      getSendTimeout s (setSendTimeout v s h) = v) \<and>
    getRecvTimeout s (setRecvTimeout v s h) = tv_field (v div 1000) * 1000 + v mod 1000 \<and>
    getSendTimeout s (setRecvTimeout v s h) = getSendTimeout s h \<and>
    getRecvTimeout s (setSendTimeout v s h) = getRecvTimeout s h"
  using assms by (rule timeout_read_back)

definition socket_fd_hooks :: hooks where
  "socket_fd_hooks =
     \<lparr>t_enable_hook = True,
      m_container = replicate 5 None @ [Some (fst (FdCtx_new 5 \<lparr>is_sock = (\<lambda>_. Some True), status_flags = (\<lambda>_. 0)\<rparr>))],
      kern = \<lparr>is_sock = (\<lambda>_. Some True), status_flags = (\<lambda>_. 0)\<rparr>\<rparr>"

theorem socket_timeout_round_trip_witness:
  "getRecvTimeout (CreateTCPSocket\<lparr>sk_fd := 5\<rparr>)
     (setRecvTimeout 120000 (CreateTCPSocket\<lparr>sk_fd := 5\<rparr>) socket_fd_hooks) = 120000"
proof -
  have "\<exists>ctx. fst (FdManager_get (sk_fd (CreateTCPSocket\<lparr>sk_fd := 5\<rparr>)) False socket_fd_hooks) = Some ctx"
    by (simp add: FdManager_get_def socket_fd_hooks_def nth_append)
  then show ?thesis
    using socket_timeout_round_trip [of socket_fd_hooks "CreateTCPSocket\<lparr>sk_fd := 5\<rparr>" _ 120000]
    by (auto simp: socket_fd_hooks_def)
qed

section \<open>Accepting\<close>

lemma FdCtx_new_socket:
  assumes "is_sock k fd = Some b"
  shows "m_is_socket (fst (FdCtx_new fd k)) = b \<and> \<not> m_is_closed (fst (FdCtx_new fd k))"
  using assms by (simp add: FdCtx_new_def FdCtx_init_def Let_def split: prod.splits if_splits)

lemma get_create:
  assumes "0 \<le> fd" and "fst (FdManager_get fd False h) = None" and "fd > 1 \<or> nat fd < length (m_container h)"
  shows "fst (FdManager_get fd False (snd (FdManager_get fd True h))) = Some (fst (FdCtx_new fd (kern h)))"
  using assms
  by (auto simp: FdManager_get_def Let_def list_resize_def nth_append split: if_splits prod.splits)
lemma initSock_simps [simp]:
  "sk_fd (initSock s) = sk_fd s" "sk_connected (initSock s) = sk_connected s"
  "sk_family (initSock s) = sk_family s" "sk_type (initSock s) = sk_type s"
  by (simp_all add: initSock_def Let_def)

lemma address_simps [simp]:
  "sk_fd (snd (getLocalAddress n s)) = sk_fd s" "sk_connected (snd (getLocalAddress n s)) = sk_connected s"
  "sk_fd (snd (getPeerAddress n s)) = sk_fd s" "sk_connected (snd (getPeerAddress n s)) = sk_connected s"
  "sk_family (snd (getLocalAddress n s)) = sk_family s" "sk_family (snd (getPeerAddress n s)) = sk_family s"
  by (simp_all add: getLocalAddress_def getPeerAddress_def split: option.split)

lemma accept_core:
  assumes "fst (do_io (sk_fd s) Event_READ SO_RCVTIMEO env h) = Some (Returned fd)" and "1 < fd"
    and "fst (FdManager_get fd False h) = None" and "is_sock (kern h) fd = Some True"
  shows "(t_enable_hook h \<longrightarrow>
      (\<exists>c h'. sk_accept k env (s, h) = (Some (Some c), h') \<and> sk_fd c = fd \<and> sk_connected c \<and>
         sk_family c = sk_family s \<and> fst (FdManager_get fd False h') \<noteq> None \<and>
         status_flags (kern h') fd AND O_NONBLOCK \<noteq> 0)) \<and>
    (\<not> t_enable_hook h \<longrightarrow> sk_accept k env (s, h) = (Some None, h))"
proof -
  obtain ops where io: "do_io (sk_fd s) Event_READ SO_RCVTIMEO env h = (Some (Returned fd), ops)"
    using assms(1) by (cases "do_io (sk_fd s) Event_READ SO_RCVTIMEO env h") simp
  let ?h = "snd (FdManager_get fd True h)"
  have ctx: "fst (FdManager_get fd False ?h) = Some (fst (FdCtx_new fd (kern h)))"
    using get_create [of fd h] assms(2,3) by simp
  have new: "m_is_socket (fst (FdCtx_new fd (kern h)))" "\<not> m_is_closed (fst (FdCtx_new fd (kern h)))"
    using FdCtx_new_socket [OF assms(4)] by simp_all
  have kern: "kern ?h = snd (FdCtx_new fd (kern h))"
    using assms(2,3) by (auto simp: FdManager_get_def Let_def split: if_splits prod.splits)
  have "status_flags (kern ?h) fd AND O_NONBLOCK \<noteq> 0"
    using assms(4) nonblock_real(1) unfolding kern by (auto simp: FdCtx_new_def FdCtx_init_def Let_def)
  then show ?thesis
    using io ctx new assms(2,3)
    by (auto simp: sk_accept_def hook_accept_def sk_init_def new_Sock_def Let_def)
qed

lemma accept_example:
  "fst (do_io (sk_fd (CreateTCPSocket\<lparr>sk_fd := 5\<rparr>)) Event_READ SO_RCVTIMEO [(Returned 7, Woken)] socket_fd_hooks) =
     Some (Returned 7)"
  "fst (FdManager_get 7 False socket_fd_hooks) = None"
  "is_sock (kern socket_fd_hooks) 7 = Some True" "t_enable_hook socket_fd_hooks"
  by (simp_all add: do_io_def FdManager_get_def socket_fd_hooks_def nth_append FdCtx_new_def FdCtx_init_def Let_def)

text \<open>C30: When the kernel delivers a connection, a server whose calls are hooked gets a connected
  socket of that descriptor and the family of the listening socket, the descriptor is known to the
  hooks, and the kernel's descriptor is non-blocking; without hooks the connection is dropped,
  and its descriptor is neither kept nor closed.\<close>

theorem accept_outcome:
  assumes "fst (do_io (sk_fd s) Event_READ SO_RCVTIMEO env h) = Some (Returned fd)" and "1 < fd"
    and "fst (FdManager_get fd False h) = None" and "is_sock (kern h) fd = Some True"
  shows "(t_enable_hook h \<longrightarrow>
      (\<exists>c h'. sk_accept k env (s, h) = (Some (Some c), h') \<and> sk_fd c = fd \<and> sk_connected c \<and>
         sk_family c = sk_family s \<and> fst (FdManager_get fd False h') \<noteq> None \<and>
         status_flags (kern h') fd AND O_NONBLOCK \<noteq> 0)) \<and>
    (\<not> t_enable_hook h \<longrightarrow> sk_accept k env (s, h) = (Some None, h))"
  using assms by (rule accept_core)

theorem accept_outcome_witness:
  "\<exists>c h'. sk_accept \<lparr>ka_fd = 0, ka_ok = True, ka_local = None, ka_peer = None\<rparr> [(Returned 7, Woken)]
       (CreateTCPSocket\<lparr>sk_fd := 5\<rparr>, socket_fd_hooks) = (Some (Some c), h') \<and> sk_fd c = 7"
  using accept_outcome [OF accept_example(1) _ accept_example(2,3)] accept_example(4) by fastforce

section \<open>Connected sockets have a descriptor\<close>

definition sock_ok :: "Sock \<Rightarrow> bool" where
  "sock_ok s \<longleftrightarrow> (sk_connected s \<longrightarrow> sk_isVaild s)"

lemma newSock_simps: "sk_connected (fst (newSock k (s, h))) = sk_connected s"
  by (simp add: newSock_def Let_def split: prod.splits)

lemma sock_ok_new: "sock_ok (new_Sock family type protocol)"
  by (simp add: sock_ok_def new_Sock_def)

lemma sock_ok_bind: "sock_ok s \<Longrightarrow> sk_bind k addr (s, h) = (b, s', h') \<Longrightarrow> sock_ok s' \<and> (b \<longrightarrow> sk_isVaild s')"
  using newSock_simps [of k s h]
  by (auto simp: sk_bind_def sock_ok_def sk_isVaild_def Let_def split: prod.splits if_splits)

lemma sock_ok_close:
  "sk_close ok ok' (s, iom, h) = Inr (b, s', st) \<Longrightarrow> b \<and> sock_ok s' \<and> \<not> sk_connected s' \<and> \<not> sk_isVaild s'"
  by (auto simp: sk_close_def sock_ok_def sk_isVaild_def Let_def rbind_eq_Inr split: if_splits)

lemma sock_ok_connect:
  assumes "sock_ok s" and "sk_connect ok ok' k r addr t (s, iom, h) = Inr (b, s', st)"
  shows "sock_ok s' \<and> (b \<longrightarrow> sk_connected s' \<and> sk_isVaild s')"
  using assms sock_ok_close newSock_simps [of k "s\<lparr>sk_peer := Some addr\<rparr>" h]
  by (fastforce simp: sk_connect_def sock_ok_def sk_isVaild_def Let_def rbind_eq_Inr
      split: prod.splits if_splits)

lemma sock_ok_init: "sock_ok s \<Longrightarrow> fd \<noteq> -1 \<Longrightarrow> sk_init k fd (s, h) = (b, s') \<Longrightarrow> sock_ok s'"
  by (auto simp: sk_init_def sock_ok_def sk_isVaild_def Let_def split: option.splits if_splits)

end
