(* ===== verification/Tcp_Server.thy ===== *)
theory Tcp_Server
  imports Sockets "HOL-Library.Multiset"
begin

text \<open>
  The TCP server (\<^verbatim>\<open>tcp_server.cpp\<close>): binding a list of addresses, starting, accepting and stopping.
  The schedulers it hands tasks to are the lists of the tasks submitted to them.  Descriptors of
  sockets that the server drops are closed by the destructor of the socket, unless a task that accepts
  on the socket still holds it; \<open>ts_closed\<close> records the closed ones.
\<close>

datatype tcp_task = StartAccept Sock | StopTask | HandleClient Sock

record TcpServer =
  ts_listen_socks :: "Sock list"
  ts_recv_timeout :: u64
  ts_name :: string
  ts_type :: string
  ts_is_stop :: bool
  ts_accept_worker :: "tcp_task list"
  ts_io_worker :: "tcp_task list"
  ts_closed :: "int list"

text \<open>The constructors of the servers, with the configured timeout.\<close>

definition new_TcpServer :: "u64 \<Rightarrow> TcpServer" where
  "new_TcpServer read_timeout =
     \<lparr>ts_listen_socks = [], ts_recv_timeout = read_timeout, ts_name = ''xzmjx/1.0.0'', ts_type = ''tcp'',
      ts_is_stop = True, ts_accept_worker = [], ts_io_worker = [], ts_closed = []\<rparr>"

definition new_HttpServer :: "u64 \<Rightarrow> TcpServer" where
  "new_HttpServer read_timeout = (new_TcpServer read_timeout)\<lparr>ts_type := ''http''\<rparr>"

definition new_WSServer :: "u64 \<Rightarrow> TcpServer" where
  "new_WSServer read_timeout = (new_TcpServer read_timeout)\<lparr>ts_type := ''websocket_server''\<rparr>"

definition ts_setRecvTimeout :: "u64 \<Rightarrow> TcpServer \<Rightarrow> TcpServer" where
  "ts_setRecvTimeout v ts = ts\<lparr>ts_recv_timeout := v\<rparr>"

definition ts_setName :: "string \<Rightarrow> TcpServer \<Rightarrow> TcpServer" where
  "ts_setName v ts = ts\<lparr>ts_name := v\<rparr>"

text \<open>The descriptors that dropping sockets closes.\<close>

definition drop_socks :: "Sock list \<Rightarrow> int list" where
  "drop_socks ss = map sk_fd (filter sk_isVaild ss)"

definition released :: "TcpServer \<Rightarrow> int list" where
  "released ts =
     drop_socks (filter (\<lambda>s. StartAccept s \<notin> set (ts_accept_worker ts)) (ts_listen_socks ts))"

definition ts_destroy :: "TcpServer \<Rightarrow> TcpServer" where
  "ts_destroy ts =
     ts\<lparr>ts_closed := ts_closed ts @ drop_socks (ts_listen_socks ts), ts_listen_socks := []\<rparr>"

text \<open>\<^verbatim>\<open>bind\<close>: the answers of the kernel for each address, and whether \<^verbatim>\<open>listen\<close> succeeds.  A socket that
  fails is dropped at once.\<close>

fun bind_loop ::
  "(Address \<times> kernel_answer \<times> bool) list \<Rightarrow> Address list \<Rightarrow> TcpServer \<times> hooks \<Rightarrow> Address list \<times> TcpServer \<times> hooks" where
  "bind_loop [] fails (ts, h) = (fails, ts, h)"
| "bind_loop ((addr, k, listen_ok) # addrs) fails (ts, h) =
     (let sock = CreateTCP addr; (ok, sock, h) = sk_bind k addr (sock, h) in
      if \<not> ok then bind_loop addrs (fails @ [addr]) (ts\<lparr>ts_closed := ts_closed ts @ drop_socks [sock]\<rparr>, h)
      else if \<not> sk_listen listen_ok sock then
        bind_loop addrs (fails @ [addr]) (ts\<lparr>ts_closed := ts_closed ts @ drop_socks [sock]\<rparr>, h)
      else bind_loop addrs fails (ts\<lparr>ts_listen_socks := ts_listen_socks ts @ [sock]\<rparr>, h))"

definition ts_bind_all ::
  "(Address \<times> kernel_answer \<times> bool) list \<Rightarrow> Address list \<Rightarrow> TcpServer \<times> hooks \<Rightarrow>
   bool \<times> Address list \<times> TcpServer \<times> hooks" where
  "ts_bind_all addrs fails st =
     (let (fails, ts, h) = bind_loop addrs fails st in
      if fails \<noteq> [] then
        (False, fails, ts\<lparr>ts_listen_socks := [], ts_closed := ts_closed ts @ released ts\<rparr>, h)
      else (True, fails, ts, h))"

definition ts_bind :: "Address \<times> kernel_answer \<times> bool \<Rightarrow> TcpServer \<times> hooks \<Rightarrow> bool \<times> Address list \<times> TcpServer \<times> hooks" where
  "ts_bind addr st = ts_bind_all [addr] [] st"

definition ts_start :: "TcpServer \<Rightarrow> bool \<times> TcpServer" where
  "ts_start ts =
     (if \<not> ts_is_stop ts then (True, ts)
      else (True, ts\<lparr>ts_is_stop := False,
                     ts_accept_worker := ts_accept_worker ts @ map StartAccept (ts_listen_socks ts)\<rparr>))"

definition ts_stop :: "TcpServer \<Rightarrow> TcpServer" where
  "ts_stop ts = ts\<lparr>ts_is_stop := True, ts_accept_worker := ts_accept_worker ts @ [StopTask]\<rparr>"

text \<open>The task that \<^verbatim>\<open>stop\<close> submits: the waits on the sockets are cancelled and the sockets closed.\<close>

definition run_stop :: "TcpServer \<Rightarrow> TcpServer" where
  "run_stop ts = ts\<lparr>ts_listen_socks := [], ts_closed := ts_closed ts @ drop_socks (ts_listen_socks ts)\<rparr>"

text \<open>\<^verbatim>\<open>startAccept\<close>.  Each round of the loop reads the flag and then accepts; \<open>rounds\<close> says what it
  finds: the flag, and the answers for the call of \<^verbatim>\<open>accept\<close>.  The result is whether the loop has ended
  (else it waits in \<^verbatim>\<open>accept\<close>), the tasks it submitted and the hooks.\<close>

fun startAccept ::
  "u64 \<Rightarrow> Sock \<Rightarrow> (bool \<times> kernel_answer \<times> (call_result \<times> wait) list) list \<Rightarrow> tcp_task list \<times> hooks \<Rightarrow>
   bool \<times> tcp_task list \<times> hooks" where
  "startAccept timeout sock [] (tasks, h) = (False, tasks, h)"
| "startAccept timeout sock ((is_stop, k, env) # rounds) (tasks, h) =
     (if is_stop then (True, tasks, h)
      else
        case sk_accept k env (sock, h) of
          (None, h) \<Rightarrow> (False, tasks, h)
        | (Some None, h) \<Rightarrow> startAccept timeout sock rounds (tasks, h)
        | (Some (Some client), h) \<Rightarrow>
            startAccept timeout sock rounds (tasks @ [HandleClient client], setRecvTimeout timeout client h))"

section \<open>Binding\<close>

lemma drop_socks_append [simp]: "drop_socks (as @ bs) = drop_socks as @ drop_socks bs"
  by (simp add: drop_socks_def)

text \<open>The descriptors a call of \<^verbatim>\<open>bind\<close> opened, whether or not they are kept.\<close>

definition opened :: "(Address \<times> kernel_answer \<times> bool) list \<Rightarrow> int list" where
  "opened addrs = filter (\<lambda>fd. fd \<noteq> -1) (map (\<lambda>(addr, k, listen_ok). ka_fd k) addrs)"

definition bind_fails :: "Address \<times> kernel_answer \<times> bool \<Rightarrow> bool" where
  "bind_fails x = (case x of (addr, k, listen_ok) \<Rightarrow> ka_fd k = -1 \<or> \<not> ka_ok k \<or> \<not> listen_ok)"

lemma bind_new_sock:
  assumes "sk_bind k addr (CreateTCP addr, h) = (ok, sock, h')"
  shows "ok \<longleftrightarrow> ka_fd k \<noteq> -1 \<and> ka_ok k" and "sk_fd sock = ka_fd k" and "sk_type sock = SOCK_STREAM"
    and "sk_family sock = getFamily addr"
  using assms
  by (auto simp: sk_bind_def newSock_def CreateTCP_def new_Sock_def sk_isVaild_def hook_socket_def Let_def
      initSock_def getLocalAddress_def split: prod.splits if_splits option.splits)

text \<open>The sockets of the addresses, for a loop without failures.\<close>

definition listens_on :: "Sock \<Rightarrow> Address \<times> kernel_answer \<times> bool \<Rightarrow> bool" where
  "listens_on s x = (case x of (addr, k, listen_ok) \<Rightarrow>
     sk_fd s = ka_fd k \<and> sk_isVaild s \<and> sk_type s = SOCK_STREAM \<and> sk_family s = getFamily addr)"

lemma bind_loop_effect:
  assumes "bind_loop addrs fails (ts, h) = (fails', ts', h')"
  shows "fails' = fails @ map fst (filter bind_fails addrs) \<and>
    (\<exists>new. ts_listen_socks ts' = ts_listen_socks ts @ new \<and>
      list_all2 listens_on new (filter (\<lambda>x. \<not> bind_fails x) addrs)) \<and>
    mset (drop_socks (ts_listen_socks ts') @ ts_closed ts') =
      mset (drop_socks (ts_listen_socks ts) @ ts_closed ts @ opened addrs) \<and>
    ((\<forall>x \<in> set addrs. \<not> bind_fails x) \<longrightarrow> ts_closed ts' = ts_closed ts) \<and>
    ts_is_stop ts' = ts_is_stop ts \<and> ts_accept_worker ts' = ts_accept_worker ts"
  using assms
proof (induction addrs arbitrary: fails ts h)
  case (Cons x addrs)
  obtain addr k l where x: "x = (addr, k, l)" by (cases x)
  obtain ok sock h1 where b: "sk_bind k addr (CreateTCP addr, h) = (ok, sock, h1)"
    by (cases "sk_bind k addr (CreateTCP addr, h)")
  note e = bind_new_sock [OF b]
  have one: "drop_socks [sock] = opened [x]"
    using e(2) by (simp add: drop_socks_def opened_def sk_isVaild_def x)
  have more: "opened (x # addrs) = opened [x] @ opened addrs" by (simp add: opened_def)
  show ?case
  proof (cases "bind_fails x")
    case True
    let ?ts = "ts\<lparr>ts_closed := ts_closed ts @ drop_socks [sock]\<rparr>"
    have "bind_loop addrs (fails @ [addr]) (?ts, h1) = (fails', ts', h')"
      using Cons.prems True b e(1) by (auto simp: x bind_fails_def sk_listen_def Let_def split: if_splits)
    from Cons.IH [OF this] show ?thesis using True x one more by auto
  next
    case False
    let ?ts = "ts\<lparr>ts_listen_socks := ts_listen_socks ts @ [sock]\<rparr>"
    have "bind_loop addrs fails (?ts, h1) = (fails', ts', h')"
      using Cons.prems False b e(1) by (auto simp: x bind_fails_def sk_listen_def Let_def split: if_splits)
    note ih = Cons.IH [OF this]
    then obtain new where new: "ts_listen_socks ts' = ts_listen_socks ts @ [sock] @ new"
        "list_all2 listens_on new (filter (\<lambda>x. \<not> bind_fails x) addrs)" by auto
    have "listens_on sock x" using e False by (simp add: listens_on_def x bind_fails_def sk_isVaild_def)
    then show ?thesis
      using ih False x one more new by (auto intro!: exI [of _ "sock # new"])
  qed
qed (simp add: opened_def)

lemma ts_bind_all_effect:
  assumes "ts_bind_all addrs [] (ts, h) = (ok, fails, ts', h')"
  shows "(ok \<longleftrightarrow> (\<forall>x \<in> set addrs. \<not> bind_fails x)) \<and> fails = map fst (filter bind_fails addrs) \<and>
    (ok \<longrightarrow> (\<exists>new. ts_listen_socks ts' = ts_listen_socks ts @ new \<and> list_all2 listens_on new addrs) \<and>
       ts_closed ts' = ts_closed ts) \<and>
    (\<not> ok \<longrightarrow> ts_listen_socks ts' = [] \<and>
       ((\<forall>s. StartAccept s \<notin> set (ts_accept_worker ts)) \<longrightarrow>
         mset (ts_closed ts') = mset (ts_closed ts @ drop_socks (ts_listen_socks ts) @ opened addrs)))"
proof -
  obtain f v h1 where v: "bind_loop addrs [] (ts, h) = (f, v, h1)" by (cases "bind_loop addrs [] (ts, h)")
  note e = bind_loop_effect [OF v]
  have rel: "(\<forall>s. StartAccept s \<notin> set (ts_accept_worker ts)) \<longrightarrow> released v = drop_socks (ts_listen_socks v)"
    using e by (simp add: released_def)
  have fl: "f = [] \<longleftrightarrow> (\<forall>x \<in> set addrs. \<not> bind_fails x)" using e by (simp add: filter_empty_conv)
  have r: "ok = (f = [])" "fails = f"
      "ts' = (if f \<noteq> [] then v\<lparr>ts_listen_socks := [], ts_closed := ts_closed v @ released v\<rparr> else v)"
    using assms(1) v by (auto simp: ts_bind_all_def Let_def split: if_splits)
  show ?thesis
  proof (cases "f = []")
    case True
    then have "filter (\<lambda>x. \<not> bind_fails x) addrs = addrs" using fl by (simp add: filter_id_conv)
    then show ?thesis using e r fl True by auto
  next
    case False
    then show ?thesis using e r fl rel by (auto simp: ac_simps)
  qed
qed

text \<open>C12: Binding a list of addresses is all or nothing.  It returns true exactly when every address could be
  bound and listened on, and then the server listens on one stream socket of the right family for
  each, behind the ones it had; else it reports exactly the addresses that failed and the server listens on
  nothing any more, earlier sockets included.  If no accepting loop has been submitted, that is, the server was not
  started, every descriptor that was opened is closed then; the loop of a started server keeps its socket.\<close>

theorem tcp_bind_all_or_nothing:
  assumes "ts_bind_all addrs [] (ts, h) = (ok, fails, ts', h')"
  shows "(ok \<longleftrightarrow> (\<forall>x \<in> set addrs. \<not> bind_fails x)) \<and> fails = map fst (filter bind_fails addrs) \<and>
    (ok \<longrightarrow> (\<exists>new. ts_listen_socks ts' = ts_listen_socks ts @ new \<and> list_all2 listens_on new addrs) \<and>
       ts_closed ts' = ts_closed ts) \<and>
    (\<not> ok \<longrightarrow> ts_listen_socks ts' = [] \<and>
       ((\<forall>s. StartAccept s \<notin> set (ts_accept_worker ts)) \<longrightarrow>
         mset (ts_closed ts') = mset (ts_closed ts @ drop_socks (ts_listen_socks ts) @ opened addrs)))"
  using assms by (rule ts_bind_all_effect)

definition answer :: "int \<Rightarrow> bool \<Rightarrow> kernel_answer" where
  "answer fd ok = \<lparr>ka_fd = fd, ka_ok = ok, ka_local = None, ka_peer = None\<rparr>"

theorem tcp_bind_all_or_nothing_witness:
  "\<exists>fails ts' h'. ts_bind_all
     [(Unknown (new_UnknownAddress AF_INET), answer 7 True, True),
      (Unknown (new_UnknownAddress AF_INET6), answer 8 False, True)] []
     (new_TcpServer 1000, socket_fd_hooks) = (False, fails, ts', h') \<and>
   fails = [Unknown (new_UnknownAddress AF_INET6)] \<and> ts_listen_socks ts' = [] \<and> mset (ts_closed ts') = {#7, 8#}"
proof -
  let ?addrs = "[(Unknown (new_UnknownAddress AF_INET), answer 7 True, True),
      (Unknown (new_UnknownAddress AF_INET6), answer 8 False, True)]"
  obtain ok fails ts' h' where r: "ts_bind_all ?addrs [] (new_TcpServer 1000, socket_fd_hooks) = (ok, fails, ts', h')"
    by (cases "ts_bind_all ?addrs [] (new_TcpServer 1000, socket_fd_hooks)")
  from tcp_bind_all_or_nothing [OF r] show ?thesis
    using r by (auto simp: bind_fails_def answer_def opened_def new_TcpServer_def drop_socks_def)
qed

section \<open>Accepting\<close>

text \<open>What the manager of descriptors knows of other descriptors stays as it is.\<close>

lemma get_create_other:
  "1 < fd \<Longrightarrow> x \<noteq> fd \<Longrightarrow>
   fst (FdManager_get x False (snd (FdManager_get fd True h))) = fst (FdManager_get x False h)"
  by (auto simp: FdManager_get_def Let_def list_resize_def nth_append nth_list_update split: if_splits prod.splits)

lemma create_kernel:
  "is_sock (kern (snd (FdManager_get fd b h))) = is_sock (kern h)"
  "t_enable_hook (snd (FdManager_get fd b h)) = t_enable_hook h"
  by (auto simp: FdManager_get_def FdCtx_new_def FdCtx_init_def Let_def split: if_splits prod.splits option.splits)

lemma setRecvTimeout_other:
  "0 \<le> sk_fd c \<Longrightarrow> x \<noteq> sk_fd c \<Longrightarrow>
     fst (FdManager_get x False (setRecvTimeout t c h)) = fst (FdManager_get x False h)"
  "kern (setRecvTimeout t c h) = kern h" "t_enable_hook (setRecvTimeout t c h) = t_enable_hook h"
  by (auto simp: setRecvTimeout_def setSockTimeout_def hook_setsockopt_def put_ctx_def FdManager_get_def Let_def
      nth_list_update split: option.splits if_splits)

text \<open>A hooked call depends on the hooks through the context of its descriptor only.\<close>

lemma do_io_cong:
  "t_enable_hook h = t_enable_hook h' \<Longrightarrow> fst (FdManager_get fd False h) = fst (FdManager_get fd False h') \<Longrightarrow>
   do_io fd event so env h = do_io fd event so env h'"
  by (simp add: do_io_def)

text \<open>What the kernel delivers for one call of \<^verbatim>\<open>accept\<close> on the listening socket.\<close>

definition delivers :: "Sock \<Rightarrow> hooks \<Rightarrow> kernel_answer \<times> (call_result \<times> wait) list \<Rightarrow> call_result option" where
  "delivers sock h x = fst (do_io (sk_fd sock) Event_READ SO_RCVTIMEO (snd x) h)"

definition connection :: "call_result option \<Rightarrow> int option" where
  "connection r = (case r of Some (Returned fd) \<Rightarrow> Some fd | _ \<Rightarrow> None)"

definition fresh_socket :: "Sock \<Rightarrow> hooks \<Rightarrow> int \<Rightarrow> bool" where
  "fresh_socket sock h fd \<longleftrightarrow>
     1 < fd \<and> fd \<noteq> sk_fd sock \<and> fst (FdManager_get fd False h) = None \<and> is_sock (kern h) fd = Some True"

lemma accept_round:
  assumes "t_enable_hook h" and "delivers sock h (k, env) = Some (Returned fd)" and "fresh_socket sock h fd"
    and "timeout < 2147483648000"
  shows "\<exists>c h'. sk_fd c = fd \<and> sk_connected c \<and> sk_family c = sk_family sock \<and>
    (\<forall>rounds. startAccept timeout sock ((False, k, env) # rounds) (tasks, h) =
      startAccept timeout sock rounds (tasks @ [HandleClient c], h')) \<and>
    getTimeout SO_RCVTIMEO (the (fst (FdManager_get fd False h'))) = timeout \<and>
    t_enable_hook h' \<and> is_sock (kern h') = is_sock (kern h) \<and>
    (\<forall>x. x \<noteq> fd \<longrightarrow> fst (FdManager_get x False h') = fst (FdManager_get x False h))"
proof -
  let ?h = "snd (FdManager_get fd True h)"
  have fd: "1 < fd" "fst (FdManager_get fd False h) = None" "is_sock (kern h) fd = Some True"
    using assms(3) by (simp_all add: fresh_socket_def)
  have io: "fst (do_io (sk_fd sock) Event_READ SO_RCVTIMEO env h) = Some (Returned fd)"
    using assms(2) by (simp add: delivers_def)
  obtain c h1 where c: "sk_accept k env (sock, h) = (Some (Some c), h1)" "sk_fd c = fd" "sk_connected c"
      "sk_family c = sk_family sock"
    using accept_core [OF io fd, of k] assms(1) by blast
  moreover have "snd (sk_accept k env (sock, h)) = ?h"
    using io fd(1) assms(1) by (auto simp: sk_accept_def hook_accept_def Let_def split: prod.splits)
  ultimately have h1: "h1 = ?h" by simp
  have ctx: "fst (FdManager_get (sk_fd c) False ?h) = Some (fst (FdCtx_new fd (kern h)))"
    using get_create [of fd h] fd c(2) by simp
  have on: "t_enable_hook ?h" using assms(1) by (simp add: create_kernel)
  have "getRecvTimeout c (setRecvTimeout timeout c ?h) = timeout"
    using timeout_read_back [OF on ctx, of timeout] assms(4) by simp
  moreover have "fst (FdManager_get (sk_fd c) False (setRecvTimeout timeout c ?h)) \<noteq> None"
    using ctx on get_put [OF ctx, where k = "kern ?h"]
    by (simp add: setRecvTimeout_def setSockTimeout_def hook_setsockopt_def put_ctx_def)
  ultimately have "getTimeout SO_RCVTIMEO (the (fst (FdManager_get fd False (setRecvTimeout timeout c ?h)))) = timeout"
    using c(2) by (auto simp: getRecvTimeout_def getSockTimeout_def)
  then show ?thesis
    using c h1 on fd(1) setRecvTimeout_other create_kernel(1) [of fd True h]
    by (intro exI [of _ c] exI [of _ "setRecvTimeout timeout c ?h"]) (simp add: get_create_other)
qed

lemma refused_round:
  assumes "delivers sock h (k, env) = Some (Failed e)"
  shows "startAccept timeout sock ((False, k, env) # rounds) (tasks, h) = startAccept timeout sock rounds (tasks, h)"
  using assms by (auto simp: delivers_def sk_accept_def hook_accept_def Let_def split: prod.splits)

lemma accept_loop_core:
  assumes "t_enable_hook h" and "timeout < 2147483648000" and "\<forall>x \<in> set conns. delivers sock h x \<noteq> None"
    and "fds = List.map_filter (\<lambda>x. connection (delivers sock h x)) conns"
    and "distinct fds" and "\<forall>fd \<in> set fds. fresh_socket sock h fd"
  shows "\<exists>cs h'. startAccept timeout sock (map (Pair False) conns @ (True, last_round) # rest) (tasks, h) =
      (True, tasks @ map HandleClient cs, h') \<and> map sk_fd cs = fds \<and>
    (\<forall>c \<in> set cs. sk_connected c \<and> sk_family c = sk_family sock) \<and>
    (\<forall>fd \<in> set fds. getTimeout SO_RCVTIMEO (the (fst (FdManager_get fd False h'))) = timeout) \<and>
    (\<forall>x. x \<notin> set fds \<longrightarrow> fst (FdManager_get x False h') = fst (FdManager_get x False h))"
  using assms
proof (induction conns arbitrary: h tasks fds)
  case Nil
  then show ?case by (cases last_round) (simp add: map_filter_simps)
next
  case (Cons x conns)
  obtain k env where x: "x = (k, env)" by (cases x)
  obtain r where r: "delivers sock h (k, env) = Some r" using Cons.prems(3) by (auto simp: x)
  show ?case
  proof (cases r)
    case (Failed e)
    then have "fds = List.map_filter (\<lambda>x. connection (delivers sock h x)) conns"
      using Cons.prems(4) r by (simp add: x map_filter_simps connection_def)
    then show ?thesis
      using Cons.IH [OF Cons.prems(1,2), of fds tasks] Cons.prems(3,5,6) r Failed
        refused_round [of sock h k env e timeout _ tasks] by (auto simp: x)
  next
    case (Returned fd)
    define fds1 where "fds1 = List.map_filter (\<lambda>x. connection (delivers sock h x)) conns"
    have fds: "fds = fd # fds1" using Cons.prems(4) r Returned by (simp add: x map_filter_simps connection_def fds1_def)
    obtain c h1 where c: "sk_fd c = fd" "sk_connected c" "sk_family c = sk_family sock"
        "\<And>rounds. startAccept timeout sock ((False, k, env) # rounds) (tasks, h) =
          startAccept timeout sock rounds (tasks @ [HandleClient c], h1)"
        "getTimeout SO_RCVTIMEO (the (fst (FdManager_get fd False h1))) = timeout"
        "t_enable_hook h1" "is_sock (kern h1) = is_sock (kern h)"
        "\<forall>x. x \<noteq> fd \<longrightarrow> fst (FdManager_get x False h1) = fst (FdManager_get x False h)"
      using accept_round [OF Cons.prems(1) _ _ Cons.prems(2), of sock k env fd tasks] r Returned Cons.prems(6) fds
      by auto
    have "sk_fd sock \<noteq> fd" using Cons.prems(6) fds by (auto simp: fresh_socket_def)
    then have same: "delivers sock h1 y = delivers sock h y" for y
      unfolding delivers_def using c(6,8) Cons.prems(1) do_io_cong [of h1 h "sk_fd sock"] by simp
    have fresh: "\<forall>z \<in> set fds1. fresh_socket sock h1 z"
      using Cons.prems(5,6) c(7,8) by (auto simp: fds fresh_socket_def)
    obtain cs h' where ih: "startAccept timeout sock (map (Pair False) conns @ (True, last_round) # rest)
        (tasks @ [HandleClient c], h1) = (True, (tasks @ [HandleClient c]) @ map HandleClient cs, h')"
        "map sk_fd cs = fds1" "\<forall>c \<in> set cs. sk_connected c \<and> sk_family c = sk_family sock"
        "\<forall>fd \<in> set fds1. getTimeout SO_RCVTIMEO (the (fst (FdManager_get fd False h'))) = timeout"
        "\<forall>x. x \<notin> set fds1 \<longrightarrow> fst (FdManager_get x False h') = fst (FdManager_get x False h1)"
      using Cons.IH [OF c(6) Cons.prems(2), of fds1 "tasks @ [HandleClient c]"] Cons.prems(3,5) fresh
      by (auto simp: same fds1_def fds)
    have new: "fd \<notin> set fds1" using Cons.prems(5) fds by simp
    show ?thesis
      using ih c new by (intro exI [of _ "c # cs"] exI [of _ h']) (auto simp: x fds)
  qed
qed

text \<open>C21: A running accepting loop whose system calls are hooked, for any list of calls of \<^verbatim>\<open>accept\<close> that
  return, each with a new socket descriptor or an error, before it sees that the server was stopped: it hands
  exactly the accepted connections to the scheduler of the clients, once each and in order, as connected sockets
  of the family of the listening socket; afterwards the receive timeout of each is the one of the server (below
  2147483648 seconds), no other descriptor is touched, and nothing is accepted after the stop.\<close>

theorem accept_loop_submits:
  assumes "t_enable_hook h" and "timeout < 2147483648000" and "\<forall>x \<in> set conns. delivers sock h x \<noteq> None"
    and "fds = List.map_filter (\<lambda>x. connection (delivers sock h x)) conns"
    and "distinct fds" and "\<forall>fd \<in> set fds. fresh_socket sock h fd"
  shows "\<exists>cs h'. startAccept timeout sock (map (Pair False) conns @ (True, last_round) # rest) (tasks, h) =
      (True, tasks @ map HandleClient cs, h') \<and> map sk_fd cs = fds \<and>
    (\<forall>c \<in> set cs. sk_connected c \<and> sk_family c = sk_family sock) \<and>
    (\<forall>fd \<in> set fds. getTimeout SO_RCVTIMEO (the (fst (FdManager_get fd False h'))) = timeout) \<and>
    (\<forall>x. x \<notin> set fds \<longrightarrow> fst (FdManager_get x False h') = fst (FdManager_get x False h))"
  using assms by (rule accept_loop_core)

theorem accept_loop_submits_witness:
  "\<exists>c h'. startAccept 120000 (CreateTCPSocket\<lparr>sk_fd := 5\<rparr>)
     [(False, answer 0 True, [(Failed 24, Woken)]), (False, answer 0 True, [(Returned 7, Woken)]), (True, answer 0 True, [])]
     ([], socket_fd_hooks) = (True, [HandleClient c], h') \<and>
   sk_fd c = 7 \<and> sk_connected c \<and> getTimeout SO_RCVTIMEO (the (fst (FdManager_get 7 False h'))) = 120000"
proof -
  let ?s = "CreateTCPSocket\<lparr>sk_fd := 5\<rparr>"
  let ?conns = "[(answer 0 True, [(Failed 24, Woken)]), (answer 0 True, [(Returned 7, Woken)])]"
  have d: "delivers ?s socket_fd_hooks (answer 0 True, [(Failed 24, Woken)]) = Some (Failed 24)"
      "delivers ?s socket_fd_hooks (answer 0 True, [(Returned 7, Woken)]) = Some (Returned 7)"
    using accept_example(1)
    by (simp_all add: delivers_def do_io_def FdManager_get_def socket_fd_hooks_def nth_append FdCtx_new_def FdCtx_init_def
        Let_def EINTR_def EAGAIN_def plain_call_def)
  have fresh: "fresh_socket ?s socket_fd_hooks 7"
    using accept_example(2,3) by (simp add: fresh_socket_def)
  have "\<forall>x \<in> set ?conns. delivers ?s socket_fd_hooks x \<noteq> None" using d by simp
  moreover have "[7] = List.map_filter (\<lambda>x. connection (delivers ?s socket_fd_hooks x)) ?conns"
    using d by (simp add: map_filter_simps connection_def)
  moreover have "distinct [7 :: int]" "\<forall>fd \<in> set [7]. fresh_socket ?s socket_fd_hooks fd" using fresh by simp_all
  ultimately obtain cs h' where r: "startAccept 120000 ?s (map (Pair False) ?conns @ (True, (answer 0 True, [])) # []) ([], socket_fd_hooks) =
      (True, [] @ map HandleClient cs, h')" "map sk_fd cs = [7]" "\<forall>c \<in> set cs. sk_connected c \<and> sk_family c = sk_family ?s"
      "\<forall>fd \<in> set [7]. getTimeout SO_RCVTIMEO (the (fst (FdManager_get fd False h'))) = 120000"
    using accept_loop_submits [OF accept_example(4), of 120000 ?conns ?s "[7]" "(answer 0 True, [])" "[]" "[]"] by auto
  then obtain c where "cs = [c]" "sk_fd c = 7" by (cases cs) auto
  then show ?thesis using r by auto
qed

text \<open>Stopping and starting again before the task of \<^verbatim>\<open>stop\<close> has run leaves a server that counts as
  running, whose sockets are closed.\<close>

lemma restart_race:
  "let ts' = run_stop (snd (ts_start (ts_stop ts))) in
   \<not> ts_is_stop ts' \<and> ts_listen_socks ts' = [] \<and>
   set (drop_socks (ts_listen_socks ts)) \<subseteq> set (ts_closed ts') \<and>
   (\<forall>s \<in> set (ts_listen_socks ts). StartAccept s \<in> set (ts_accept_worker ts'))"
  by (simp add: run_stop_def ts_start_def ts_stop_def Let_def)

end
