(* ===== verification/Application.thy ===== *)
theory Application
  imports Modules Tcp_Server IO_Manager
begin

text \<open>
  \<^verbatim>\<open>daemon.cpp\<close> and \<^verbatim>\<open>application.cpp\<close>: how the program starts.  \<^verbatim>\<open>init\<close> reads the command line, loads
  the configuration and the modules and decides whether to run; \<^verbatim>\<open>start_daemon\<close> runs the main function,
  under a supervising process when asked; \<^verbatim>\<open>run_fiber\<close> loads the modules and starts the two servers.
  The results of the system calls are arguments.
\<close>

section \<open>The supervising process\<close>

record ProcessInfo =
  parent_pid :: int
  main_pid :: int
  parent_start_ts :: u64
  main_start_ts :: u64
  restart_cnt :: u32

definition new_ProcessInfo :: ProcessInfo where
  "new_ProcessInfo =
     \<lparr>parent_pid = 0, main_pid = 0, parent_start_ts = 0, main_start_ts = 0, restart_cnt = 0\<rparr>"

definition ProcessInfo_toString :: "ProcessInfo \<Rightarrow> string" where
  "ProcessInfo_toString i =
     ''[ProcessInfo parent_pid='' @ int_text (parent_pid i) @ '' main_pid='' @ int_text (main_pid i) @
     '' parent_start_ts='' @ dec (unat (parent_start_ts i)) @ '' main_start_ts='' @ dec (unat (main_start_ts i)) @
     '' restart_cnt='' @ dec (unat (restart_cnt i)) @ '']''"

text \<open>\<open>result\<close> is what the main function returns.\<close>

definition real_start :: "int \<Rightarrow> u64 \<Rightarrow> int \<Rightarrow> ProcessInfo \<Rightarrow> int \<times> ProcessInfo" where
  "real_start pid now result info = (result, info\<lparr>main_pid := pid, main_start_ts := now\<rparr>)"

text \<open>What \<^verbatim>\<open>fork\<close> and \<^verbatim>\<open>waitpid\<close> give: this is the child, with its number, the time and the result of the
  main function; or the call fails; or this is the parent and the child has ended with a status.\<close>

datatype fork_answer = InChild int u64 int | ForkFails | InParent u32

text \<open>The loop of \<^verbatim>\<open>real_daemon\<close>: the result is \<open>None\<close> while it goes on; the last component is the
  seconds it slept.\<close>

fun daemon_loop ::
  "u32 \<Rightarrow> fork_answer list \<Rightarrow> ProcessInfo \<Rightarrow> u32 list \<Rightarrow> int option \<times> ProcessInfo \<times> u32 list" where
  "daemon_loop interval [] info slept = (None, info, slept)"
| "daemon_loop interval (InChild pid now result # answers) info slept =
     (case real_start pid now result (info\<lparr>main_pid := pid, main_start_ts := now\<rparr>) of
        (r, info) \<Rightarrow> (Some r, info, slept))"
| "daemon_loop interval (ForkFails # answers) info slept =
     daemon_loop interval answers (info\<lparr>restart_cnt := restart_cnt info + 1\<rparr>) (slept @ [interval])"
| "daemon_loop interval (InParent status # answers) info slept =
     (if status \<noteq> 0 then
        if status = 9 then (Some 0, info, slept)
        else daemon_loop interval answers (info\<lparr>restart_cnt := restart_cnt info + 1\<rparr>) (slept @ [interval])
      else (Some 0, info, slept))"

definition real_daemon ::
  "int \<Rightarrow> u64 \<Rightarrow> u32 \<Rightarrow> fork_answer list \<Rightarrow> ProcessInfo \<Rightarrow> int option \<times> ProcessInfo \<times> u32 list" where
  "real_daemon pid now interval answers info =
     daemon_loop interval answers (info\<lparr>parent_pid := pid, parent_start_ts := now\<rparr>) []"

definition start_daemon ::
  "bool \<Rightarrow> int \<Rightarrow> u64 \<Rightarrow> u32 \<Rightarrow> fork_answer list \<Rightarrow> int \<Rightarrow> ProcessInfo \<Rightarrow> int option \<times> ProcessInfo \<times> u32 list" where
  "start_daemon is_daemon pid now interval answers result info =
     (if is_daemon then real_daemon pid now interval answers info
      else
        case real_start pid now result (info\<lparr>parent_pid := pid, parent_start_ts := now\<rparr>) of
          (r, info) \<Rightarrow> (Some r, info, []))"

section \<open>Starting\<close>

text \<open>What surrounds the program: the executable, the command line, the directory tree, the documents
  in the files, the text of the files, the running processes, the dynamic linker, the order in which a
  map of modules is traversed, and the calls that create directories.\<close>

record ('fs) app_world =
  aw_link :: "string option"
  aw_argv :: "string list"
  aw_at :: "string \<Rightarrow> fnode option"
  aw_doc :: "string \<Rightarrow> yaml option"
  aw_text :: "string \<Rightarrow> string option"
  aw_alive :: "int \<Rightarrow> bool"
  aw_linker :: linker
  aw_order :: "modules \<Rightarrow> string list"
  aw_sys :: "'fs fs_calls"

record ('w, 'fs) app_state =
  as_env :: Env
  as_config :: "'w Config"
  as_world :: 'w
  as_modules :: modules
  as_trace :: "mod_event list"
  as_output :: string
  as_fs :: 'fs

datatype app_error = EnvError env_error | ModError mod_error | FsError fs_error | BadPidFile | NullAddress

definition lift_error :: "('e \<Rightarrow> 'f) \<Rightarrow> 'e + 'a \<Rightarrow> 'f + 'a" where
  "lift_error f r = (case r of Inl e \<Rightarrow> Inl (f e) | Inr x \<Rightarrow> Inr x)"

text \<open>The value of a variable of strings.\<close>

definition str_value :: "string \<Rightarrow> 'w Config \<Rightarrow> string" where
  "str_value name cf =
     (case cf_map cf name of
        Some var \<Rightarrow> (case cv_val var of CStr s \<Rightarrow> s | _ \<Rightarrow> [])
      | None \<Rightarrow> [])"

definition add_helps :: "Env \<Rightarrow> Env" where
  "add_helps env =
     addArgHelp ''p'' ''print help'' (addArgHelp ''c'' ''conf path default: ./conf''
       (addArgHelp ''d'' ''run as daemon'' (addArgHelp ''s'' ''start with the terminal'' env)))"

text \<open>\<^verbatim>\<open>Config::LoadFromConfDir\<close> with the files that are found.\<close>

definition load_conf_dir ::
  "yaml_lib \<Rightarrow> 'fs app_world \<Rightarrow> string \<Rightarrow> ('w, 'fs) app_state \<Rightarrow> ('w, 'fs) app_state" where
  "load_conf_dir lib aw path st =
     (let abs_path = getAbsolutePath path (as_env st);
          confs = ListAllFile [] abs_path ''.yml'' (aw_at aw abs_path);
          (cf, w) = LoadFromConfDir lib (map (aw_doc aw) confs) (as_config st, as_world st) in
      st\<lparr>as_config := cf, as_world := w\<rparr>)"

definition load_modules :: "'fs app_world \<Rightarrow> ('w, 'fs) app_state \<Rightarrow> mod_error + ('w, 'fs) app_state" where
  "load_modules aw st =
     rbind (mm_init (aw_linker aw) (\<lambda>_. False) (str_value ''module.path'' (as_config st)) (aw_at aw) (as_env st)
       (as_modules st, as_trace st)) (\<lambda>(ms, tr). Inr (st\<lparr>as_modules := ms, as_trace := tr\<rparr>))"

definition print_help :: "('w, 'fs) app_state \<Rightarrow> ('w, 'fs) app_state" where
  "print_help st = st\<lparr>as_output := as_output st @ printHelp (as_env st)\<rparr>"

definition call_modules ::
  "'fs app_world \<Rightarrow> (module_ptr \<Rightarrow> mod_event) \<Rightarrow> ('w, 'fs) app_state \<Rightarrow> ('w, 'fs) app_state" where
  "call_modules aw ev st =
     st\<lparr>as_trace := as_trace st @ map ev (listAll (aw_order aw (as_modules st)) (as_modules st))\<rparr>"

text \<open>The end of \<^verbatim>\<open>init\<close>: the file with the process number, and the directory of the server.\<close>

definition prepare_work :: "'fs app_world \<Rightarrow> ('w, 'fs) app_state \<Rightarrow> app_error + bool \<times> ('w, 'fs) app_state" where
  "prepare_work aw st =
     (let work = str_value ''server.work_path'' (as_config st);
          pid_file = work @ ''/'' @ str_value ''server.pid_file'' (as_config st) in
      case IsRunningPidfile (aw_alive aw) (aw_at aw pid_file \<noteq> None) (aw_text aw pid_file) of
        None \<Rightarrow> Inl BadPidFile
      | Some True \<Rightarrow> Inr (False, st)
      | Some False \<Rightarrow>
          rbind (lift_error FsError (Mkdir (aw_sys aw) work (as_fs st))) (\<lambda>(ok, fs).
          Inr (ok, st\<lparr>as_fs := fs\<rparr>)))"

definition app_init ::
  "yaml_lib \<Rightarrow> 'fs app_world \<Rightarrow> ('w, 'fs) app_state \<Rightarrow> app_error + bool \<times> ('w, 'fs) app_state" where
  "app_init lib aw st =
     rbind (lift_error EnvError (env_init (aw_link aw) (aw_argv aw) (add_helps (as_env st)))) (\<lambda>(ok, env).
       let st = st\<lparr>as_env := env\<rparr>;
           is_print_help = (\<not> ok \<or> hasArg ''p'' env);
           st = load_conf_dir lib aw (getConfigPath env) st in
     rbind (lift_error ModError (load_modules aw st)) (\<lambda>st.
       let st = call_modules aw OnBeforeArgsParse st in
       if is_print_help then Inr (False, print_help st)
       else
         let st = call_modules aw OnAfterArgsParse st;
             run_type = (if hasArg ''d'' env then 2 else if hasArg ''s'' env then 1 else (0 :: nat)) in
         if run_type = 0 then Inr (False, print_help st)
         else prepare_work aw st))"

text \<open>\<^verbatim>\<open>run\<close>; \<open>result\<close> is what \<^verbatim>\<open>main\<close> returns.  The result of \<^verbatim>\<open>start_daemon\<close> becomes a truth value.\<close>

definition app_run ::
  "int \<Rightarrow> u64 \<Rightarrow> u32 \<Rightarrow> fork_answer list \<Rightarrow> int \<Rightarrow> ('w, 'fs) app_state \<Rightarrow> ProcessInfo \<Rightarrow>
   bool option \<times> ProcessInfo \<times> u32 list" where
  "app_run pid now interval answers result st info =
     (case start_daemon (hasArg ''d'' (as_env st)) pid now interval answers result info of
        (r, info, slept) \<Rightarrow> (map_option (\<lambda>r. r \<noteq> 0) r, info, slept))"

text \<open>The main function of the program: its result is the one of \<^verbatim>\<open>run\<close> as a number.\<close>

definition program_main ::
  "yaml_lib \<Rightarrow> 'fs app_world \<Rightarrow> int \<Rightarrow> u64 \<Rightarrow> u32 \<Rightarrow> fork_answer list \<Rightarrow> int \<Rightarrow> ('w, 'fs) app_state \<Rightarrow>
   app_error + int option" where
  "program_main lib aw pid now interval answers result st =
     rbind (app_init lib aw st) (\<lambda>(ok, st).
       if ok then Inr (map_option of_bool (fst (app_run pid now interval answers result st new_ProcessInfo)))
       else Inr (Some 0))"

text \<open>\<^verbatim>\<open>main\<close>: the process number is written to its file, and the I/O manager gets the fiber that starts the
  servers and a timer that never ends; \<open>opened_ok\<close> tells whether the file can be opened.\<close>

definition app_main ::
  "bool \<Rightarrow> nat \<Rightarrow> nat \<Rightarrow> u64 \<Rightarrow> script \<Rightarrow> script TimerManager \<Rightarrow> 'w Config \<Rightarrow>
   fiber_error + ((string \<times> string) \<times> IOManager) option" where
  "app_main opened_ok pid t now run_fiber_cb timers cf =
     (if \<not> opened_ok then Inr None
      else
        rbind (IOManager_new 4 timers) (\<lambda>m.
          let m = m\<lparr>sched := submit (OfCb (Some run_fiber_cb)) (- 1) (sched m)\<rparr>;
              m = addTimerEvent t now 2000 Return True m in
          Inr (Some ((str_value ''server.work_path'' cf @ ''/'' @ str_value ''server.pid_file'' cf, dec pid), m))))"

section \<open>Starting the servers\<close>

datatype fiber_result = Exited | Started TcpServer TcpServer

text \<open>The map of the servers by their type.\<close>

definition push_server :: "string \<Rightarrow> TcpServer \<Rightarrow> (string, TcpServer list) omap \<Rightarrow> (string, TcpServer list) omap" where
  "push_server type s servers =
     map_set (<) type ((case map_find (<) type servers of None \<Rightarrow> [] | Some ss \<Rightarrow> ss) @ [s]) servers"

definition m_servers :: "fiber_result \<Rightarrow> (string, TcpServer list) omap" where
  "m_servers r =
     (case r of
        Exited \<Rightarrow> []
      | Started s1 s2 \<Rightarrow> push_server ''ws'' s2 (push_server ''http'' s1 []))"

definition getServer ::
  "string \<Rightarrow> (string, TcpServer list) omap \<Rightarrow> TcpServer list \<Rightarrow> bool \<times> TcpServer list" where
  "getServer type servers srvs =
     (case map_find (<) type servers of None \<Rightarrow> (False, srvs) | Some ss \<Rightarrow> (True, ss))"

text \<open>\<^verbatim>\<open>run_fiber\<close>: \<open>load_ok\<close> is what the modules' \<^verbatim>\<open>onLoad\<close> returns; \<open>k1\<close>, \<open>k2\<close> are the answers of the kernel
  for the two sockets.  The results of \<^verbatim>\<open>bind\<close> are not looked at.\<close>

definition bind_server ::
  "Address option \<Rightarrow> kernel_answer \<times> bool \<Rightarrow> TcpServer \<times> hooks \<Rightarrow> app_error + TcpServer \<times> hooks" where
  "bind_server addr k st =
     (case addr of
        None \<Rightarrow> Inl NullAddress
      | Some a \<Rightarrow> (case ts_bind (a, k) st of (ok, fails, ts, h) \<Rightarrow> Inr (ts, h)))"

text \<open>The servers a module finds when it is called: each call is recorded with the servers as they are at
  that moment.\<close>

type_synonym module_calls = "(mod_event \<times> TcpServer list) list"

definition tell_modules ::
  "'fs app_world \<Rightarrow> (module_ptr \<Rightarrow> mod_event) \<Rightarrow> TcpServer list \<Rightarrow> ('w, 'fs) app_state \<times> module_calls \<Rightarrow>
   ('w, 'fs) app_state \<times> module_calls" where
  "tell_modules aw ev srvs = (\<lambda>(st, calls).
     (call_modules aw ev st,
      calls @ map (\<lambda>m. (ev m, srvs)) (listAll (aw_order aw (as_modules st)) (as_modules st))))"

definition run_fiber_start ::
  "'fs app_world \<Rightarrow> (module_ptr \<Rightarrow> bool) \<Rightarrow> (string \<Rightarrow> string option \<Rightarrow> Address list option) \<Rightarrow> u64 \<Rightarrow>
   kernel_answer \<times> bool \<Rightarrow> kernel_answer \<times> bool \<Rightarrow> hooks \<Rightarrow> ('w, 'fs) app_state \<Rightarrow>
   app_error + fiber_result \<times> hooks \<times> ('w, 'fs) app_state \<times> module_calls" where
  "run_fiber_start aw load_ok resolve read_timeout k1 k2 h st =
     (let told = tell_modules aw OnLoad [] (st, []) in
      if list_ex (\<lambda>m. \<not> load_ok m) (listAll (aw_order aw (as_modules st)) (as_modules st)) then
        Inr (Exited, h, told)
      else
        let addr_1 = LookupAnyIPAddress resolve ''0.0.0.0:8020'';
            addr_2 = LookupAnyIPAddress resolve ''0.0.0.0:8037'' in
        rbind (bind_server addr_1 k1 (ts_setName ''xzmjx_http'' (new_HttpServer read_timeout), h)) (\<lambda>(s1, h).
        rbind (bind_server addr_2 k2 (ts_setName ''xzmjx_ws'' (new_WSServer read_timeout), h)) (\<lambda>(s2, h).
          let told = tell_modules aw OnServerReady [s1, s2] told;
              s1 = snd (ts_start s1);
              s2 = snd (ts_start s2);
              told = tell_modules aw OnServerUp [s1, s2] told in
          Inr (Started s1 s2, h, told))))"

section \<open>Supervision\<close>

definition restarts :: "fork_answer \<Rightarrow> bool" where
  "restarts a = (case a of ForkFails \<Rightarrow> True | InParent status \<Rightarrow> status \<noteq> 0 \<and> status \<noteq> 9 | InChild _ _ _ \<Rightarrow> False)"

lemma daemon_loop_restarts:
  assumes "\<forall>a \<in> set crashes. restarts a"
  shows "daemon_loop interval (crashes @ answers) info slept =
    daemon_loop interval answers (info\<lparr>restart_cnt := restart_cnt info + of_nat (length crashes)\<rparr>)
      (slept @ replicate (length crashes) interval)"
  using assms
proof (induction crashes arbitrary: info slept)
  case (Cons a crashes)
  have "slept @ [interval] @ replicate n interval = slept @ replicate (Suc n) interval" for n
    by simp
  then show ?case
    using Cons by (cases a) (auto simp: restarts_def ac_simps)
qed simp

text \<open>The supervising process starts a new child after each that crashed and after each failed attempt,
  with a pause, and counts these; it ends, with 0, when a child ends with 0 or is killed by signal 9, and
  not before.  A child runs the main function and returns its result.\<close>

lemma daemon_supervises:
  assumes "\<forall>a \<in> set crashes. restarts a"
  shows "fst (real_daemon pid now interval crashes info) = None"
    and "status = 0 \<or> status = 9 \<Longrightarrow>
      real_daemon pid now interval (crashes @ InParent status # answers) info =
        (Some 0, info\<lparr>parent_pid := pid, parent_start_ts := now,
           restart_cnt := restart_cnt info + of_nat (length crashes)\<rparr>,
         replicate (length crashes) interval)"
    and "real_daemon pid now interval (crashes @ InChild child ts result # answers) info =
        (Some result, info\<lparr>parent_pid := pid, parent_start_ts := now, main_pid := child, main_start_ts := ts,
           restart_cnt := restart_cnt info + of_nat (length crashes)\<rparr>,
         replicate (length crashes) interval)"
  using assms daemon_loop_restarts [OF assms, of interval "[]"]
  by (auto simp: real_daemon_def real_start_def daemon_loop_restarts)

section \<open>The decision to run\<close>

lemma lift_error_Inr [simp]: "lift_error f r = Inr x \<longleftrightarrow> r = Inr x"
  by (auto simp: lift_error_def split: sum.splits)

lemma prepare_work_True:
  assumes "prepare_work aw st = Inr (True, st')"
  defines "work \<equiv> str_value ''server.work_path'' (as_config st)"
  defines "pid_file \<equiv> work @ ''/'' @ str_value ''server.pid_file'' (as_config st)"
  shows "IsRunningPidfile (aw_alive aw) (aw_at aw pid_file \<noteq> None) (aw_text aw pid_file) = Some False"
    and "Mkdir (aw_sys aw) work (as_fs st) = Inr (True, as_fs st')"
    and "as_config st' = as_config st" and "as_env st' = as_env st" and "as_trace st' = as_trace st"
    and "as_modules st' = as_modules st" and "as_output st' = as_output st"
  using assms(1)
  by (auto simp: prepare_work_def Let_def work_def pid_file_def rbind_eq_Inr
      split: option.splits bool.splits)

lemma call_modules_fields [simp]:
  "as_config (call_modules aw ev st) = as_config st" "as_env (call_modules aw ev st) = as_env st"
  "as_modules (call_modules aw ev st) = as_modules st" "as_output (call_modules aw ev st) = as_output st"
  "as_fs (call_modules aw ev st) = as_fs st"
  by (simp_all add: call_modules_def)

lemma load_conf_dir_fields [simp]:
  "as_env (load_conf_dir lib aw p st) = as_env st" "as_output (load_conf_dir lib aw p st) = as_output st"
  "as_fs (load_conf_dir lib aw p st) = as_fs st" "as_modules (load_conf_dir lib aw p st) = as_modules st"
  "as_trace (load_conf_dir lib aw p st) = as_trace st"
  by (simp_all add: load_conf_dir_def Let_def split: prod.split)

lemma load_modules_fields:
  assumes "load_modules aw st = Inr st'"
  shows "as_config st' = as_config st" "as_env st' = as_env st" "as_output st' = as_output st" "as_fs st' = as_fs st"
  using assms by (auto simp: load_modules_def rbind_eq_Inr)

lemma app_init_True:
  assumes "app_init lib aw st = Inr (True, st')"
  shows "env_init (aw_link aw) (aw_argv aw) (add_helps (as_env st)) = Inr (True, as_env st')"
    and "\<not> hasArg ''p'' (as_env st')" and "hasArg ''d'' (as_env st') \<or> hasArg ''s'' (as_env st')"
    and "as_output st' = as_output st"
    and "\<exists>st1. prepare_work aw st1 = Inr (True, st') \<and> as_config st1 = as_config st' \<and> as_fs st1 = as_fs st \<and>
      (\<exists>tr. as_trace st' = tr @ map OnBeforeArgsParse (listAll (aw_order aw (as_modules st')) (as_modules st')) @
        map OnAfterArgsParse (listAll (aw_order aw (as_modules st')) (as_modules st')))"
proof -
  obtain ok env where e: "env_init (aw_link aw) (aw_argv aw) (add_helps (as_env st)) = Inr (ok, env)"
    using assms by (auto simp: app_init_def rbind_eq_Inr)
  let ?st1 = "load_conf_dir lib aw (getConfigPath env) (st\<lparr>as_env := env\<rparr>)"
  obtain st2 where st2: "load_modules aw ?st1 = Inr st2"
    using assms e by (auto simp: app_init_def rbind_eq_Inr Let_def lift_error_def split: sum.splits)
  let ?st3 = "call_modules aw OnAfterArgsParse (call_modules aw OnBeforeArgsParse st2)"
  have r: "ok" "\<not> hasArg ''p'' env" "hasArg ''d'' env \<or> hasArg ''s'' env" "prepare_work aw ?st3 = Inr (True, st')"
    using assms e st2 by (auto simp: app_init_def Let_def lift_error_def split: if_splits)
  note p = prepare_work_True [OF r(4)] and l = load_modules_fields [OF st2]
  show "env_init (aw_link aw) (aw_argv aw) (add_helps (as_env st)) = Inr (True, as_env st')"
    "\<not> hasArg ''p'' (as_env st')" "hasArg ''d'' (as_env st') \<or> hasArg ''s'' (as_env st')"
    "as_output st' = as_output st"
    using e r p l by auto
  have "as_trace st' = as_trace st2 @ map OnBeforeArgsParse (listAll (aw_order aw (as_modules st')) (as_modules st')) @
        map OnAfterArgsParse (listAll (aw_order aw (as_modules st')) (as_modules st'))"
    using p by (simp add: call_modules_def)
  then show "\<exists>st1. prepare_work aw st1 = Inr (True, st') \<and> as_config st1 = as_config st' \<and> as_fs st1 = as_fs st \<and>
      (\<exists>tr. as_trace st' = tr @ map OnBeforeArgsParse (listAll (aw_order aw (as_modules st')) (as_modules st')) @
        map OnAfterArgsParse (listAll (aw_order aw (as_modules st')) (as_modules st')))"
    using r(4) p l by (intro exI [of _ ?st3]) auto
qed


text \<open>C16: While a server runs that wrote its process number to the file of the work directory, no other one
  is started on the same directory: \<^verbatim>\<open>init\<close> does not return true.\<close>

theorem second_server_refused:
  assumes "app_main True pid t now cb timers cf = Inr (Some ((pid_file, txt), m))"
    and "aw_text aw pid_file = Some txt" and "aw_at aw pid_file \<noteq> None" and "aw_alive aw (int pid)"
    and "1 < pid" and "pid < 2 ^ 31"
    and "str_value ''server.work_path'' (as_config st') = str_value ''server.work_path'' cf"
    and "str_value ''server.pid_file'' (as_config st') = str_value ''server.pid_file'' cf"
  shows "app_init lib aw st \<noteq> Inr (True, st')"
proof
  assume "app_init lib aw st = Inr (True, st')"
  from app_init_True(5) [OF this] obtain st1 where
    st1: "prepare_work aw st1 = Inr (True, st')" "as_config st1 = as_config st'" by blast
  have pf: "pid_file = str_value ''server.work_path'' cf @ ''/'' @ str_value ''server.pid_file'' cf" "txt = dec pid"
    using assms(1) by (auto simp: app_main_def rbind_eq_Inr Let_def)
  have "IsRunningPidfile (aw_alive aw) True (Some (dec pid)) = Some True"
    using pid_file_round_trip [OF assms(5,6)] assms(4) by simp
  then show False using prepare_work_True(1) [OF st1(1)] st1(2) assms(2,3,7,8) pf by simp
qed

section \<open>Running\<close>

text \<open>The I/O manager of the program does not stop by itself: its timer is always pending.\<close>

lemma heartbeat_keeps_running:
  assumes "app_main True pid t now cb (TimerManager_new h) cf = Inr (Some (file, m))"
    and "now \<le> now'" and "unat now + 2000 < 2 ^ 64"
  shows "\<not> fst (io_canStop now' m)"
proof -
  have m: "m_timers (m_time_manager m) = [t]" "m_next (store (m_time_manager m) t) = now + 2000"
    using assms(1)
    by (auto simp: app_main_def rbind_eq_Inr Let_def IOManager_new_def addTimerEvent_def addTimer_def
        addTimer_locked_def TimerManager_new_def upd_timer_def Timer_new_def set_insert_def set_find_def)
  have "now + 2000 - now' \<noteq> - 1" if "now' < now + 2000"
  proof
    assume "now + 2000 - now' = - 1"
    then have "unat (now + 2000 - now') = unat (- 1 :: u64)" by (rule arg_cong)
    moreover have "unat (now + 2000 - now') = unat (now + 2000) - unat now'"
      using that by (simp add: unat_sub less_imp_le)
    moreover have "unat (now + 2000) = unat now + 2000"
      using assms(3) by (subst unat_add_lem [THEN iffD1]) auto
    moreover have "unat (- 1 :: u64) = 18446744073709551615" by (simp add: unsigned_minus_1_eq_mask mask_eq_exp_minus_1)
    moreover have "unat now \<le> unat now'" using assms(2) by (simp add: word_le_nat_alt)
    ultimately show False by linarith
  qed
  then show ?thesis by (auto simp: io_canStop_def getNextTimerInterval_def m Let_def not_le)
qed

section \<open>The servers\<close>

lemma bind_server_new:
  assumes "ts_listen_socks ts = []" and "ts_accept_worker ts = []" and "ts_is_stop ts"
    and "bind_server (Some a) k (ts, h) = Inr (ts', h')"
  shows "ts_is_stop ts'" and "ts_accept_worker ts' = []" and "\<not> ts_is_stop (snd (ts_start ts'))"
    and "if bind_fails (a, k) then ts_listen_socks ts' = [] \<and> ts_accept_worker (snd (ts_start ts')) = []
      else \<exists>sock. listens_on sock (a, k) \<and> ts_listen_socks ts' = [sock] \<and>
        ts_accept_worker (snd (ts_start ts')) = [StartAccept sock]"
proof -
  obtain ok fails where b: "ts_bind_all [(a, k)] [] (ts, h) = (ok, fails, ts', h')"
    using assms(4) by (auto simp: bind_server_def ts_bind_def split: prod.splits)
  show stop: "ts_is_stop ts'" and acc: "ts_accept_worker ts' = []"
    using b assms(2,3) by (auto simp: ts_bind_all_def Let_def dest!: bind_loop_effect split: prod.splits if_splits)
  note e = ts_bind_all_effect [OF b]
  have "if bind_fails (a, k) then ts_listen_socks ts' = [] else \<exists>sock. listens_on sock (a, k) \<and> ts_listen_socks ts' = [sock]"
    using e assms(1) by (auto simp: list_all2_Cons2)
  with stop acc show "\<not> ts_is_stop (snd (ts_start ts'))"
    "if bind_fails (a, k) then ts_listen_socks ts' = [] \<and> ts_accept_worker (snd (ts_start ts')) = []
      else \<exists>sock. listens_on sock (a, k) \<and> ts_listen_socks ts' = [sock] \<and>
        ts_accept_worker (snd (ts_start ts')) = [StartAccept sock]"
    by (auto simp: ts_start_def split: if_splits)
qed

text \<open>What a server is before and after it is started: bound and not yet accepting, then running, and
  accepting on its socket if its address could be bound.\<close>

definition ready_server :: "Address \<times> kernel_answer \<times> bool \<Rightarrow> TcpServer \<Rightarrow> bool" where
  "ready_server x s \<longleftrightarrow> ts_is_stop s \<and> ts_accept_worker s = [] \<and>
     (if bind_fails x then ts_listen_socks s = []
      else \<exists>sock. listens_on sock x \<and> ts_listen_socks s = [sock])"

definition up_server :: "Address \<times> kernel_answer \<times> bool \<Rightarrow> TcpServer \<Rightarrow> bool" where
  "up_server x s \<longleftrightarrow> \<not> ts_is_stop s \<and>
     (if bind_fails x then ts_accept_worker s = []
      else \<exists>sock. listens_on sock x \<and> ts_accept_worker s = [StartAccept sock])"

text \<open>C15: When the modules load and both addresses can be looked up, the modules' \<^verbatim>\<open>onLoad\<close> is called before there
  is a server, then their \<^verbatim>\<open>onServerReady\<close> when both servers are bound and neither is started, then their
  \<^verbatim>\<open>onServerUp\<close> when both are started; each running server accepts on a socket for its address if that could
  be bound, and one whose address could not be bound is started all the same and accepts nothing.\<close>

theorem servers_started:
  assumes "\<forall>m \<in> set ms. load_ok m" and "ms = listAll (aw_order aw (as_modules st)) (as_modules st)"
    and "LookupAnyIPAddress resolve ''0.0.0.0:8020'' = Some a1"
    and "LookupAnyIPAddress resolve ''0.0.0.0:8037'' = Some a2"
  shows "\<exists>r1 r2 s1 s2 h' st'. run_fiber_start aw load_ok resolve timeout k1 k2 h st =
      Inr (Started s1 s2, h', st',
        map (\<lambda>m. (OnLoad m, [])) ms @ map (\<lambda>m. (OnServerReady m, [r1, r2])) ms @
        map (\<lambda>m. (OnServerUp m, [s1, s2])) ms) \<and>
    as_trace st' = as_trace st @ map OnLoad ms @ map OnServerReady ms @ map OnServerUp ms \<and>
    ready_server (a1, k1) r1 \<and> ready_server (a2, k2) r2 \<and> up_server (a1, k1) s1 \<and> up_server (a2, k2) s2"
proof -
  let ?n1 = "ts_setName ''xzmjx_http'' (new_HttpServer timeout)" and ?n2 = "ts_setName ''xzmjx_ws'' (new_WSServer timeout)"
  obtain t1 h1 where t1: "bind_server (Some a1) k1 (?n1, h) = Inr (t1, h1)"
    by (cases "ts_bind (a1, k1) (?n1, h)") (auto simp: bind_server_def)
  obtain t2 h2 where t2: "bind_server (Some a2) k2 (?n2, h1) = Inr (t2, h2)"
    by (cases "ts_bind (a2, k2) (?n2, h1)") (auto simp: bind_server_def)
  have n1: "ts_listen_socks ?n1 = []" "ts_accept_worker ?n1 = []" "ts_is_stop ?n1"
    by (simp_all add: ts_setName_def new_HttpServer_def new_TcpServer_def)
  have n2: "ts_listen_socks ?n2 = []" "ts_accept_worker ?n2 = []" "ts_is_stop ?n2"
    by (simp_all add: ts_setName_def new_WSServer_def new_TcpServer_def)
  let ?s1 = "snd (ts_start t1)" and ?s2 = "snd (ts_start t2)"
  let ?st = "call_modules aw OnServerUp (call_modules aw OnServerReady (call_modules aw OnLoad st))"
  have "\<not> list_ex (\<lambda>m. \<not> load_ok m) (listAll (aw_order aw (as_modules st)) (as_modules st))"
    using assms(1,2) by (simp add: list_ex_iff)
  then have r: "run_fiber_start aw load_ok resolve timeout k1 k2 h st =
      Inr (Started ?s1 ?s2, h2, ?st, map (\<lambda>m. (OnLoad m, [])) ms @ map (\<lambda>m. (OnServerReady m, [t1, t2])) ms @
        map (\<lambda>m. (OnServerUp m, [?s1, ?s2])) ms)"
    using assms(2,3,4) t1 t2 by (simp add: run_fiber_start_def tell_modules_def call_modules_def Let_def)
  have tr: "as_trace ?st = as_trace st @ map OnLoad ms @ map OnServerReady ms @ map OnServerUp ms"
    using assms(2) by (simp add: call_modules_def)
  have "ready_server (a1, k1) t1 \<and> ready_server (a2, k2) t2 \<and> up_server (a1, k1) ?s1 \<and> up_server (a2, k2) ?s2"
    using bind_server_new [OF n1 t1] bind_server_new [OF n2 t2]
    by (auto simp: ready_server_def up_server_def split: if_splits)
  with r tr show ?thesis by blast
qed


text \<open>Each server is found under its type, and no other type is.\<close>

lemma getServer_found:
  "getServer ''http'' (m_servers (Started s1 s2)) srvs = (True, [s1])"
  "getServer ''ws'' (m_servers (Started s1 s2)) srvs = (True, [s2])"
  "type \<noteq> ''http'' \<Longrightarrow> type \<noteq> ''ws'' \<Longrightarrow> getServer type (m_servers (Started s1 s2)) srvs = (False, srvs)"
  by (auto simp: getServer_def m_servers_def push_server_def args.map_find_set args.map_ok_set)

section \<open>Examples\<close>

text \<open>A program with two variables, and another process that runs with number 4711.\<close>

definition example_config :: "unit Config" where
  "example_config = new_Config\<lparr>cf_map :=
     [''server.work_path'' \<mapsto> new_ConfigVar ''server.work_path'' (CStr ''/w'') [],
      ''server.pid_file'' \<mapsto> new_ConfigVar ''server.pid_file'' (CStr ''x'') []]\<rparr>"

definition example_world :: "string list app_world" where
  "example_world =
     \<lparr>aw_link = Some ''/bin/xzmjx'', aw_argv = [''xzmjx'', ''-s''],
      aw_at = (\<lambda>p. if p = ''/w/x'' then Some (Leaf S_IFREG) else None), aw_doc = (\<lambda>_. None),
      aw_text = (\<lambda>p. if p = ''/w/x'' then Some (dec 4711) else None), aw_alive = (\<lambda>pid. pid = 4711),
      aw_linker = \<lparr>dl_open = (\<lambda>_. None), dl_create = (\<lambda>_. None), dl_destory = (\<lambda>_. False)\<rparr>,
      aw_order = (\<lambda>_. []), aw_sys = list_fs\<rparr>"

definition example_state :: "(unit, string list) app_state" where
  "example_state =
     \<lparr>as_env = new_Env, as_config = example_config, as_world = (), as_modules = Map.empty, as_trace = [],
      as_output = [], as_fs = [''/'', ''.'']\<rparr>"

lemma example_values:
  "str_value ''server.work_path'' example_config = ''/w''" "str_value ''server.pid_file'' example_config = ''x''"
  by (simp_all add: str_value_def example_config_def new_Config_def new_ConfigVar_def)

theorem second_server_refused_witness:
  "\<forall>lib st. app_init lib example_world st \<noteq> Inr (True, example_state)"
proof (intro allI)
  fix lib st
  obtain m where m: "app_main True 4711 3 0 Return (TimerManager_new (\<lambda>_. Timer_at 0)) example_config =
      Inr (Some ((''/w/x'', dec 4711), m))"
    by (simp add: app_main_def IOManager_new_def start_def Scheduler_new_def example_values Let_def)
  show "app_init lib example_world st \<noteq> Inr (True, example_state)"
    by (rule second_server_refused [OF m]) (simp_all add: example_world_def example_state_def)
qed

text \<open>With one module, an address that can be bound and one that cannot.\<close>

definition example_module :: module_ptr where
  "example_module = \<lparr>mp_module = new_Module ''chat'' ''1'' ''libchat.so'', mp_handle = 1, mp_destory = True\<rparr>"

theorem servers_started_witness:
  "\<exists>r1 r2 s1 s2 h' st'. run_fiber_start (example_world\<lparr>aw_order := \<lambda>_. [''chat/1'']\<rparr>) (\<lambda>_. True)
       (\<lambda>_ _. Some [IPv4 (new_IPv4Address XZMJX_Little_Endian [] 0 8020)]) 1000
       (answer 7 True, True) (answer 8 False, True) socket_fd_hooks
       (example_state\<lparr>as_modules := [''chat/1'' \<mapsto> example_module]\<rparr>) =
       Inr (Started s1 s2, h', st', [(OnLoad example_module, []), (OnServerReady example_module, [r1, r2]),
         (OnServerUp example_module, [s1, s2])]) \<and>
     ts_is_stop r1 \<and> ts_is_stop r2 \<and> \<not> ts_is_stop s1 \<and> \<not> ts_is_stop s2 \<and>
     (\<exists>sock. sk_fd sock = 7 \<and> ts_accept_worker s1 = [StartAccept sock]) \<and> ts_accept_worker s2 = []"
proof -
  let ?a = "IPv4 (new_IPv4Address XZMJX_Little_Endian [] 0 8020)"
  let ?aw = "example_world\<lparr>aw_order := \<lambda>_. [''chat/1'']\<rparr>" and ?st = "example_state\<lparr>as_modules := [''chat/1'' \<mapsto> example_module]\<rparr>"
  have a: "LookupAnyIPAddress (\<lambda>_ _. Some [?a]) host = Some ?a" for host
    by (simp add: LookupAnyIPAddress_def Lookup_addr_def split_beta)
  have "\<forall>m \<in> set [example_module]. (\<lambda>_. True) m" "[example_module] = listAll (aw_order ?aw (as_modules ?st)) (as_modules ?st)"
    by (simp_all add: listAll_def map_filter_simps)
  from servers_started [OF this a a, of 1000 "(answer 7 True, True)" "(answer 8 False, True)" socket_fd_hooks]
  show ?thesis
    by (auto simp: ready_server_def up_server_def bind_fails_def listens_on_def answer_def split: if_splits)
qed

end
