(* ===== verification/Stream_Buffers.thy ===== *)
theory Stream_Buffers
  imports Byte_Store Streams
begin

text \<open>
  Transfers between a socket stream and a \<^verbatim>\<open>ByteArray\<close> (\<^verbatim>\<open>socketstream.cpp\<close>, \<^verbatim>\<open>stream.cpp\<close>): the views of the
  buffer are handed to \<^verbatim>\<open>recvmsg\<close> and \<^verbatim>\<open>sendmsg\<close>.  The kernel fills the pieces of a view in order, and
  takes the bytes of the pieces in order.
\<close>

section \<open>Operations\<close>

datatype stream_error = BufferError ba_error | BehindVector

definition in_buffer :: "ba_error + 'a \<Rightarrow> stream_error + 'a" where
  "in_buffer r = (case r of Inl e \<Rightarrow> Inl (BufferError e) | Inr x \<Rightarrow> Inr x)"

text \<open>The effect of \<^verbatim>\<open>recvmsg\<close> on the blocks.\<close>

fun scatter :: "Node list \<Rightarrow> iovec list \<Rightarrow> byte list \<Rightarrow> Node list" where
  "scatter ns [] bs = ns"
| "scatter ns (v # vs) bs =
     scatter (ns[iov_node v := overwrite (ns ! iov_node v) (iov_off v) (take (iov_len v) bs)]) vs
       (drop (iov_len v) bs)"

definition iov_total :: "iovec list \<Rightarrow> nat" where
  "iov_total iovs = sum_list (map iov_len iovs)"

text \<open>\<^verbatim>\<open>read(ByteArray::ptr, size_t)\<close>.\<close>

definition ss_read_ba ::
  "nat \<Rightarrow> ByteArray \<Rightarrow> SocketStream \<Rightarrow> stream_error + int \<times> ByteArray \<times> SocketStream" where
  "ss_read_ba n ba st =
     (if \<not> ss_isConnected st then Inr (-1, ba, st)
      else
        rbind (in_buffer (getWriteBuffers [] n ba)) (\<lambda>(_, iov, ba).
          let (rt, bs, s) = sock_recv (iov_total iov) (the (m_socket st));
              ba = ba\<lparr>m_nodes := scatter (m_nodes ba) iov bs\<rparr>;
              st = st\<lparr>m_socket := Some s\<rparr> in
          if rt > 0 then
            rbind (in_buffer (setPosition (m_position ba + nat rt) ba)) (\<lambda>ba. Inr (rt, ba, st))
          else Inr (rt, ba, st)))"

text \<open>\<^verbatim>\<open>write(ByteArray::ptr, size_t)\<close>: the number of bytes is passed as the number of pieces.\<close>

definition ss_write_ba ::
  "nat \<Rightarrow> ByteArray \<Rightarrow> SocketStream \<Rightarrow> stream_error + int \<times> ByteArray \<times> SocketStream" where
  "ss_write_ba n ba st =
     (if \<not> ss_isConnected st then Inr (-1, ba, st)
      else
        rbind (in_buffer (getReadBuffers [] n ba)) (\<lambda>(_, iov).
          if n > length iov then Inl BehindVector
          else
            let (rt, s) = sock_send (gather (m_nodes ba) (take n iov)) (the (m_socket st));
                st = st\<lparr>m_socket := Some s\<rparr> in
            if rt > 0 then
              rbind (in_buffer (setPosition (m_position ba + nat rt) ba)) (\<lambda>ba. Inr (rt, ba, st))
            else Inr (rt, ba, st)))"

text \<open>The transfers of a fixed size: every round asks for the whole length again.\<close>

function read_fixed_ba_loop ::
  "int \<Rightarrow> nat \<Rightarrow> ByteArray \<Rightarrow> SocketStream \<Rightarrow> stream_error + int \<times> ByteArray \<times> SocketStream" where
  "read_fixed_ba_loop left n ba st =
     (if left > 0 then
        rbind (ss_read_ba n ba st) (\<lambda>(rt, ba, st).
          if rt \<le> 0 then Inr (rt, ba, st) else read_fixed_ba_loop (left - rt) n ba st)
      else Inr (to_int n, ba, st))"
  by pat_completeness auto
termination
  by (relation "measure (\<lambda>(left, n, ba, st). nat left)") auto

definition readFixedSize_ba ::
  "ByteArray \<Rightarrow> nat \<Rightarrow> SocketStream \<Rightarrow> stream_error + int \<times> ByteArray \<times> SocketStream" where
  "readFixedSize_ba ba n st = read_fixed_ba_loop (to_int n) n ba st"

function write_fixed_ba_loop ::
  "int \<Rightarrow> nat \<Rightarrow> ByteArray \<Rightarrow> SocketStream \<Rightarrow> stream_error + int \<times> ByteArray \<times> SocketStream" where
  "write_fixed_ba_loop left n ba st =
     (if left > 0 then
        rbind (ss_write_ba n ba st) (\<lambda>(rt, ba, st).
          if rt \<le> 0 then Inr (rt, ba, st) else write_fixed_ba_loop (left - rt) n ba st)
      else Inr (to_int n, ba, st))"
  by pat_completeness auto
termination
  by (relation "measure (\<lambda>(left, n, ba, st). nat left)") auto

definition writeFixedSize_ba ::
  "ByteArray \<Rightarrow> nat \<Rightarrow> SocketStream \<Rightarrow> stream_error + int \<times> ByteArray \<times> SocketStream" where
  "writeFixedSize_ba ba n st = write_fixed_ba_loop (to_int n) n ba st"

declare read_fixed_ba_loop.simps [simp del] write_fixed_ba_loop.simps [simp del]

section \<open>Receiving\<close>

lemma in_buffer_simps [simp]: "in_buffer (Inr x) = Inr x" "in_buffer (Inl e) = Inl (BufferError e)"
  by (simp_all add: in_buffer_def)

text \<open>The view of a well-formed buffer for writing, as for reading.\<close>

lemma getWriteBuffers_total:
  assumes "ba_wf ba" and "cur_ok ba" and "0 < n"
  shows "getWriteBuffers [] n ba =
    (let b = m_base_size ba; k = m_position ba div b; npos = m_position ba mod b in
     if n \<le> b - npos then Inr (n, [\<lparr>iov_node = k, iov_off = npos, iov_len = n\<rparr>], addCapacity n ba)
     else if n \<le> b then
       Inr (n, [\<lparr>iov_node = k, iov_off = npos, iov_len = b - npos\<rparr>,
                \<lparr>iov_node = Suc k, iov_off = 0, iov_len = n\<rparr>], addCapacity n ba)
     else Inl NullDeref)"
proof -
  let ?b = "m_base_size ba" and ?p = "m_position ba" and ?ba = "addCapacity n ba"
  note wf = ba_wfD [OF wf_addCapacity [OF assms(1), of n]]
  have room: "?p + n \<le> length (m_nodes ?ba) * ?b" using addCapacity_room [OF assms(1), of n] wf(4) by simp
  then have k: "?p div ?b < length (m_nodes ?ba)" using assms(3) by (intro block_bound) linarith
  have uni: "\<forall>x \<in> set (m_nodes ?ba). length x = ?b" using wf(3) by simp
  have "?p mod ?b < ?b" using wf(1) by simp
  moreover have "?p div ?b * ?b + ?p mod ?b + n \<le> length (m_nodes ?ba) * ?b" using room by simp
  ultimately show ?thesis
    using iov_loop_cases [OF uni k, of "?p mod ?b" n] assms wf(1) uni k cur_ok_addCapacity [OF assms]
    by (simp add: getWriteBuffers_def Let_def node_deref_def)
qed

lemma scatter_one:
  assumes "\<forall>x \<in> set ns. length x = b" and "k < length ns" and "npos + length bs \<le> b" and "length bs \<le> l"
  shows "concat (scatter ns [\<lparr>iov_node = k, iov_off = npos, iov_len = l\<rparr>] bs) = overwrite (concat ns) (k * b + npos) bs"
    and "\<forall>x \<in> set (scatter ns [\<lparr>iov_node = k, iov_off = npos, iov_len = l\<rparr>] bs). length x = b"
    and "length (scatter ns [\<lparr>iov_node = k, iov_off = npos, iov_len = l\<rparr>] bs) = length ns"
proof -
  have s: "scatter ns [\<lparr>iov_node = k, iov_off = npos, iov_len = l\<rparr>] bs = ns[k := overwrite (ns ! k) npos bs]"
    using assms(4) by simp
  have "length (overwrite (ns ! k) npos bs) = b" using assms(1-3) by simp
  then show "\<forall>x \<in> set (scatter ns [\<lparr>iov_node = k, iov_off = npos, iov_len = l\<rparr>] bs). length x = b"
    unfolding s by (rule uniform_update [OF assms(1)])
  show "concat (scatter ns [\<lparr>iov_node = k, iov_off = npos, iov_len = l\<rparr>] bs) = overwrite (concat ns) (k * b + npos) bs"
    unfolding s by (rule concat_overwrite_block [OF assms(1-3)])
  show "length (scatter ns [\<lparr>iov_node = k, iov_off = npos, iov_len = l\<rparr>] bs) = length ns" unfolding s by simp
qed

lemma scatter_two:
  assumes "\<forall>x \<in> set ns. length x = b" and "Suc k < length ns" and "npos < b" and "l \<le> b"
    and "length bs \<le> b - npos + l"
  defines "iov \<equiv> [\<lparr>iov_node = k, iov_off = npos, iov_len = b - npos\<rparr>, \<lparr>iov_node = Suc k, iov_off = 0, iov_len = l\<rparr>]"
  shows "concat (scatter ns iov bs) = overwrite (concat ns) (k * b + npos) bs"
    and "\<forall>x \<in> set (scatter ns iov bs). length x = b"
    and "length (scatter ns iov bs) = length ns"
proof -
  let ?as = "take (b - npos) bs" and ?cs = "drop (b - npos) bs"
  let ?ns = "ns[k := overwrite (ns ! k) npos ?as]"
  have fit: "npos + length ?as \<le> b" "0 + length ?cs \<le> b" using assms(3,4,5) by auto
  have k: "k < length ns" "Suc k < length ?ns" using assms(2) by auto
  have "length (overwrite (ns ! k) npos ?as) = b" using assms(1) k(1) fit(1) by simp
  then have uni: "\<forall>x \<in> set ?ns. length x = b" by (rule uniform_update [OF assms(1)])
  have s: "scatter ns iov bs = ?ns[Suc k := overwrite (?ns ! Suc k) 0 ?cs]"
    using assms(5) by (simp add: iov_def)
  have c1: "concat ?ns = overwrite (concat ns) (k * b + npos) ?as"
    by (rule concat_overwrite_block [OF assms(1) k(1) fit(1)])
  have c2: "concat (scatter ns iov bs) = overwrite (concat ?ns) (Suc k * b + 0) ?cs"
    unfolding s by (rule concat_overwrite_block [OF uni k(2) fit(2)])
  show "concat (scatter ns iov bs) = overwrite (concat ns) (k * b + npos) bs"
  proof (cases "length bs \<le> b - npos")
    case True
    then show ?thesis using c1 c2 by simp
  next
    case False
    then have "Suc k * b + 0 = (k * b + npos) + length ?as" using assms(3) by simp
    moreover have "k * b + npos \<le> length (concat ns)"
    proof -
      have "k * b + npos \<le> Suc k * b" using assms(3) by simp
      also have "\<dots> \<le> length ns * b" using k(1) by (intro mult_le_mono1) simp
      finally show ?thesis using length_concat_uniform [OF assms(1)] by simp
    qed
    ultimately show ?thesis using c1 c2 overwrite_grow [of "k * b + npos" "concat ns" ?as ?cs] by (simp add: add.commute)
  qed
  have "length (overwrite (?ns ! Suc k) 0 ?cs) = b" using uni k(2) fit(2) by (subst length_overwrite) (auto simp del: nth_list_update_neq)
  then show "\<forall>x \<in> set (scatter ns iov bs). length x = b"
    unfolding s by (rule uniform_update [OF uni])
  show "length (scatter ns iov bs) = length ns" unfolding s by simp
qed

text \<open>What \<^verbatim>\<open>recvmsg\<close> delivered is a contiguous overwriting of the memory at the position.\<close>

lemma received_memory:
  assumes "ba_wf ba" and "cur_ok ba" and "0 < n" and "getWriteBuffers [] n ba = Inr (m, iov, ba1)"
    and "length bs \<le> iov_total iov"
  shows "ba1 = addCapacity n ba \<and> concat (scatter (m_nodes ba1) iov bs) = overwrite (memory ba1) (m_position ba) bs \<and>
    ba_wf (ba1\<lparr>m_nodes := scatter (m_nodes ba1) iov bs\<rparr>) \<and> m_position ba + length bs \<le> m_capacity ba1 \<and>
    n \<le> iov_total iov"
proof -
  let ?b = "m_base_size ba" and ?p = "m_position ba" and ?ba = "addCapacity n ba"
  let ?k = "?p div ?b" and ?npos = "?p mod ?b"
  have wf1: "ba_wf ?ba" using assms(1) by (rule wf_addCapacity)
  note wf = ba_wfD [OF wf1]
  have room: "?p + n \<le> length (m_nodes ?ba) * ?b" using addCapacity_room [OF assms(1), of n] wf(4) by simp
  have uni: "\<forall>x \<in> set (m_nodes ?ba). length x = ?b" using wf(3) by simp
  have k: "?k < length (m_nodes ?ba)" using room assms(3) by (intro block_bound) linarith
  have npos: "?npos < ?b" "?k * ?b + ?npos = ?p" using wf(1) by simp_all
  have ba1: "ba1 = ?ba" and cap: "m_capacity ?ba = length (m_nodes ?ba) * ?b"
    using assms(4) getWriteBuffers_total [OF assms(1-3)] wf(4) by (auto simp: Let_def split: if_splits)
  have keep: "ba_wf (?ba\<lparr>m_nodes := ns\<rparr>)" if "\<forall>x \<in> set ns. length x = ?b" "length ns = length (m_nodes ?ba)" for ns
    using wf1 that by (auto simp: ba_wf_def)
  show ?thesis
  proof (cases "n \<le> ?b - ?npos")
    case True
    then have iov: "iov = [\<lparr>iov_node = ?k, iov_off = ?npos, iov_len = n\<rparr>]"
      using assms(4) getWriteBuffers_total [OF assms(1-3)] by (auto simp: Let_def)
    have l: "length bs \<le> n" using assms(5) by (simp add: iov iov_total_def)
    have fit: "?npos + length bs \<le> ?b" using l True npos(1) by linarith
    note sc = scatter_one [OF uni k fit l, unfolded npos(2), folded memory_def iov]
    show ?thesis
      unfolding ba1 using sc(1) keep [OF sc(2,3)] room l cap
      by (simp add: iov_total_def iov del: scatter.simps)
  next
    case False
    then have n: "n \<le> ?b" and iov: "iov = [\<lparr>iov_node = ?k, iov_off = ?npos, iov_len = ?b - ?npos\<rparr>,
        \<lparr>iov_node = Suc ?k, iov_off = 0, iov_len = n\<rparr>]"
      using assms(4) getWriteBuffers_total [OF assms(1-3)] by (auto simp: Let_def split: if_splits)
    have l: "length bs \<le> ?b - ?npos + n" using assms(5) by (simp add: iov iov_total_def)
    have k': "Suc ?k < length (m_nodes ?ba)"
      using next_block_bound [of ?k ?b ?npos n "length (m_nodes ?ba)"] room False npos by simp
    have "?npos + length bs \<le> ?b + ?b" using l n npos(1) by linarith
    then have "?p + length bs \<le> ?k * ?b + (?b + ?b)" using npos(2) by linarith
    then have "?p + length bs \<le> Suc (Suc ?k) * ?b" by simp
    also have "\<dots> \<le> length (m_nodes ?ba) * ?b" using k' by (intro mult_le_mono1) simp
    finally have "?p + length bs \<le> m_capacity ?ba" using cap by simp
    moreover note sc = scatter_two [OF uni k' npos(1) n l, unfolded npos(2), folded memory_def iov]
    moreover have "n \<le> iov_total iov" by (simp add: iov iov_total_def)
    ultimately show ?thesis
      unfolding ba1 using sc(1) keep [OF sc(2,3)] by blast
  qed
qed


lemma sock_recv_data:
  assumes "sock_recv n s = (rt, bs, s')" and "m_is_connect s"
  shows "length bs \<le> n" and "rt > 0 \<Longrightarrow> rt = int (length bs)" and "\<not> rt > 0 \<Longrightarrow> bs = []"
  using assms by (auto simp: sock_recv_def sys_recv_def min_def split: list.splits option.splits if_splits)

lemma setPosition_received:
  assumes "ba_wf ba" and "pos = m_position ba + k" and "pos \<le> m_capacity ba"
  shows "\<exists>ba'. setPosition pos ba = Inr ba' \<and> ba_ok ba' \<and> contents ba' = take (max (m_size ba) pos) (memory ba) \<and>
    m_position ba' = pos \<and> m_base_size ba' = m_base_size ba"
proof -
  obtain ba' where "setPosition pos ba = Inr ba'"
    using assms by (simp add: setPosition_total)
  then show ?thesis
    using ba_wf_setPosition [OF assms(1)] by (auto simp: ba_ok_def contents_def memory_def)
qed

text \<open>Receiving into a buffer.  When the length is at most that of a block, all that the kernel delivers,
  which may be more than was asked for, is written to the buffer at its position, in order, and the
  position moves behind it; a greater length always fails.\<close>

lemma read_into_buffer_core:
  assumes "ba_wf ba" and "cur_ok ba" and "0 < n" and "m_socket st = Some s" and "m_is_connect s"
  shows "if n \<le> m_base_size ba then
      \<exists>total rt bs s' ba'. n \<le> total \<and> sock_recv total s = (rt, bs, s') \<and>
        ss_read_ba n ba st = Inr (rt, ba', st\<lparr>m_socket := Some s'\<rparr>) \<and> ba_wf ba' \<and> cur_ok ba' \<and>
        contents ba' = overwrite (contents ba) (m_position ba) bs \<and> m_position ba' = m_position ba + length bs \<and>
        m_base_size ba' = m_base_size ba
    else ss_read_ba n ba st = Inl (BufferError NullDeref)"
proof (cases "n \<le> m_base_size ba")
  case True
  have con: "ss_isConnected st" using assms(4,5) by (simp add: ss_isConnected_def)
  obtain m iov ba1 where g: "getWriteBuffers [] n ba = Inr (m, iov, ba1)"
    using getWriteBuffers_total [OF assms(1-3)] True by (auto simp: Let_def split: if_splits)
  obtain rt bs s' where r: "sock_recv (iov_total iov) s = (rt, bs, s')" by (cases "sock_recv (iov_total iov) s")
  note d = sock_recv_data [OF r assms(5)]
  note mem = received_memory [OF assms(1-3) g d(1)]
  define ba2 where "ba2 = ba1\<lparr>m_nodes := scatter (m_nodes ba1) iov bs\<rparr>"
  have wf1: "ba_wf ba1" and wf2: "ba_wf ba2" using mem wf_addCapacity [OF assms(1)] by (auto simp: ba2_def)
  have base: "m_base_size ba2 = m_base_size ba" using mem by (auto simp: ba2_def)
  have same: "m_position ba2 = m_position ba" "m_size ba2 = m_size ba" "m_capacity ba2 = m_capacity ba1"
    "memory ba2 = overwrite (memory ba1) (m_position ba) bs"
    using mem by (auto simp: ba2_def memory_def)
  have cont: "take (max (m_size ba) (m_position ba + length bs)) (memory ba2) = overwrite (contents ba) (m_position ba) bs"
  proof -
    have "contents ba = take (m_size ba) (memory ba1)"
      using mem contents_addCapacity [OF assms(1), of n] by (simp add: contents_def)
    moreover have "m_position ba + length bs \<le> m_capacity ba1" "m_position ba1 = m_position ba" "m_size ba1 = m_size ba"
      using mem by auto
    ultimately show ?thesis
      using take_max_overwrite [of "m_position ba" "m_size ba" "memory ba1" bs] same(4)
        length_memory [OF wf1] ba_wfD(5,6) [OF wf1] by simp
  qed
  have step: "ss_read_ba n ba st =
      (if rt > 0 then rbind (in_buffer (setPosition (m_position ba2 + nat rt) ba2)) (\<lambda>ba. Inr (rt, ba, st\<lparr>m_socket := Some s'\<rparr>))
       else Inr (rt, ba2, st\<lparr>m_socket := Some s'\<rparr>))"
    using con g r assms(4) by (simp add: ss_read_ba_def Let_def ba2_def)
  show ?thesis
  proof (cases "rt > 0")
    case rt: True
    obtain ba' where b: "setPosition (m_position ba + length bs) ba2 = Inr ba'" "ba_ok ba'"
        "contents ba' = take (max (m_size ba) (m_position ba + length bs)) (memory ba2)"
        "m_position ba' = m_position ba + length bs" "m_base_size ba' = m_base_size ba2"
      using setPosition_received [OF wf2, of "m_position ba + length bs" "length bs"] mem same by auto
    have "nat rt = length bs" using d(2) [OF rt] by simp
    then have "ss_read_ba n ba st = Inr (rt, ba', st\<lparr>m_socket := Some s'\<rparr>)"
      using step rt b(1) same(1) by simp
    then show ?thesis using True r mem b cont base by (auto simp: ba_ok_def)
  next
    case False
    then have bs: "bs = []" by (rule d(3))
    have "cur_ok ba2"
      using mem cur_ok_addCapacity [OF assms(1-3)] addCapacity_room [OF assms(1), of n] assms(3) ba_wfD(4) [OF wf2]
      by (auto simp: ba2_def cur_ok_def cur_at_def)
    moreover have "contents ba2 = overwrite (contents ba) (m_position ba) bs"
      using cont bs same by (simp add: contents_def max_absorb1 ba_wfD(5) [OF assms(1)])
    ultimately show ?thesis using True r mem step False wf2 same bs base by auto
  qed
next
  case False
  moreover have "ss_isConnected st" using assms(4,5) by (simp add: ss_isConnected_def)
  moreover have "getWriteBuffers [] n ba = Inl NullDeref"
    using getWriteBuffers_total [OF assms(1-3)] False by (simp add: Let_def)
  ultimately show ?thesis by (simp add: ss_read_ba_def)
qed

section \<open>Sending\<close>

text \<open>Sending from a buffer: since the number of bytes is taken for the number of pieces, and there are at
  most two of these, three or more bytes are never sent; a single byte is, and the position moves.\<close>

lemma write_from_buffer_core:
  assumes "ba_wf ba" and "cur_ok ba" and "0 < n" and "n \<le> m_size ba - m_position ba"
    and "m_socket st = Some s" and "m_is_connect s"
  shows "3 \<le> n \<Longrightarrow> \<exists>e. ss_write_ba n ba st = Inl e"
    and "n = 1 \<Longrightarrow> budgets s = [] \<Longrightarrow>
      \<exists>ba'. ss_write_ba n ba st = Inr (1, ba', st\<lparr>m_socket := Some (s\<lparr>outgoing := outgoing s @ [contents ba ! m_position ba]\<rparr>)\<rparr>) \<and>
        ba_wf ba' \<and> cur_ok ba' \<and> contents ba' = contents ba \<and> m_position ba' = Suc (m_position ba)"
proof -
  have con: "ss_isConnected st" using assms(5,6) by (simp add: ss_isConnected_def)
  note g = getReadBuffers_total [OF assms(1-4), of "[]"]
  show "\<exists>e. ss_write_ba n ba st = Inl e" if "3 \<le> n"
    using that con g by (auto simp: ss_write_ba_def Let_def)
  assume n: "n = 1" and bud: "budgets s = []"
  let ?b = "m_base_size ba" and ?p = "m_position ba"
  note wf = ba_wfD [OF assms(1)]
  have npos: "?p mod ?b < ?b" "?p div ?b * ?b + ?p mod ?b = ?p" using wf(1) by simp_all
  have p: "?p < m_size ba" using assms(3,4) by linarith
  have k: "?p div ?b < length (m_nodes ba)" using p wf(4,6) by (intro block_bound) linarith
  have g1: "getReadBuffers [] n ba = Inr (1, [\<lparr>iov_node = ?p div ?b, iov_off = ?p mod ?b, iov_len = 1\<rparr>])"
    using g npos(1) n by (simp add: Let_def)
  have "take 1 (drop ?p (memory ba)) = [contents ba ! ?p]"
    using p wf(6) length_memory [OF assms(1)]
    by (simp add: contents_def take_Suc hd_drop_conv_nth)
  then have ga: "gather (m_nodes ba) [\<lparr>iov_node = ?p div ?b, iov_off = ?p mod ?b, iov_len = 1\<rparr>] = [contents ba ! ?p]"
    using take_drop_concat_block [OF wf(3) k, of "?p mod ?b" 1] npos by (simp add: gather_def memory_def)
  have send: "sock_send [contents ba ! ?p] s = (1, s\<lparr>outgoing := outgoing s @ [contents ba ! ?p]\<rparr>)"
    using bud assms(6) by (simp add: sock_send_def sys_send_def)
  obtain ba' where "setPosition (Suc ?p) ba = Inr ba'" "ba_ok ba'" "contents ba' = take (max (m_size ba) (Suc ?p)) (memory ba)"
      "m_position ba' = Suc ?p"
    using setPosition_received [OF assms(1), of "Suc ?p" 1] p wf(6) by auto
  then show "\<exists>ba'. ss_write_ba n ba st = Inr (1, ba', st\<lparr>m_socket := Some (s\<lparr>outgoing := outgoing s @ [contents ba ! ?p]\<rparr>)\<rparr>) \<and>
        ba_wf ba' \<and> cur_ok ba' \<and> contents ba' = contents ba \<and> m_position ba' = Suc ?p"
    using con g1 n ga send assms(5) p
    by (auto simp: ss_write_ba_def Let_def ba_ok_def contents_def max_absorb1 Suc_le_eq)
qed


section \<open>Receiving a fixed size\<close>

lemma sock_recv_connected: "sock_recv n s = (rt, bs, s') \<Longrightarrow> m_is_connect s' = m_is_connect s"
  by (auto simp: sock_recv_def sys_recv_def split: list.splits option.splits if_splits)

text \<open>The bytes the peer sends that have not been received yet, in the order it sends them.\<close>

definition arriving :: "Socket \<Rightarrow> byte list" where
  "arriving s = concat (map (\<lambda>c. case c of None \<Rightarrow> [] | Some bs \<Rightarrow> bs) (incoming s))"

lemma sock_recv_arriving: "sock_recv n s = (rt, bs, s') \<Longrightarrow> arriving s = bs @ arriving s'"
  by (auto simp: sock_recv_def sys_recv_def arriving_def split: list.splits option.splits if_splits)

lemma read_fixed_ba_loop_collects:
  assumes "ba_wf ba" and "cur_ok ba" and "0 < n" and "n \<le> m_base_size ba"
    and "m_socket st = Some s" and "m_is_connect s" and "0 < to_int n"
  shows "\<exists>rt ba' st' s' bs. read_fixed_ba_loop left n ba st = Inr (rt, ba', st') \<and> ba_wf ba' \<and> cur_ok ba' \<and>
    m_socket st' = Some s' \<and> arriving s = bs @ arriving s' \<and>
    contents ba' = overwrite (contents ba) (m_position ba) bs \<and> m_position ba' = m_position ba + length bs \<and>
    (if left \<le> int (length bs) then rt = to_int n else rt \<le> 0)"
  using assms
proof (induction "nat left" arbitrary: left ba st s rule: less_induct)
  case less
  show ?case
  proof (cases "left > 0")
    case False
    then show ?thesis using less.prems by (subst read_fixed_ba_loop.simps) (auto intro!: exI [of _ "[]"])
  next
    case True
    obtain total rt bs s' ba' where r: "n \<le> total" "sock_recv total s = (rt, bs, s')"
        "ss_read_ba n ba st = Inr (rt, ba', st\<lparr>m_socket := Some s'\<rparr>)" "ba_wf ba'" "cur_ok ba'"
        "contents ba' = overwrite (contents ba) (m_position ba) bs" "m_position ba' = m_position ba + length bs"
        "m_base_size ba' = m_base_size ba"
      using read_into_buffer_core [OF less.prems(1-3,5,6)] less.prems(4) by auto
    note arr = sock_recv_arriving [OF r(2)]
    show ?thesis
    proof (cases "rt > 0")
      case False
      then have "bs = []" by (rule sock_recv_data(3) [OF r(2) less.prems(6)])
      moreover have "read_fixed_ba_loop left n ba st = Inr (rt, ba', st\<lparr>m_socket := Some s'\<rparr>)"
        using True False r(3) by (subst read_fixed_ba_loop.simps) simp
      ultimately show ?thesis using True False r arr by (auto intro!: exI [of _ "[]"])
    next
      case rt: True
      then have len: "rt = int (length bs)" using sock_recv_data(2) [OF r(2) less.prems(6)] by simp
      have "nat (left - rt) < nat left" using True rt by simp
      from less.hyps [OF this r(4,5) less.prems(3), of "st\<lparr>m_socket := Some s'\<rparr>" s']
      obtain rt2 ba2 st2 s2 bs2 where i: "read_fixed_ba_loop (left - rt) n ba' (st\<lparr>m_socket := Some s'\<rparr>) = Inr (rt2, ba2, st2)"
          "ba_wf ba2" "cur_ok ba2" "m_socket st2 = Some s2" "arriving s' = bs2 @ arriving s2"
          "contents ba2 = overwrite (contents ba') (m_position ba') bs2"
          "m_position ba2 = m_position ba' + length bs2"
          "if left - rt \<le> int (length bs2) then rt2 = to_int n else rt2 \<le> 0"
        using less.prems(4,6,7) r(8) sock_recv_connected [OF r(2)] by auto
      have "m_position ba \<le> length (contents ba)"
        using ba_wfD(5) [OF less.prems(1)] length_contents [OF less.prems(1)] by simp
      then have "contents ba2 = overwrite (contents ba) (m_position ba) (bs @ bs2)"
        using i(6) r(6,7) by (simp add: overwrite_grow)
      moreover have "m_position ba2 = m_position ba + length (bs @ bs2)" using i(7) r(7) by simp
      moreover have "if left \<le> int (length (bs @ bs2)) then rt2 = to_int n else rt2 \<le> 0"
        using i(8) len by (auto split: if_splits)
      moreover have "read_fixed_ba_loop left n ba st = Inr (rt2, ba2, st2)"
        using True rt r(3) i(1) by (subst read_fixed_ba_loop.simps) simp
      moreover have "arriving s = (bs @ bs2) @ arriving s2" using arr i(5) by simp
      ultimately show ?thesis using i(2,3,4) by blast
    qed
  qed
qed

text \<open>C19: Receiving a fixed number of bytes (a positive number below \<open>2\<^sup>3\<^sup>1\<close>) into a buffer from a connected
  socket.  When the number is at most the size of a block, the call ends whatever the peer sends; a first
  part of what the peer sends has been taken from the socket, exactly these bytes stand in the buffer
  behind the old position, in the order they were sent, and the position moves behind them; the call
  returns the number when at least so many bytes were received, and nothing positive when fewer were.
  When the number is greater than the size of a block, the call dereferences a null pointer.\<close>

theorem read_fixed_into_buffer:
  assumes "ba_wf ba" and "cur_ok ba" and "0 < n" and "n < 2 ^ 31"
    and "m_socket st = Some s" and "m_is_connect s"
  shows "if n \<le> m_base_size ba then
      \<exists>rt ba' st' s' bs. readFixedSize_ba ba n st = Inr (rt, ba', st') \<and> ba_wf ba' \<and> cur_ok ba' \<and>
        m_socket st' = Some s' \<and> arriving s = bs @ arriving s' \<and>
        contents ba' = overwrite (contents ba) (m_position ba) bs \<and> m_position ba' = m_position ba + length bs \<and>
        (if n \<le> length bs then rt = int n else rt \<le> 0)
    else readFixedSize_ba ba n st = Inl (BufferError NullDeref)"
proof -
  have n: "to_int n = int n" using to_int_small [OF assms(4)] by simp
  show ?thesis
  proof (cases "n \<le> m_base_size ba")
    case True
    have "0 < to_int n" using n assms(3) by simp
    from read_fixed_ba_loop_collects [OF assms(1-3) True assms(5,6) this, of "int n", unfolded n of_nat_le_iff]
    show ?thesis using True unfolding readFixedSize_ba_def n by (simp only: if_True)
  next
    case False
    then show ?thesis
      using read_into_buffer_core [OF assms(1-3,5,6)] n assms(3)
      by (simp add: readFixedSize_ba_def read_fixed_ba_loop.simps)
  qed
qed

text \<open>Four bytes in two pieces.  Three are asked for, and all four are received.\<close>

definition two_pieces :: SocketStream where
  "two_pieces =
     \<lparr>m_socket = Some \<lparr>m_sock_fd = 5, m_is_connect = True, incoming = [Some [1, 2], Some [3, 4]], budgets = [], outgoing = []\<rparr>,
      m_owner = True\<rparr>"

theorem read_fixed_into_buffer_witness:
  "\<exists>ba' st' bs rest. readFixedSize_ba (ByteArray_new (\<lambda>_ _. 0) 4) 3 two_pieces = Inr (3, ba', st') \<and>
     contents ba' = bs \<and> [1, 2, 3, 4] = bs @ rest \<and> 3 \<le> length bs"
proof -
  let ?ba = "ByteArray_new (\<lambda>_ _. 0) 4"
  have c: "map_sum id fst (readFixedSize_ba ?ba 3 two_pieces) = Inr 3" by code_simp
  obtain s where s: "m_socket two_pieces = Some s" "m_is_connect s" "arriving s = [1, 2, 3, 4]"
    by (simp add: two_pieces_def arriving_def)
  have ba: "ba_wf ?ba" "cur_ok ?ba" "(0 :: nat) < 3" "(3 :: nat) < 2 ^ 31" "3 \<le> m_base_size ?ba"
    by (simp_all add: wf_ByteArray_new cur_ok_ByteArray_new)
  from read_fixed_into_buffer [OF ba(1-4) s(1,2)] ba(5) obtain rt ba' st' s' bs where
    r: "readFixedSize_ba ?ba 3 two_pieces = Inr (rt, ba', st')" "arriving s = bs @ arriving s'"
      "contents ba' = overwrite (contents ?ba) (m_position ?ba) bs" "if 3 \<le> length bs then rt = int 3 else rt \<le> 0"
    by auto
  have "rt = 3" using c r(1) by simp
  moreover have "contents ba' = bs" using r(3) by (simp add: overwrite_def contents_def)
  ultimately show ?thesis using r(1,2,4) s(3) by (auto split: if_splits)
qed

end
