(* ===== verification/Threads.thy ===== *)
theory Threads
  imports Prelude
begin

text \<open>
  \<^verbatim>\<open>mutex.h\<close> and \<^verbatim>\<open>thread.cpp\<close>: the guards that take and release locks, and threads.  The locks are those
  of \<^verbatim>\<open>pthread\<close>; what a guard does to its lock is the sequence of the calls it makes.  The start of a thread
  is a step relation on the creating and the new thread, which meet in a semaphore.
\<close>

section \<open>Guards\<close>

datatype lock_call = LockCall | RdlockCall | WrlockCall | UnlockCall

text \<open>A guard with the call that takes its lock, and the calls made so far.\<close>

record guard =
  g_acquire :: lock_call
  g_locked :: bool
  g_calls :: "lock_call list"

definition guard_new :: "lock_call \<Rightarrow> guard" where
  "guard_new acquire = \<lparr>g_acquire = acquire, g_locked = True, g_calls = [acquire]\<rparr>"

definition guard_lock :: "guard \<Rightarrow> guard" where
  "guard_lock g =
     (if \<not> g_locked g then g\<lparr>g_calls := g_calls g @ [g_acquire g], g_locked := True\<rparr> else g)"

definition guard_unlock :: "guard \<Rightarrow> guard" where
  "guard_unlock g =
     (if g_locked g then g\<lparr>g_calls := g_calls g @ [UnlockCall], g_locked := False\<rparr> else g)"

definition guard_destroy :: "guard \<Rightarrow> guard" where
  "guard_destroy g =
     (if g_locked g then g\<lparr>g_calls := g_calls g @ [UnlockCall], g_locked := False\<rparr> else g)"

text \<open>The three guards.\<close>

definition ScopedLockImpl :: guard where
  "ScopedLockImpl = guard_new LockCall"

definition WriteScopedLockImpl :: guard where
  "WriteScopedLockImpl = guard_new WrlockCall"

definition ReadScopedLockImpl :: guard where
  "ReadScopedLockImpl = guard_new RdlockCall"

section \<open>Thread objects\<close>

text \<open>\<open>th_thread\<close> is whether the handle is set; the names and the number belong to the object, the
  semaphore counts.  The second part of the state belongs to the new thread: its thread-local name and
  object, the name the kernel shows, and the function it runs.\<close>

record 'cb Thread =
  th_cb :: "'cb option"
  th_name :: string
  th_tid :: u64
  th_thread :: bool
  th_sem :: nat

record 'cb thread_local =
  tl_name :: string
  tl_this :: bool
  tl_kernel_name :: string
  tl_cb :: "'cb option"

definition new_Thread :: "'cb \<Rightarrow> string \<Rightarrow> 'cb Thread" where
  "new_Thread cb name =
     \<lparr>th_cb = Some cb, th_name = (if name = [] then ''UNKOWN'' else name), th_tid = 0, th_thread = False, th_sem = 0\<rparr>"

definition new_local :: "'cb thread_local" where
  "new_local = \<lparr>tl_name = ''UNKNOWN'', tl_this = False, tl_kernel_name = [], tl_cb = None\<rparr>"

text \<open>\<^verbatim>\<open>join\<close> and the destructor, with the calls they make; \<open>rc\<close> is the result of \<^verbatim>\<open>pthread_join\<close>, and the
  left side an exception.\<close>

datatype thread_call = JoinCall | DetachCall

definition th_join :: "int \<Rightarrow> 'cb Thread \<times> thread_call list \<Rightarrow> unit + 'cb Thread \<times> thread_call list" where
  "th_join rc st =
     (let (th, calls) = st in
      if th_thread th then
        if rc \<noteq> 0 then Inl () else Inr (th\<lparr>th_thread := False\<rparr>, calls @ [JoinCall])
      else Inr (th, calls))"

definition th_destroy :: "'cb Thread \<times> thread_call list \<Rightarrow> thread_call list" where
  "th_destroy st = (if th_thread (fst st) then snd st @ [DetachCall] else snd st)"

definition SetName :: "string \<Rightarrow> 'cb Thread \<Rightarrow> 'cb thread_local \<Rightarrow> 'cb Thread \<times> 'cb thread_local" where
  "SetName name th loc =
     (if name = [] then (th, loc)
      else (if tl_this loc then th\<lparr>th_name := name\<rparr> else th, loc\<lparr>tl_name := name\<rparr>))"

section \<open>The start of a thread\<close>

datatype creator_at = Creating | Waiting | Constructed | Failed
datatype runner_at = NotStarted | Entered | Named | Numbered | Titled | Swapped | Notified | Finished

record 'cb start_state =
  ss_thread :: "'cb Thread"
  ss_local :: "'cb thread_local"
  ss_creator :: creator_at
  ss_runner :: runner_at

definition start_of :: "'cb \<Rightarrow> string \<Rightarrow> 'cb start_state" where
  "start_of cb name =
     \<lparr>ss_thread = new_Thread cb name, ss_local = new_local, ss_creator = Creating, ss_runner = NotStarted\<rparr>"

text \<open>The steps: of the constructor (\<^verbatim>\<open>pthread_create\<close>, which may fail, and the wait) and of \<^verbatim>\<open>run\<close> in the new
  thread, whose number is \<open>tid\<close>.  What the function does once it is called, its own calls of
  \<^verbatim>\<open>SetName\<close> included, is not part of the start.\<close>

inductive start_step :: "u64 \<Rightarrow> 'cb start_state \<Rightarrow> 'cb start_state \<Rightarrow> bool" for tid where
  create: "ss_creator s = Creating \<Longrightarrow>
    start_step tid s (s\<lparr>ss_creator := Waiting, ss_runner := Entered, ss_thread := (ss_thread s)\<lparr>th_thread := True\<rparr>\<rparr>)"
| create_fails: "ss_creator s = Creating \<Longrightarrow> start_step tid s (s\<lparr>ss_creator := Failed\<rparr>)"
| sem_wait: "ss_creator s = Waiting \<Longrightarrow> 0 < th_sem (ss_thread s) \<Longrightarrow>
    start_step tid s (s\<lparr>ss_creator := Constructed, ss_thread := (ss_thread s)\<lparr>th_sem := th_sem (ss_thread s) - 1\<rparr>\<rparr>)"
| set_name: "ss_runner s = Entered \<Longrightarrow>
    start_step tid s (s\<lparr>ss_runner := Named,
      ss_local := (ss_local s)\<lparr>tl_name := th_name (ss_thread s), tl_this := True\<rparr>\<rparr>)"
| set_number: "ss_runner s = Named \<Longrightarrow>
    start_step tid s (s\<lparr>ss_runner := Numbered, ss_thread := (ss_thread s)\<lparr>th_tid := tid\<rparr>\<rparr>)"
| set_title: "ss_runner s = Numbered \<Longrightarrow>
    start_step tid s (s\<lparr>ss_runner := Titled,
      ss_local := (ss_local s)\<lparr>tl_kernel_name := c_str (take 15 (tl_name (ss_local s)))\<rparr>\<rparr>)"
| swap_cb: "ss_runner s = Titled \<Longrightarrow>
    start_step tid s (s\<lparr>ss_runner := Swapped, ss_local := (ss_local s)\<lparr>tl_cb := th_cb (ss_thread s)\<rparr>,
      ss_thread := (ss_thread s)\<lparr>th_cb := tl_cb (ss_local s)\<rparr>\<rparr>)"
| sem_notify: "ss_runner s = Swapped \<Longrightarrow>
    start_step tid s (s\<lparr>ss_runner := Notified, ss_thread := (ss_thread s)\<lparr>th_sem := th_sem (ss_thread s) + 1\<rparr>\<rparr>)"
| run_cb: "ss_runner s = Notified \<Longrightarrow> start_step tid s (s\<lparr>ss_runner := Finished\<rparr>)"

inductive started :: "u64 \<Rightarrow> 'cb \<Rightarrow> string \<Rightarrow> 'cb start_state \<Rightarrow> bool" for tid cb name where
  init: "started tid cb name (start_of cb name)"
| step: "started tid cb name s \<Longrightarrow> start_step tid s s' \<Longrightarrow> started tid cb name s'"

section \<open>Guards release what they take\<close>

datatype guard_op = GLock | GUnlock

fun guard_do :: "guard_op \<Rightarrow> guard \<Rightarrow> guard" where
  "guard_do GLock g = guard_lock g"
| "guard_do GUnlock g = guard_unlock g"

fun pairs_of :: "lock_call \<Rightarrow> nat \<Rightarrow> lock_call list" where
  "pairs_of a 0 = []"
| "pairs_of a (Suc n) = pairs_of a n @ [a, UnlockCall]"

lemma guard_run:
  assumes "g = fold guard_do ops (guard_new a)"
  shows "g_acquire g = a \<and> (\<exists>n. g_calls g = pairs_of a n @ (if g_locked g then [a] else []))"
  using assms
proof (induction ops arbitrary: g rule: rev_induct)
  case Nil
  then show ?case by (auto simp: guard_new_def intro: exI [of _ 0])
next
  case (snoc x ops)
  define h where "h = fold guard_do ops (guard_new a)"
  obtain n where h: "g_acquire h = a" "g_calls h = pairs_of a n @ (if g_locked h then [a] else [])"
    using snoc.IH [OF h_def] by auto
  have "g = guard_do x h" using snoc.prems by (simp add: h_def)
  then show ?case
    using h by (cases x; cases "g_locked h")
      (auto simp: guard_lock_def guard_unlock_def intro: exI [of _ n] exI [of _ "Suc n"])
qed

text \<open>Whatever is done with a guard, its lock is taken and released alternately, and it is free when the
  guard has gone.\<close>

lemma guard_balanced:
  "\<exists>n. g_calls (guard_destroy (fold guard_do ops (guard_new a))) = pairs_of a n"
proof -
  define g where "g = fold guard_do ops (guard_new a)"
  obtain n where "g_calls g = pairs_of a n @ (if g_locked g then [a] else [])"
    using guard_run [OF g_def] by auto
  then have "g_calls (guard_destroy g) = pairs_of a (if g_locked g then Suc n else n)"
    by (simp add: guard_destroy_def)
  then show ?thesis unfolding g_def by blast
qed

text \<open>A thread is joined or detached once, and not both.\<close>

lemma joined_once:
  assumes "th_thread th" and "th_join 0 (th, []) = Inr st"
  shows "th_join rc st = Inr st" and "th_destroy st = [JoinCall]" and "th_destroy (th, []) = [DetachCall]"
  using assms by (auto simp: th_join_def th_destroy_def)

section \<open>The handshake\<close>

text \<open>How far the new thread is, as a number.\<close>

fun stage :: "runner_at \<Rightarrow> nat" where
  "stage NotStarted = 0"
| "stage Entered = 1"
| "stage Named = 2"
| "stage Numbered = 3"
| "stage Titled = 4"
| "stage Swapped = 5"
| "stage Notified = 6"
| "stage Finished = 7"

definition start_ok :: "u64 \<Rightarrow> 'cb \<Rightarrow> string \<Rightarrow> 'cb start_state \<Rightarrow> bool" where
  "start_ok tid cb name s \<longleftrightarrow>
     th_name (ss_thread s) = (if name = [] then ''UNKOWN'' else name) \<and>
     (ss_creator s \<in> {Creating, Failed} \<longleftrightarrow> ss_runner s = NotStarted) \<and>
     (2 \<le> stage (ss_runner s) \<longrightarrow> tl_name (ss_local s) = th_name (ss_thread s) \<and> tl_this (ss_local s)) \<and>
     (3 \<le> stage (ss_runner s) \<longrightarrow> th_tid (ss_thread s) = tid) \<and>
     (4 \<le> stage (ss_runner s) \<longrightarrow> tl_kernel_name (ss_local s) = c_str (take 15 (th_name (ss_thread s)))) \<and>
     (if 5 \<le> stage (ss_runner s) then th_cb (ss_thread s) = None \<and> tl_cb (ss_local s) = Some cb
      else th_cb (ss_thread s) = Some cb \<and> tl_cb (ss_local s) = None) \<and>
     th_sem (ss_thread s) = (if 6 \<le> stage (ss_runner s) \<and> ss_creator s = Waiting then 1 else 0) \<and>
     (ss_creator s = Constructed \<longrightarrow> 6 \<le> stage (ss_runner s))"

lemma start_ok_step: "start_step tid s s' \<Longrightarrow> start_ok tid cb name s \<Longrightarrow> start_ok tid cb name s'"
proof (induction rule: start_step.induct)
  case (sem_notify s)
  then show ?case by (cases "ss_creator s") (auto simp: start_ok_def split: if_splits)
qed (auto simp: start_ok_def split: if_splits)

lemma started_ok: "started tid cb name s \<Longrightarrow> start_ok tid cb name s"
proof (induction rule: started.induct)
  case init
  show ?case by (simp add: start_ok_def start_of_def new_Thread_def new_local_def)
next
  case (step s s')
  then show ?case by (blast intro: start_ok_step)
qed

text \<open>Every step brings the start nearer to its end, and only a finished start has no step.\<close>

definition start_rank :: "'cb start_state \<Rightarrow> nat" where
  "start_rank s =
     (7 - stage (ss_runner s)) + (case ss_creator s of Creating \<Rightarrow> 2 | Waiting \<Rightarrow> 1 | _ \<Rightarrow> 0)"

lemma start_step_rank: "start_step tid s s' \<Longrightarrow> start_ok tid cb name s \<Longrightarrow> start_rank s' < start_rank s"
  by (induction rule: start_step.induct) (auto simp: start_ok_def start_rank_def)

lemma start_progress:
  assumes "start_ok tid cb name s" and "\<not> (ss_creator s = Failed \<or> ss_creator s = Constructed \<and> ss_runner s = Finished)"
  shows "\<exists>s'. start_step tid s s'"
proof (cases "ss_runner s")
  case NotStarted
  then have "ss_creator s = Creating" using assms by (auto simp: start_ok_def)
  then show ?thesis by (blast intro: start_step.create)
next
  case Finished
  then have "ss_creator s = Waiting" "0 < th_sem (ss_thread s)"
    using assms by (cases "ss_creator s"; auto simp: start_ok_def)+
  then show ?thesis by (blast intro: start_step.sem_wait)
qed (blast intro: start_step.intros)+

text \<open>C17: The constructor of a thread returns only after the new thread has set its name and number and taken over its
  function; neither of them waits for ever: every sequence of steps is finite, and it ends with the failure
  of \<^verbatim>\<open>pthread_create\<close> or with the object constructed and the function run.\<close>

theorem thread_start:
  assumes "started tid cb name s"
  shows "(ss_creator s = Constructed \<longrightarrow>
      th_tid (ss_thread s) = tid \<and> th_cb (ss_thread s) = None \<and> tl_cb (ss_local s) = Some cb \<and>
      tl_name (ss_local s) = (if name = [] then ''UNKOWN'' else name)) \<and>
    (\<forall>s'. start_step tid s s' \<longrightarrow> start_rank s' < start_rank s) \<and>
    ((\<nexists>s'. start_step tid s s') \<longrightarrow>
      ss_creator s = Failed \<or> ss_creator s = Constructed \<and> ss_runner s = Finished)"
proof -
  have ok: "start_ok tid cb name s" using assms by (rule started_ok)
  have "ss_creator s = Constructed \<longrightarrow>
      th_tid (ss_thread s) = tid \<and> th_cb (ss_thread s) = None \<and> tl_cb (ss_local s) = Some cb \<and>
      tl_name (ss_local s) = (if name = [] then ''UNKOWN'' else name)"
    using ok by (auto simp: start_ok_def)
  then show ?thesis using start_step_rank [OF _ ok] start_progress [OF ok] by blast
qed

theorem thread_start_witness:
  "start_rank ((start_of (0 :: nat) ''w'')\<lparr>ss_creator := Waiting, ss_runner := Entered,
     ss_thread := (ss_thread (start_of 0 ''w''))\<lparr>th_thread := True\<rparr>\<rparr>) < start_rank (start_of (0 :: nat) ''w'')"
proof -
  have "ss_creator (start_of (0 :: nat) ''w'') = Creating" by (simp add: start_of_def)
  from start_step.create [OF this, of 7] show ?thesis
    using thread_start [OF started.init [of 7 "0 :: nat" "''w''"]] by blast
qed

end
