(* ===== verification/Settings.thy ===== *)
theory Settings
  imports Configuration
begin

text \<open>
  The variables the components of the framework register before \<^verbatim>\<open>main\<close>, and the static copies of their
  values in \<^verbatim>\<open>http/http_parser.cpp\<close> and \<^verbatim>\<open>hook.cpp\<close>, which listeners keep up to date.
\<close>

section \<open>Static variables\<close>

text \<open>The five copies: sizes of the HTTP parser, and the timeout of \<^verbatim>\<open>connect\<close>.\<close>

datatype cached =
  s_http_request_buffer_size | s_http_request_max_body_size | s_http_response_buffer_size
| s_http_response_max_body_size | s_connect_timeout

type_synonym settings = "cached \<Rightarrow> u64"

fun cached_name :: "cached \<Rightarrow> string" where
  "cached_name s_http_request_buffer_size = ''http.request.buffer_size''"
| "cached_name s_http_request_max_body_size = ''http.request.max_body_size''"
| "cached_name s_http_response_buffer_size = ''http.response.buffer_size''"
| "cached_name s_http_response_max_body_size = ''http.response.max_body_size''"
| "cached_name s_connect_timeout = ''tcp.connect.timeout''"

text \<open>The value that is copied; an \<^verbatim>\<open>int\<close> is converted to \<^verbatim>\<open>uint64_t\<close>.\<close>

definition value_u64 :: "cvalue \<Rightarrow> u64" where
  "value_u64 v = (case v of CU64 n \<Rightarrow> n | CInt n \<Rightarrow> scast n | CU32 n \<Rightarrow> ucast n | _ \<Rightarrow> 0)"

definition cache_listener :: "cached \<Rightarrow> settings listener" where
  "cache_listener c = (\<lambda>old_val new_val w. (w(c := value_u64 new_val), False))"

section \<open>Start-up\<close>

text \<open>The variables with their defaults; \<^verbatim>\<open>logs\<close> is registered by the logging.\<close>

definition framework_vars :: "(string \<times> cvalue \<times> string) list" where
  "framework_vars =
     [(''http.request.buffer_size'', CU64 (4 * 1024), ''http request buffer''),
      (''http.request.max_body_size'', CU64 (4 * 1024 * 1024), ''http request max_body_size''),
      (''http.response.buffer_size'', CU64 (4 * 1024), ''http response buffer''),
      (''http.response.max_body_size'', CU64 (4 * 1024 * 1024), ''http response max_body_size''),
      (''tcp.connect.timeout'', CInt 5000, ''tcp connect timeout''),
      (''tcp_server.read_timeout'', CU64 (60 * 1000 * 2), ''tcp server read timeout''),
      (''websockt.message.max_size'', CU32 (1024 * 1024 * 32), ''websocket message max size''),
      (''module.path'', CStr ''module'', ''module path''),
      (''daemon.restart_interval'', CU32 5, ''daemon restart interval''),
      (''server.work_path'', CStr ''/home/xzmjx/work/xzmjx'', ''server work path''),
      (''server.pid_file'', CStr ''xzmjx.pid'', ''server pid file'')]"

definition register_all :: "(string \<times> cvalue \<times> string) list \<Rightarrow> 'w Config \<Rightarrow> 'w Config" where
  "register_all vars cf = fold (\<lambda>(name, v, d) cf. snd (Lookup name v d cf)) vars cf"

text \<open>The initialisers: the values are copied, then the listeners registered.\<close>

definition copy_value :: "cached \<Rightarrow> settings Config \<Rightarrow> settings \<Rightarrow> settings" where
  "copy_value c cf w =
     (case cf_map cf (cached_name c) of None \<Rightarrow> w | Some var \<Rightarrow> w(c := value_u64 (cv_val var)))"

definition init_cached :: "cached list \<Rightarrow> settings Config \<times> settings \<Rightarrow> settings Config \<times> settings" where
  "init_cached cs st =
     (fold (\<lambda>c cf. snd (addListener (cached_name c) (cache_listener c) cf)) cs (fst st),
      fold (\<lambda>c w. copy_value c (fst st) w) cs (snd st))"

definition HttpParserIniter :: "settings Config \<times> settings \<Rightarrow> settings Config \<times> settings" where
  "HttpParserIniter =
     init_cached [s_http_request_buffer_size, s_http_request_max_body_size, s_http_response_buffer_size,
       s_http_response_max_body_size]"

definition HookIniter :: "settings Config \<times> settings \<Rightarrow> settings Config \<times> settings" where
  "HookIniter = init_cached [s_connect_timeout]"

definition start_up :: "settings Config \<times> settings" where
  "start_up =
     HookIniter (HttpParserIniter (register_all framework_vars new_Config,
       \<lambda>c. if c = s_connect_timeout then - 1 else 0))"

section \<open>The copies follow\<close>

text \<open>What can happen to the registry when no other listeners are registered.\<close>

inductive settings_reach :: "settings Config \<times> settings \<Rightarrow> bool" where
  start: "settings_reach start_up"
| assign: "settings_reach (cf, w) \<Longrightarrow> settings_reach (setValue name v (cf, w))"
| load: "settings_reach st \<Longrightarrow> settings_reach (fromString lib name f st)"
| look: "settings_reach (cf, w) \<Longrightarrow> settings_reach (snd (Lookup name v d cf), w)"

definition settings_ok :: "settings Config \<times> settings \<Rightarrow> bool" where
  "settings_ok st \<longleftrightarrow>
     (\<forall>c. \<exists>var i. cf_map (fst st) (cached_name c) = Some var \<and> cv_listeners var = [(i, cache_listener c)] \<and>
       snd st c = value_u64 (cv_val var)) \<and>
     (\<forall>name var. cf_map (fst st) name = Some var \<and> name \<notin> range cached_name \<longrightarrow> cv_listeners var = [])"

lemma cached_name_inj: "cached_name c = cached_name d \<longleftrightarrow> c = d"
  by (cases c; cases d) simp_all

lemma cv_setValue_cached:
  assumes "cv_listeners var = [(i, cache_listener c)]" and "w c = value_u64 (cv_val var)"
  shows "\<exists>var'. cv_setValue v var w = (var', w(c := value_u64 (cv_val var')), False) \<and>
    cv_listeners var' = cv_listeners var"
  using assms by (auto simp: cv_setValue_def cache_listener_def fun_upd_idem)

lemma cv_setValue_plain:
  assumes "cv_listeners var = []"
  shows "\<exists>var'. cv_setValue v var w = (var', w, False) \<and> cv_listeners var' = []"
  using assms by (auto simp: cv_setValue_def)

lemma setValue_ok:
  assumes "settings_ok (cf, w)"
  shows "settings_ok (setValue name v (cf, w))"
proof (cases "cf_map cf name")
  case None
  then show ?thesis using assms by (simp add: setValue_def)
next
  case (Some var)
  show ?thesis
  proof (cases "name \<in> range cached_name")
    case True
    then obtain c where c: "name = cached_name c" by blast
    then obtain i where "cv_listeners var = [(i, cache_listener c)]" "w c = value_u64 (cv_val var)"
      using assms Some c unfolding settings_ok_def fst_conv snd_conv by (metis option.inject)
    then obtain var' where "cv_setValue v var w = (var', w(c := value_u64 (cv_val var')), False)"
        "cv_listeners var' = [(i, cache_listener c)]"
      using cv_setValue_cached [of var i c w v] by auto
    then show ?thesis
      using assms Some c by (auto simp: setValue_def settings_ok_def cached_name_inj)
  next
    case False
    then have "cv_listeners var = []" using assms Some by (auto simp: settings_ok_def)
    then obtain var' where "cv_setValue v var w = (var', w, False)" "cv_listeners var' = []"
      using cv_setValue_plain [of var v w] by auto
    then show ?thesis using assms Some False by (auto simp: setValue_def settings_ok_def)
  qed
qed

text \<open>Loading a text is assigning the value it is converted to.\<close>

lemma fromString_setValue:
  "fromString lib name f st = st \<or> (\<exists>v. fromString lib name f st = setValue name v st)"
proof -
  obtain cf w where st: "st = (cf, w)" by (cases st)
  show ?thesis
  proof (cases "cf_map cf name")
    case None
    then show ?thesis by (simp add: st fromString_def LookupBase_def)
  next
    case (Some var)
    show ?thesis
    proof (cases "from_text lib (type_of (cv_val var)) f")
      case None
      then show ?thesis using Some
        by (simp add: st fromString_def LookupBase_def cv_fromString_def map_upd_triv)
    next
      case v: (Some v)
      then have "fromString lib name f st = setValue name v st"
        using Some by (simp add: st fromString_def LookupBase_def cv_fromString_def setValue_def split: prod.split)
      then show ?thesis by blast
    qed
  qed
qed

lemma fromString_ok:
  assumes "settings_ok st"
  shows "settings_ok (fromString lib name f st)"
proof -
  obtain cf w where st: "st = (cf, w)" by (cases st)
  show ?thesis using fromString_setValue [of lib name f st] assms setValue_ok [of cf w name] by (auto simp: st)
qed

lemma Lookup_ok:
  assumes "settings_ok (cf, w)"
  shows "settings_ok (snd (Lookup name v d cf), w)"
proof (cases "cf_map cf name")
  case None
  then have "name \<noteq> cached_name c" for c
    using assms unfolding settings_ok_def fst_conv by (metis option.distinct(1))
  then show ?thesis
    using assms None by (auto simp: Lookup_def settings_ok_def new_ConfigVar_def)
next
  case (Some var)
  then show ?thesis using assms by (simp add: Lookup_def)
qed


text \<open>The registry after the variables are registered, and after the listeners are.\<close>

lemma Lookup_new:
  assumes "cf_map cf name = None" and "set name \<subseteq> set name_chars"
  shows "snd (Lookup name v d cf) = cf\<lparr>cf_map := (cf_map cf)(name \<mapsto> new_ConfigVar name v d)\<rparr>"
proof -
  have "find_first_not_of name name_chars = None" using assms(2) by (simp add: find_first_None)
  then show ?thesis using assms(1) by (simp add: Lookup_def)
qed

lemma register_all_map:
  fixes cf :: "'w Config"
  assumes "distinct (map fst vars)" and "\<forall>x \<in> set vars. cf_map cf (fst x) = None \<and> set (fst x) \<subseteq> set name_chars"
  shows "cf_map (register_all vars cf) =
    cf_map cf ++ map_of (map (\<lambda>(name, v, d). (name, new_ConfigVar name v d)) vars)"
  using assms
proof (induction vars arbitrary: cf)
  case Nil
  show ?case by (simp add: register_all_def)
next
  case (Cons x vars)
  obtain name v d where x: "x = (name, v, d)" by (cases x)
  have new: "name \<notin> fst ` set vars" using Cons.prems(1) by (simp add: x)
  let ?cf = "cf\<lparr>cf_map := (cf_map cf)(name \<mapsto> new_ConfigVar name v d)\<rparr>"
  have "register_all (x # vars) cf = register_all vars ?cf"
    using Cons.prems(2) Lookup_new [of cf name v d] by (simp add: register_all_def x)
  moreover have "cf_map (register_all vars ?cf) =
      cf_map ?cf ++ map_of (map (\<lambda>(name, v, d). (name, new_ConfigVar name v d)) vars)"
    using Cons.prems new by (intro Cons.IH) (auto simp: x)
  moreover have "name \<notin> dom (map_of (map (\<lambda>(name, v, d). (name, new_ConfigVar name v d :: 'w ConfigVar)) vars))"
    using new by (force dest!: map_of_SomeD)
  ultimately show ?case by (auto simp: x fun_eq_iff map_add_def dom_def split: option.split)
qed

lemma framework_names:
  "distinct (map fst framework_vars)" "\<forall>x \<in> set framework_vars. set (fst x) \<subseteq> set name_chars"
  by (simp_all add: framework_vars_def name_chars_def)

lemma add_listeners:
  assumes "distinct cs" and "\<forall>c \<in> set cs. \<exists>var. cf_map cf (cached_name c) = Some var \<and> cv_listeners var = []"
    and "cf' = fold (\<lambda>c cf. snd (addListener (cached_name c) (cache_listener c) cf)) cs cf"
  shows "(\<forall>c \<in> set cs. \<exists>var i. cf_map cf (cached_name c) = Some var \<and>
      cf_map cf' (cached_name c) = Some (var\<lparr>cv_listeners := [(i, cache_listener c)]\<rparr>)) \<and>
    (\<forall>name. name \<notin> cached_name ` set cs \<longrightarrow> cf_map cf' name = cf_map cf name)"
  using assms
proof (induction cs arbitrary: cf)
  case Nil
  then show ?case by simp
next
  case (Cons c cs)
  obtain var where var: "cf_map cf (cached_name c) = Some var" "cv_listeners var = []" using Cons.prems(2) by auto
  define cf1 where "cf1 = snd (addListener (cached_name c) (cache_listener c) cf)"
  obtain i where cf1: "cf_map cf1 = (cf_map cf)(cached_name c \<mapsto> var\<lparr>cv_listeners := [(i, cache_listener c)]\<rparr>)"
    using var by (auto simp: cf1_def addListener_def cv_addListener_def Let_def)
  have "cf' = fold (\<lambda>c cf. snd (addListener (cached_name c) (cache_listener c) cf)) cs cf1"
    using Cons.prems(3) by (simp add: cf1_def)
  moreover have "\<forall>d \<in> set cs. \<exists>var. cf_map cf1 (cached_name d) = Some var \<and> cv_listeners var = []"
    using Cons.prems by (auto simp: cf1 cached_name_inj)
  ultimately have IH: "\<forall>d \<in> set cs. \<exists>var i. cf_map cf1 (cached_name d) = Some var \<and>
      cf_map cf' (cached_name d) = Some (var\<lparr>cv_listeners := [(i, cache_listener d)]\<rparr>)"
    "\<forall>name. name \<notin> cached_name ` set cs \<longrightarrow> cf_map cf' name = cf_map cf1 name"
    using Cons.IH [of cf1] Cons.prems(1) by auto
  have "cached_name c \<notin> cached_name ` set cs" using Cons.prems(1) by (auto simp: cached_name_inj)
  moreover have "cf_map cf1 (cached_name d) = cf_map cf (cached_name d)" if "d \<in> set cs" for d
    using that Cons.prems(1) by (auto simp: cf1 cached_name_inj)
  ultimately show ?case using IH var by (auto simp: cf1)
qed

lemma copy_values:
  "fold (\<lambda>c w. copy_value c cf w) cs w d =
     (case cf_map cf (cached_name d) of
        Some var \<Rightarrow> if d \<in> set cs then value_u64 (cv_val var) else w d
      | None \<Rightarrow> w d)"
  by (induction cs arbitrary: w) (auto simp: copy_value_def split: option.split)

lemma init_cached_ok:
  assumes "distinct (cs @ ds)" and "\<And>c. c \<in> set (cs @ ds)" and "cf_map cf = map_of vars"
    and "\<forall>x \<in> set vars. cv_listeners (snd x) = []" and "range cached_name \<subseteq> fst ` set vars"
  shows "settings_ok (init_cached ds (init_cached cs (cf, w)))"
proof -
  define cf1 where "cf1 = fst (init_cached cs (cf, w))"
  define cf2 where "cf2 = fst (init_cached ds (init_cached cs (cf, w)))"
  have plain: "cv_listeners var = []" if "cf_map cf name = Some var" for name var
    using that assms(3,4) by (auto dest!: map_of_SomeD)
  have "\<exists>var. cf_map cf (cached_name c) = Some var" for c
    using assms(3,5) by (metis (no_types, lifting) in_mono map_of_eq_None_iff not_None_eq rangeI)
  then have has: "\<exists>var. cf_map cf (cached_name c) = Some var \<and> cv_listeners var = []" for c
    using plain by blast
  have one: "(\<forall>c \<in> set cs. \<exists>var i. cf_map cf (cached_name c) = Some var \<and>
      cf_map cf1 (cached_name c) = Some (var\<lparr>cv_listeners := [(i, cache_listener c)]\<rparr>)) \<and>
    (\<forall>name. name \<notin> cached_name ` set cs \<longrightarrow> cf_map cf1 name = cf_map cf name)"
    using assms(1) has by (intro add_listeners) (auto simp: cf1_def init_cached_def)
  have two: "(\<forall>c \<in> set ds. \<exists>var i. cf_map cf1 (cached_name c) = Some var \<and>
      cf_map cf2 (cached_name c) = Some (var\<lparr>cv_listeners := [(i, cache_listener c)]\<rparr>)) \<and>
    (\<forall>name. name \<notin> cached_name ` set ds \<longrightarrow> cf_map cf2 name = cf_map cf1 name)"
  proof (rule add_listeners)
    show "\<forall>c \<in> set ds. \<exists>var. cf_map cf1 (cached_name c) = Some var \<and> cv_listeners var = []"
    proof
      fix c assume "c \<in> set ds"
      then have "cached_name c \<notin> cached_name ` set cs" using assms(1) by (auto simp: cached_name_inj)
      then show "\<exists>var. cf_map cf1 (cached_name c) = Some var \<and> cv_listeners var = []"
        using one has [of c] by auto
    qed
  qed (use assms(1) in \<open>auto simp: cf2_def cf1_def init_cached_def\<close>)
  have copied: "snd (init_cached ds (init_cached cs (cf, w))) =
      fold (\<lambda>c w. copy_value c cf1 w) ds (fold (\<lambda>c w. copy_value c cf w) cs w)"
    by (simp add: cf1_def init_cached_def)
  have "\<exists>var i. cf_map cf2 (cached_name c) = Some var \<and> cv_listeners var = [(i, cache_listener c)] \<and>
      snd (init_cached ds (init_cached cs (cf, w))) c = value_u64 (cv_val var)" for c
  proof (cases "c \<in> set cs")
    case True
    then have "cached_name c \<notin> cached_name ` set ds" "c \<notin> set ds" using assms(1) by (auto simp: cached_name_inj)
    then show ?thesis using one two True by (fastforce simp: copied copy_values split: option.split)
  next
    case False
    then have "c \<in> set ds" using assms(2) [of c] by simp
    then show ?thesis using two by (fastforce simp: copied copy_values split: option.split)
  qed
  moreover have "cv_listeners var = []" if "cf_map cf2 name = Some var" "name \<notin> range cached_name" for name var
    using that one two plain [of name var] by (auto simp: image_iff)
  ultimately show ?thesis by (auto simp: settings_ok_def cf2_def)
qed

lemma start_up_ok: "settings_ok start_up"
  unfolding start_up_def HookIniter_def HttpParserIniter_def
proof (rule init_cached_ok)
  show "cf_map (register_all framework_vars new_Config) =
      map_of (map (\<lambda>(name, v, d). (name, new_ConfigVar name v d)) framework_vars)"
    using register_all_map [OF framework_names(1), of new_Config] framework_names(2) by (simp add: new_Config_def)
  show "range cached_name \<subseteq> fst ` set (map (\<lambda>(name, v, d). (name, new_ConfigVar name v d)) framework_vars)"
  proof
    fix name assume "name \<in> range cached_name"
    then obtain c where "name = cached_name c" by blast
    then show "name \<in> fst ` set (map (\<lambda>(name, v, d). (name, new_ConfigVar name v d)) framework_vars)"
      by (cases c) (simp_all add: framework_vars_def)
  qed
  show "c \<in> set ([s_http_request_buffer_size, s_http_request_max_body_size, s_http_response_buffer_size,
       s_http_response_max_body_size] @ [s_connect_timeout])" for c
    by (cases c) simp_all
qed (auto simp: new_ConfigVar_def)

lemma reach_ok: "settings_reach st \<Longrightarrow> settings_ok st"
  by (induction rule: settings_reach.induct) (auto intro: start_up_ok setValue_ok fromString_ok Lookup_ok)

text \<open>A negative timeout is copied as a number of \<open>2 ^ 64 - 1\<close> milliseconds, the mark of no timeout.\<close>

lemma no_connect_timeout: "value_u64 (CInt (- 1)) = - 1"
  by (simp add: value_u64_def)

text \<open>C23: Whatever is assigned to the variables, loaded from files or registered after the start, the five
  static copies that the HTTP parser and the hooked \<^verbatim>\<open>connect\<close> read are the current values of their variables.\<close>

theorem cached_settings_follow:
  assumes "settings_reach (cf, w)"
  shows "\<exists>var. LookupBase (cached_name c) cf = Some var \<and> w c = value_u64 (cv_val var)"
proof -
  have "settings_ok (cf, w)" using assms by (rule reach_ok)
  then show ?thesis by (auto simp: settings_ok_def LookupBase_def)
qed

theorem cached_settings_follow_witness:
  "\<exists>var. LookupBase ''tcp.connect.timeout'' (fst (setValue ''tcp.connect.timeout'' (CInt 7) start_up)) = Some var \<and>
     snd (setValue ''tcp.connect.timeout'' (CInt 7) start_up) s_connect_timeout = value_u64 (cv_val var)"
proof -
  obtain cf w where st: "start_up = (cf, w)" by fastforce
  then have "settings_reach (setValue ''tcp.connect.timeout'' (CInt 7) (cf, w))"
    using settings_reach.start by (intro settings_reach.assign) simp
  then show ?thesis
    using cached_settings_follow [of _ _ s_connect_timeout] unfolding st by (metis cached_name.simps(5) prod.collapse)
qed

end
