(* ===== verification/Spec2Isabelle.thy ===== *)
theory Spec2Isabelle
  imports Byte_Codec Bitmaps Fiber_Sync Http_Server Application Stream_Buffers Threads Settings
begin

text \<open>
  A verification of xzmjx, a C++ framework for network servers in which a connection is served by a
  fiber: fibers are scheduled on threads, an I/O manager resumes them when epoll reports their
  descriptors or when their timers expire, hooked system calls make blocking code yield, and
  HTTP and WebSocket servers are built on sockets on top of this.

  \<^bold>\<open>Parts and theories.\<close>  The paths are under \<^verbatim>\<open>src/xzmjx\<close>.

  \<^item> \<open>Prelude\<close>: machine integers, results with errors, memory areas, C strings, decimal printing.
  \<^item> \<open>Endian\<close> (\<^verbatim>\<open>util.h\<close>), \<open>Byte_Array\<close> (the definitions), \<open>Byte_Store\<close> (reading, writing and positioning)
    and \<open>Byte_Codec\<close> (integers and strings): \<^verbatim>\<open>bytearray.cpp\<close>, a buffer in a chain of blocks.  The
    abstraction \<open>contents\<close> is the byte sequence; writing refines overwriting it.  The lemmas give the
    complete outcome of reading (with the stale block pointer it may leave), of buffer views and of
    files, and round trips of varints (with what is read where that pointer spoils them), fixed-width
    integers and strings.
  \<^item> \<open>Util_Text\<close> (\<^verbatim>\<open>util.cpp\<close>): base64, percent-encoding, trimming, path names.
  \<^item> \<open>Ordered_Set\<close>, \<open>Ordered_Map\<close>: \<^verbatim>\<open>std::set\<close> and \<^verbatim>\<open>std::map\<close> with a comparison object; the locale
    \<open>strict_weak_order\<close> is the contract of the comparison, interpreted for the timers and for the
    case-insensitive keys of HTTP.
  \<^item> \<open>Timers\<close> (\<^verbatim>\<open>timer.cpp\<close>): the ordered set of timers over a store of timer objects; reachable states,
    the invariant, expiry, cancellation.
  \<^item> \<open>Fibers\<close> (\<^verbatim>\<open>fiber.cpp\<close>): a fiber's body is a script of yields; resuming runs it to the next one, and the
    thread records what it executes.
  \<^item> \<open>Scheduling\<close> (\<^verbatim>\<open>scheduler.cpp\<close>): the task queue and the rounds of a scheduling thread, which execute
    the scripts of the tasks in the order of the specification \<open>round_robin\<close>.
  \<^item> \<open>IO_Manager\<close> (\<^verbatim>\<open>iomanager.cpp\<close>): registered events, epoll's interest list and the wait loop; the agreement of
    these, and which calls of \<^verbatim>\<open>cancelAll\<close> and \<^verbatim>\<open>delAll\<close> break it.
  \<^item> \<open>Fiber_Sync\<close> (\<^verbatim>\<open>sync/\<close>): mutexes, condition variables and channels of fibers.
  \<^item> \<open>Hooks\<close> (\<^verbatim>\<open>fdmanager.cpp\<close>, \<^verbatim>\<open>hook.cpp\<close>): known descriptors and the hooked system calls.
  \<^item> \<open>Bitmaps\<close> (\<^verbatim>\<open>ds/\<close>): bitmaps with their word-parallel operators, Bloom filters.
  \<^item> \<open>Http_Message\<close> (\<^verbatim>\<open>http/http.h\<close>, \<^verbatim>\<open>http/http.cpp\<close>): requests and responses with their maps, parameters,
    cookies and printing.
  \<^item> \<open>Streams\<close> (\<^verbatim>\<open>socket.cpp\<close>, \<^verbatim>\<open>socketstream.cpp\<close>, \<^verbatim>\<open>stream.cpp\<close>): data transfer over a socket.
  \<^item> \<open>Http_Session\<close> (\<^verbatim>\<open>http/http_parser.cpp\<close>, \<^verbatim>\<open>http/http_session.cpp\<close>): parser callbacks, receiving
    requests and sending responses.
  \<^item> \<open>Web_Socket\<close> (\<^verbatim>\<open>http/ws_session.cpp\<close>): frames, messages and the handshake.  A message is the list of the
    fields of its frames; the theorems on receiving are for input whose chunks do not split a field.
  \<^item> \<open>Http_Server\<close> (\<^verbatim>\<open>http/servlet.cpp\<close>, \<^verbatim>\<open>http/http_server.cpp\<close>, \<^verbatim>\<open>http/ws_servlet.cpp\<close>,
    \<^verbatim>\<open>http/ws_server.cpp\<close>): servlets, dispatch and the serving loops.
  \<^item> \<open>Log_Format\<close> (\<^verbatim>\<open>log.h\<close>, \<^verbatim>\<open>log.cpp\<close>: levels, events, items, \<^verbatim>\<open>LogFormatter\<close>): the parser of patterns is
    compared with the patterns one can write; \<open>Logging\<close> (appenders, loggers, the manager): where a message
    goes in every reachable set-up; \<open>Log_Config\<close> (the definitions of loggers and the listener that
    applies them).
  \<^item> \<open>Configuration\<close> (\<^verbatim>\<open>config.h\<close>, \<^verbatim>\<open>config.cpp\<close> and the conversions of log definitions in \<^verbatim>\<open>log.cpp\<close>):
    conversions between text and values, variables with listeners, the registry, loading a file, and the
    way from a file to the loggers.
  \<^item> \<open>Addresses\<close> (\<^verbatim>\<open>address.cpp\<close>): socket addresses, subnets, their text, splitting of host names.
  \<^item> \<open>Sockets\<close> (\<^verbatim>\<open>socket.cpp\<close>): a socket over the hooked calls: creating, binding, accepting, connecting,
    timeouts, closing; \<open>Tcp_Server\<close> (\<^verbatim>\<open>tcp_server.cpp\<close> and the constructors of the HTTP and WebSocket servers):
    binding, the accepting loop, stopping.
  \<^item> \<open>File_Util\<close> (\<^verbatim>\<open>FSUtil\<close> in \<^verbatim>\<open>util.cpp\<close>): listing, removing and creating directories over a tree of
    directory entries, files with process numbers; \<open>Environment\<close> (\<^verbatim>\<open>env.cpp\<close>): the command line, compared with
    the command lines one can write; \<open>Modules\<close> (\<^verbatim>\<open>module.cpp\<close>, \<^verbatim>\<open>library.cpp\<close>): loading and unloading;
    \<open>Application\<close> (\<^verbatim>\<open>application.cpp\<close>, \<^verbatim>\<open>daemon.cpp\<close>, \<^verbatim>\<open>main.cpp\<close>): the decision to run, supervision and the
    start of the servers, with the servers as each call of the modules finds them.
  \<^item> \<open>Stream_Buffers\<close> (\<^verbatim>\<open>socketstream.cpp\<close>, \<^verbatim>\<open>stream.cpp\<close>): transfers between a socket and a \<open>ByteArray\<close>, as
    overwriting its contents with the next bytes of what the peer sends; \<open>Threads\<close> (\<^verbatim>\<open>mutex.h\<close>, \<^verbatim>\<open>thread.cpp\<close>): guards of locks,
    thread objects, and the start of a thread as a step relation; \<open>Settings\<close> (\<^verbatim>\<open>http/http_parser.cpp\<close>,
    \<^verbatim>\<open>hook.cpp\<close>): the variables registered before \<^verbatim>\<open>main\<close> and the static copies their listeners keep current.
  \<^item> This theory: what the wait loop does with timers that expire together (timers, scheduler and I/O
    manager).

  \<^bold>\<open>How the code is modelled.\<close>  A class is a record, a pointer an address in a store or an option, an
  exception, a failed assertion or an access outside an array the left side of a sum.  A section under a
  lock is one step.  System calls and libraries are arguments: their results (\<^verbatim>\<open>epoll_ctl\<close>, \<^verbatim>\<open>recv\<close>, the
  clock), or functions (\<^verbatim>\<open>fnmatch\<close>, SHA-1, \<^verbatim>\<open>lexical_cast\<close>, the HTTP scanner).  The name of a definition is
  the function's; where two classes share one, a prefix tells them apart.

  \<^bold>\<open>Loops.\<close>  Loops over data are recursive functions with a measure.  The loops that receive from a
  connection have the amount of pending input as their measure, so they are total for every peer.  The
  serving loops, which call the application, are partial functions, and it is proved that they return
  when no servlet feeds the session.  \<open>run_rounds\<close> and \<open>resume_n\<close> count rounds and resumes; the theorems say
  how many are enough, the workload of the queue and the number of yields plus one.

  \<^bold>\<open>What the theorems show.\<close>  Besides invariants, round trips and complete outcomes, some theorems state what the
  code does where it does not do what it is meant to: they are listed as findings, for instance expired
  timers whose callbacks are lost, scalar values no configuration file can set, the listening sockets a failed
  bind drops.

  \<^bold>\<open>Not modelled.\<close>  The bundled scanner \<^verbatim>\<open>http_parser.c\<close> (third-party code); the macros; the libraries for YAML,
  name resolution and dynamic linking and the calls of the operating system, which are parameters; messages the components log about themselves, and failing
  writes to a log file; the conversions of hash sets and hash maps, which the framework does not use; the
  \<^verbatim>\<open>pthread\<close> and semaphore calls themselves; the wrappers of the C library in \<^verbatim>\<open>util.cpp\<close> for backtraces, \<^verbatim>\<open>printf\<close>
  formatting, local time and wide characters.
\<close>


section \<open>Timers that expire together\<close>

definition timer_task :: "script TimerManager \<Rightarrow> nat \<Rightarrow> Task" where
  "timer_task tm t = \<lparr>fiber = None, taskCb = Timer.m_cb (store tm t), threadId = - 1\<rparr>"

lemma timer_tasks:
  assumes "\<forall>t \<in> set ts. Timer.m_cb (store tm t) \<noteq> None"
  shows "filter Task_bool (map (\<lambda>fc. Task_new fc (- 1))
      (map (OfCb \<circ> Some) (List.map_filter (\<lambda>t. Timer.m_cb (store tm t)) ts))) = map (timer_task tm) ts"
  using assms by (induction ts) (auto simp: map_filter_simps timer_task_def Task_bool_def)

lemma take_map_filter_Some:
  assumes "\<forall>t \<in> set ts. f t \<noteq> None"
  shows "take n (List.map_filter f ts) = List.map_filter f (take n ts)"
  using assms by (induction ts arbitrary: n) (auto simp: map_filter_simps take_Cons split: nat.split)

text \<open>C38: when timers expire together while no task is waiting, one turn of the wait loop submits the
  callback of the first alone: the callbacks of the others are lost, and the one-shot timers among them
  are gone.  Nothing is lost when a task is waiting.\<close>

theorem expired_timers_lost:
  assumes "armed (m_time_manager m)" and "tmp \<notin> set (m_timers (m_time_manager m))"
    and "\<not> fst (io_canStop now m)"
    and "expired = takeWhile (\<lambda>t. m_next (store (m_time_manager m) t) \<le> later) (m_timers (m_time_manager m))"
  shows "\<exists>m'. wait_turn now tmp later clock [] m = Some (Inr m') \<and>
    m_task (sched m') =
      (if m_task (sched m) = [] then map (timer_task (m_time_manager m)) (take 1 expired)
       else m_task (sched m) @ map (timer_task (m_time_manager m)) expired) \<and>
    (\<forall>t \<in> set expired. \<not> m_recurring (store (m_time_manager m) t) \<longrightarrow> t \<notin> set (m_timers (m_time_manager m')))"
proof -
  let ?tm = "m_time_manager m"
  obtain cbs tm' where l: "listExpiredCb tmp later clock [] ?tm = (cbs, tm')" by fastforce
  have ok: "timers_ok ?tm" and cb: "\<forall>t \<in> set (m_timers ?tm). Timer.m_cb (store ?tm t) \<noteq> None"
    using assms(1) by (auto simp: armed_def)
  have cbs: "cbs = List.map_filter (\<lambda>t. Timer.m_cb (store ?tm t)) expired"
    and gone: "set (m_timers tm') = {t \<in> set (m_timers ?tm). m_next (store ?tm t) \<le> later \<longrightarrow> m_recurring (store ?tm t)}"
    using listExpiredCb_correct [OF ok assms(2) l] assms(4) by auto
  have sub: "\<forall>t \<in> set expired. Timer.m_cb (store ?tm t) \<noteq> None" "\<forall>t \<in> set (take 1 expired). Timer.m_cb (store ?tm t) \<noteq> None"
    using cb assms(4) by (auto dest!: set_takeWhileD in_set_takeD)
  define m' where "m' = m\<lparr>m_time_manager := tm', sched := submit_range (map (OfCb \<circ> Some) cbs) (sched m)\<rparr>"
  have "wait_turn now tmp later clock [] m = Some (Inr m')"
    using assms(3) l by (simp add: wait_turn_def m'_def)
  moreover have "m_task (sched m') =
      (if m_task (sched m) = [] then map (timer_task ?tm) (take 1 expired)
       else m_task (sched m) @ map (timer_task ?tm) expired)"
    using timer_tasks [OF sub(1)] timer_tasks [OF sub(2)] take_map_filter_Some [OF sub(1), of 1]
    by (simp add: m'_def submit_range_task cbs take_map)
  moreover have "t \<notin> set (m_timers (m_time_manager m'))"
    if "t \<in> set expired" "\<not> m_recurring (store ?tm t)" for t
    using that gone assms(4) by (auto simp: m'_def dest: set_takeWhileD)
  ultimately show ?thesis by blast
qed

text \<open>Two timers that expire at the same time.\<close>

definition two_timers :: IOManager where
  "two_timers =
     \<lparr>sched = Scheduler_new 1, m_fd_contexts = [], epoll = (\<lambda>_. None), m_pending_event_count = 0,
      m_time_manager =
        fst (addTimer 4 100 5 (Some Return) False
          (fst (addTimer 3 100 5 (Some Throw) False (TimerManager_new (\<lambda>_. Timer_at 0))))),
      tickled = 0\<rparr>"

theorem expired_timers_lost_witness:
  "\<exists>m'. wait_turn 100 9 105 (\<lambda>_. 105) [] two_timers = Some (Inr m') \<and>
     m_task (sched m') = [\<lparr>fiber = None, taskCb = Some Throw, threadId = - 1\<rparr>] \<and>
     4 \<notin> set (m_timers (m_time_manager m'))"
proof -
  let ?tm = "m_time_manager two_timers"
  have ts: "m_timers ?tm = [3, 4]"
    by (simp add: two_timers_def addTimer_def addTimer_locked_def TimerManager_new_def upd_timer_def Timer_new_def
        set_insert_def set_find_def before_def Comparator_def Let_def)
  have st: "store ?tm 3 = Timer_new 100 5 (Some Throw) False" "store ?tm 4 = Timer_new 100 5 (Some Return) False"
    by (simp_all add: two_timers_def addTimer_def addTimer_locked_def upd_timer_def TimerManager_new_def Let_def)
  have "armed ?tm"
    unfolding armed_def timers_ok_def ts by (simp add: st Timer_new_def before_def Comparator_def)
  moreover have "9 \<notin> set (m_timers ?tm)" by (simp add: ts)
  moreover have "\<not> fst (io_canStop 100 two_timers)"
    by (simp add: io_canStop_def getNextTimerInterval_def ts st Timer_new_def)
  moreover have "[3, 4] = takeWhile (\<lambda>t. m_next (store ?tm t) \<le> 105) (m_timers ?tm)"
    by (simp add: ts st Timer_new_def)
  ultimately obtain m' where w: "wait_turn 100 9 105 (\<lambda>_. 105) [] two_timers = Some (Inr m')"
    "m_task (sched m') = (if m_task (sched two_timers) = [] then map (timer_task ?tm) (take 1 [3, 4])
       else m_task (sched two_timers) @ map (timer_task ?tm) [3, 4])"
    "\<forall>t \<in> set [3, 4]. \<not> m_recurring (store ?tm t) \<longrightarrow> t \<notin> set (m_timers (m_time_manager m'))"
    using expired_timers_lost [of two_timers 9 100 "[3, 4]" 105 "\<lambda>_. 105"] by blast
  have "m_task (sched two_timers) = []" by (simp add: two_timers_def Scheduler_new_def)
  then have "m_task (sched m') = [timer_task ?tm 3]" using w(2) by simp
  then have "m_task (sched m') = [\<lparr>fiber = None, taskCb = Some Throw, threadId = - 1\<rparr>]"
    by (simp add: timer_task_def st Timer_new_def)
  moreover have "4 \<notin> set (m_timers (m_time_manager m'))" using w(3) st by (simp add: Timer_new_def)
  ultimately show ?thesis using w(1) by blast
qed

end
